(* ===== verification/Prelude.thy ===== *)
theory Prelude
  imports Main "HOL-Library.Word"
begin

text \<open>
  What the theories of the development share: the types that stand for Go's strings and
  errors, the functions of Go's \<^verbatim>\<open>strings\<close> and \<^verbatim>\<open>fmt\<close> packages the program calls,
  and the lemma collections.

  A Go \<^verbatim>\<open>string\<close> and a Go \<^verbatim>\<open>[]byte\<close> are both a sequence of bytes, and both are HOL's
  \<open>string\<close> here: HOL's \<open>char\<close> is exactly a byte (\<open>of_char\<close> reads it as a number from 0
  to 255).
\<close>

section \<open>Lemma collections\<close>

named_theorems byte_simps \<open>equations that evaluate byte-level codecs\<close>
named_theorems run_simps \<open>equations that unfold one step of a program\<close>
named_theorems step_intros \<open>rules that build executions\<close>

section \<open>Lists\<close>

lemma takeWhile_append_stop:
  "\<forall>x\<in>set xs. P x \<Longrightarrow> \<not> P y \<Longrightarrow> takeWhile P (xs @ y # ys) = xs"
  by (induction xs) auto

lemma dropWhile_append_stop:
  "\<forall>x\<in>set xs. P x \<Longrightarrow> \<not> P y \<Longrightarrow> dropWhile P (xs @ y # ys) = y # ys"
  by (induction xs) auto

lemma takeWhile_index:
  assumes "distinct xs" "k < length xs"
  shows "length (takeWhile (\<lambda>d. d \<noteq> xs ! k) xs) = k"
proof -
  have d: "xs = take k xs @ xs ! k # drop (Suc k) xs"
    using assms(2) by (rule id_take_nth_drop)
  have "distinct (take k xs @ xs ! k # drop (Suc k) xs)"
    using assms(1) d by simp
  then have "\<forall>x\<in>set (take k xs). x \<noteq> xs ! k" by auto
  then have "takeWhile (\<lambda>x. x \<noteq> xs ! k) (take k xs @ xs ! k # drop (Suc k) xs) = take k xs"
    by (rule takeWhile_append_stop) simp
  then show ?thesis using d assms(2) by simp
qed

lemma concat_map_singleton [simp]: "concat (map (\<lambda>x. [f x]) xs) = map f xs"
  by (induction xs) auto

section \<open>Bytes\<close>

text \<open>\<open>byte c\<close> is the value of a byte, \<open>to_byte n\<close> the byte with value \<open>n mod 256\<close>.\<close>

definition byte :: "char \<Rightarrow> nat" where
  "byte c = of_char c"

definition to_byte :: "nat \<Rightarrow> char" where
  "to_byte n = char_of n"

lemma byte_less [simp]: "byte c < 256"
  unfolding byte_def by (metis mod_less_divisor of_char_of zero_less_numeral of_char_mod_256)

lemma byte_le [simp]: "byte c \<le> 255"
  using byte_less [of c] by linarith

lemma byte_inj [simp]: "byte c = byte d \<longleftrightarrow> c = d"
  unfolding byte_def by (metis char_of_char)

lemma to_byte_byte [simp]: "to_byte (byte c) = c"
  by (simp add: byte_def to_byte_def)

lemma byte_to_byte: "byte (to_byte n) = n mod 256"
  by (simp add: byte_def to_byte_def)

lemma byte_to_byte_small [simp]: "n < 256 \<Longrightarrow> byte (to_byte n) = n"
  by (simp add: byte_to_byte)

declare byte_def [byte_simps] to_byte_def [byte_simps] char_of_def [byte_simps] bit_Suc_0_iff [byte_simps]

text \<open>Big-endian value of a byte sequence.\<close>

fun be_value :: "nat \<Rightarrow> string \<Rightarrow> nat" where
  "be_value acc [] = acc"
| "be_value acc (b # bs) = be_value (256 * acc + byte b) bs"

lemma be_value_less: "be_value acc bs < (acc + 1) * 256 ^ length bs"
proof (induction bs arbitrary: acc)
  case (Cons b bs)
  have "be_value (256 * acc + byte b) bs < (256 * acc + byte b + 1) * 256 ^ length bs"
    by (rule Cons.IH)
  also have "\<dots> \<le> (256 * (acc + 1)) * 256 ^ length bs"
  proof (rule mult_right_mono)
    show "256 * acc + byte b + 1 \<le> 256 * (acc + 1)" using byte_less [of b] by simp
  qed simp
  finally show ?case by (simp add: algebra_simps)
qed simp

lemma be_value_ge: "acc * 256 ^ length bs \<le> be_value acc bs"
proof (induction bs arbitrary: acc)
  case (Cons b bs)
  have "acc * 256 ^ length (b # bs) \<le> (256 * acc + byte b) * 256 ^ length bs"
    by (simp add: algebra_simps)
  also have "\<dots> \<le> be_value (256 * acc + byte b) bs" by (rule Cons.IH)
  finally show ?case by simp
qed simp

lemma be_value_inj:
  "length xs = length ys \<Longrightarrow> be_value a xs = be_value b ys \<Longrightarrow> a = b \<and> xs = ys"
proof (induction xs ys arbitrary: a b rule: list_induct2)
  case (Cons x xs y ys)
  then have v: "256 * a + byte x = 256 * b + (byte y :: nat)" and "xs = ys" by simp_all
  have m: "(256 * c + byte z) div 256 = c" "(256 * c + byte z) mod 256 = byte z" for c z
    by simp_all
  from v have "a = b" "byte x = byte y" using m [of a x] m [of b y] by metis+
  with \<open>xs = ys\<close> show ?case by simp
qed simp

text \<open>\<^verbatim>\<open>binary.BigEndian.Uint32\<close> (\<^verbatim>\<open>None\<close> where it panics, on fewer than 4 bytes) and
  \<^verbatim>\<open>AppendUint32\<close>.\<close>

definition be32 :: "string \<Rightarrow> 32 word option" where
  "be32 b = (if length b < 4 then None else Some (of_nat (be_value 0 (take 4 b))))"

definition be32_bytes :: "32 word \<Rightarrow> string" where
  "be32_bytes w = (let n = unat w in
     [to_byte (n div 16777216), to_byte (n div 65536), to_byte (n div 256), to_byte n])"

lemma length_be32_bytes [simp]: "length (be32_bytes w) = 4"
  by (simp add: be32_bytes_def Let_def)

lemma be32_bytes_nested:
  "be32_bytes w = (let n0 = unat w; n1 = n0 div 256; n2 = n1 div 256; n3 = n2 div 256 in
     [to_byte n3, to_byte n2, to_byte n1, to_byte n0])"
  by (simp add: be32_bytes_def Let_def div_mult2_eq [symmetric])

lemma be32_be32_bytes [simp]: "be32 (be32_bytes w @ r) = Some w"
proof -
  define n1 n2 n3 where "n1 = unat w div 256" and "n2 = n1 div 256" and "n3 = n2 div 256"
  have "unat w < 2 ^ LENGTH(32)" by (rule unsigned_less)
  then have "n3 < 256" by (simp add: n1_def n2_def n3_def less_mult_imp_div_less)
  moreover have "256 * n3 + n2 mod 256 = n2" "256 * n2 + n1 mod 256 = n1"
    "256 * n1 + unat w mod 256 = unat w" by (simp_all add: n1_def n2_def n3_def)
  ultimately have "be_value 0 (be32_bytes w) = unat w"
    by (simp add: be32_bytes_nested Let_def byte_to_byte n1_def [symmetric] n2_def [symmetric] n3_def [symmetric])
  then show ?thesis by (simp add: be32_def)
qed

lemma byte_mix: "(256 * c + byte z) div 256 = c" "to_byte (256 * c + byte z) = z"
proof -
  have "byte (to_byte (256 * c + byte z)) = byte z" unfolding byte_to_byte by simp
  then show "to_byte (256 * c + byte z) = z" by simp
qed simp

lemma be32_split:
  assumes "be32 b = Some w"
  obtains r where "b = be32_bytes w @ r"
proof -
  from assms have l: "4 \<le> length b" and w: "w = of_nat (be_value 0 (take 4 b))"
    by (auto simp: be32_def split: if_splits)
  from l obtain c0 c1 c2 c3 r where b: "b = c0 # c1 # c2 # c3 # r"
    by (auto simp: numeral_eq_Suc Suc_le_length_iff)
  define v1 v2 v3 where "v1 = 256 * byte c0 + byte c1" and "v2 = 256 * v1 + byte c2" and "v3 = 256 * v2 + byte c3"
  have "take 4 b = [c0, c1, c2, c3]" by (simp add: b)
  then have v: "be_value 0 (take 4 b) = v3" by (simp add: v1_def v2_def v3_def)
  have "be_value 0 (take 4 b) < (0 + 1) * 256 ^ length (take 4 b)" by (rule be_value_less)
  then have "v3 < 2 ^ LENGTH(32)" using l by (simp add: v)
  then have u: "unat w = v3" unfolding w v by (simp add: unat_of_nat)
  have d: "v3 div 256 = v2" "v2 div 256 = v1" "v1 div 256 = byte c0"
    "to_byte v3 = c3" "to_byte v2 = c2" "to_byte v1 = c1"
    by (simp_all only: v1_def v2_def v3_def byte_mix)
  have "be32_bytes w = [c0, c1, c2, c3]"
    by (simp only: be32_bytes_nested Let_def u d to_byte_byte)
  then show ?thesis using that b by simp
qed

text \<open>Slice expressions of Go, \<^verbatim>\<open>None\<close> where they panic: \<^verbatim>\<open>b[i]\<close>, \<^verbatim>\<open>b[i:]\<close> and \<^verbatim>\<open>b[:i]\<close>.\<close>

definition at :: "string \<Rightarrow> nat \<Rightarrow> char option" where
  "at b i = (if i < length b then Some (b ! i) else None)"

definition slice_from :: "string \<Rightarrow> nat \<Rightarrow> string option" where
  "slice_from b i = (if i \<le> length b then Some (drop i b) else None)"

definition slice_to :: "string \<Rightarrow> nat \<Rightarrow> string option" where
  "slice_to b i = (if i \<le> length b then Some (take i b) else None)"

section \<open>Package strings\<close>

text \<open>\<^verbatim>\<open>strings.HasPrefix\<close>, \<^verbatim>\<open>strings.TrimPrefix\<close>.\<close>

fun has_prefix :: "string \<Rightarrow> string \<Rightarrow> bool" where
  "has_prefix s [] = True"
| "has_prefix [] (p # ps) = False"
| "has_prefix (c # cs) (p # ps) = (c = p \<and> has_prefix cs ps)"

definition trim_prefix :: "string \<Rightarrow> string \<Rightarrow> string" where
  "trim_prefix s p = (if has_prefix s p then drop (length p) s else s)"

lemma has_prefix_append [simp]: "has_prefix (p @ s) p"
  by (induction p) auto

lemma has_prefix_iff: "has_prefix s p \<longleftrightarrow> (\<exists>r. s = p @ r)"
  by (induction s p rule: has_prefix.induct) auto

text \<open>\<^verbatim>\<open>strings.Cut\<close> at a one-byte separator: what comes before it, what comes after
  it, and whether it was there.\<close>

definition cut :: "string \<Rightarrow> char \<Rightarrow> string \<times> string \<times> bool" where
  "cut s c = (takeWhile (\<lambda>x. x \<noteq> c) s, drop 1 (dropWhile (\<lambda>x. x \<noteq> c) s), c \<in> set s)"

text \<open>\<^verbatim>\<open>strings.Split\<close> at a one-byte separator: never empty.\<close>

fun split_on :: "char \<Rightarrow> string \<Rightarrow> string list" where
  "split_on c [] = [[]]"
| "split_on c (x # xs) =
     (if x = c then [] # split_on c xs
      else (case split_on c xs of [] \<Rightarrow> [[x]] | p # ps \<Rightarrow> (x # p) # ps))"

text \<open>\<^verbatim>\<open>strings.Join\<close>.\<close>

fun join :: "string \<Rightarrow> string list \<Rightarrow> string" where
  "join sep [] = []"
| "join sep [x] = x"
| "join sep (x # y # ys) = x @ sep @ join sep (y # ys)"

lemma split_on_not_Nil [simp]: "split_on c s \<noteq> []"
  by (cases s) (auto split: list.splits)

lemma split_on_none: "c \<notin> set s \<Longrightarrow> split_on c s = [s]"
  by (induction s) auto

lemma split_on_append: "c \<notin> set a \<Longrightarrow> split_on c (a @ c # s) = a # split_on c s"
  by (induction a) auto

lemma split_on_parts: "p \<in> set (split_on c s) \<Longrightarrow> c \<notin> set p"
  by (induction s arbitrary: p) (auto split: list.splits if_splits)

lemma join_split_on: "join [c] (split_on c s) = s"
  by (induction s) (auto split: list.splits simp: neq_Nil_conv elim: join.elims)

section \<open>Package fmt: decimal numbers\<close>

definition digit_char :: "nat \<Rightarrow> char" where
  "digit_char d = to_byte (48 + d)"

fun show_nat :: "nat \<Rightarrow> string" where
  "show_nat n = (if n < 10 then [digit_char n] else show_nat (n div 10) @ [digit_char (n mod 10)])"

declare show_nat.simps [simp del]

definition show_int :: "int \<Rightarrow> string" where
  "show_int i = (if i < 0 then CHR ''-'' # show_nat (nat (- i)) else show_nat (nat i))"

lemma show_nat_not_Nil [simp]: "show_nat n \<noteq> []"
  by (subst show_nat.simps) simp

text \<open>A fact about a number below a small bound, by evaluation at each.\<close>

lemma below_all: "n < k \<Longrightarrow> list_all P [0..<k] \<Longrightarrow> P n"
  by (simp add: list_all_iff)

lemma upt_16: "[0..<16] = [0, 1, 2, 3, 4, 5, 6, 7, 8, 9, 10, 11, 12, 13, 14, 15]"
  by code_simp

end
