(* ===== verification/Codecs.thy ===== *)
theory Codecs
  imports Prelude
begin

text \<open>
  The text encodings of Go's standard library the session cookie is made of: hexadecimal,
  base64 and percent encoding. The locales state what a client needs of an encoding (that
  decoding gives back what was encoded, that the text keeps to an alphabet); the encodings
  interpret them.
\<close>

section \<open>Interfaces\<close>

locale text_encoding =
  fixes enc :: "string \<Rightarrow> string" and alphabet :: "char set"
  assumes enc_alphabet: "set (enc x) \<subseteq> alphabet"
begin

lemma split_enc: "c \<notin> alphabet \<Longrightarrow> split_on c (enc x @ c # r) = enc x # split_on c r"
  using enc_alphabet by (intro split_on_append) blast

lemma split_enc_last: "c \<notin> alphabet \<Longrightarrow> split_on c (enc x) = [enc x]"
  using enc_alphabet by (intro split_on_none) blast

end

locale codec =
  fixes enc :: "'a \<Rightarrow> 'b" and dec :: "'b \<Rightarrow> 'a option" and valid :: "'a \<Rightarrow> bool"
  assumes dec_enc: "valid x \<Longrightarrow> dec (enc x) = Some x"
begin

lemma enc_eq_iff: "valid x \<Longrightarrow> valid y \<Longrightarrow> enc x = enc y \<longleftrightarrow> x = y"
  by (metis dec_enc option.inject)

end

locale text_codec = text_encoding enc alphabet + codec enc dec "\<lambda>_. True"
  for enc :: "string \<Rightarrow> string" and alphabet :: "char set" and dec :: "string \<Rightarrow> string option"

section \<open>encoding/hex\<close>

definition hex_alphabet :: string where
  "hex_alphabet = ''0123456789abcdef''"

definition hex_digit :: "nat \<Rightarrow> char" where
  "hex_digit n = hex_alphabet ! n"

text \<open>\<^verbatim>\<open>hex.EncodeToString\<close>.\<close>

fun hex_encode :: "string \<Rightarrow> string" where
  "hex_encode [] = []"
| "hex_encode (b # bs) = hex_digit (byte b div 16) # hex_digit (byte b mod 16) # hex_encode bs"

text \<open>A hexadecimal digit's value, either case.\<close>

definition hex_val :: "char \<Rightarrow> nat option" where
  "hex_val c = (let n = byte c in
     if 48 \<le> n \<and> n \<le> 57 then Some (n - 48)
     else if 97 \<le> n \<and> n \<le> 102 then Some (n - 87)
     else if 65 \<le> n \<and> n \<le> 70 then Some (n - 55)
     else None)"

lemma hex_digit_in: "n < 16 \<Longrightarrow> hex_digit n \<in> set hex_alphabet"
  unfolding hex_digit_def by (rule nth_mem) (simp add: hex_alphabet_def)

lemma nibbles: "byte b div 16 < 16" "byte b mod 16 < 16"
  using byte_less [of b] by linarith+

interpretation hex: text_encoding hex_encode "set hex_alphabet"
proof
  show "set (hex_encode x) \<subseteq> set hex_alphabet" for x
    by (induction x) (simp_all add: hex_digit_in nibbles)
qed

section \<open>encoding/base64, StdEncoding\<close>

definition b64_alphabet :: string where
  "b64_alphabet = ''ABCDEFGHIJKLMNOPQRSTUVWXYZabcdefghijklmnopqrstuvwxyz0123456789+/''"

definition b64_char :: "nat \<Rightarrow> char" where
  "b64_char n = b64_alphabet ! n"

definition b64_val :: "char \<Rightarrow> nat option" where
  "b64_val c = (if c \<in> set b64_alphabet then Some (length (takeWhile (\<lambda>d. d \<noteq> c) b64_alphabet)) else None)"

definition pad :: char where
  "pad = CHR ''=''"

text \<open>\<^verbatim>\<open>EncodeToString\<close>: three bytes to four characters, the last group padded.\<close>

fun b64_encode :: "string \<Rightarrow> string" where
  "b64_encode [] = []"
| "b64_encode [a] = [b64_char (byte a div 4), b64_char (byte a mod 4 * 16), pad, pad]"
| "b64_encode [a, b] =
     [b64_char (byte a div 4), b64_char (byte a mod 4 * 16 + byte b div 16), b64_char (byte b mod 16 * 4), pad]"
| "b64_encode (a # b # c # r) =
     b64_char (byte a div 4) # b64_char (byte a mod 4 * 16 + byte b div 16) #
     b64_char (byte b mod 16 * 4 + byte c div 64) # b64_char (byte c mod 64) # b64_encode r"

text \<open>
  \<^verbatim>\<open>DecodeString\<close>: carriage returns and newlines are skipped; then groups of four, of which
  only the last may be padded. The bits of a padded group that make no whole byte are not
  looked at (the encoding is not \<^verbatim>\<open>Strict\<close>).
\<close>

fun b64_groups :: "string \<Rightarrow> string option" where
  "b64_groups [] = Some []"
| "b64_groups (a # b # c # d # r) =
     (case (b64_val a, b64_val b) of
        (Some va, Some vb) \<Rightarrow>
          (if c = pad then
             (if d = pad \<and> r = [] then Some [to_byte (va * 4 + vb div 16)] else None)
           else (case b64_val c of
               None \<Rightarrow> None
             | Some vc \<Rightarrow>
                 if d = pad then
                   (if r = [] then Some [to_byte (va * 4 + vb div 16), to_byte (vb * 16 + vc div 4)] else None)
                 else (case b64_val d of
                     None \<Rightarrow> None
                   | Some vd \<Rightarrow> (case b64_groups r of
                         None \<Rightarrow> None
                       | Some bs \<Rightarrow>
                           Some (to_byte (va * 4 + vb div 16) # to_byte (vb * 16 + vc div 4) # to_byte (vc * 64 + vd) # bs)))))
      | _ \<Rightarrow> None)"
| "b64_groups _ = None"

definition b64_decode :: "string \<Rightarrow> string option" where
  "b64_decode s = b64_groups (filter (\<lambda>c. c \<noteq> CHR 0x0D \<and> c \<noteq> CHR 0x0A) s)"

lemma length_b64_alphabet [simp]: "length b64_alphabet = 64"
  by (simp add: b64_alphabet_def)

lemma distinct_b64: "distinct b64_alphabet"
  by (simp add: b64_alphabet_def)

lemma b64_char_in: "n < 64 \<Longrightarrow> b64_char n \<in> set b64_alphabet"
  unfolding b64_char_def by (rule nth_mem) simp

lemma b64_val_char [simp]: "n < 64 \<Longrightarrow> b64_val (b64_char n) = Some n"
  using takeWhile_index [OF distinct_b64, of n] b64_char_in [of n]
  by (simp add: b64_val_def b64_char_def)

lemma pad_not_in: "pad \<notin> set b64_alphabet"
  by (simp add: pad_def b64_alphabet_def)

lemma b64_char_not_pad [simp]: "n < 64 \<Longrightarrow> b64_char n \<noteq> pad"
  using b64_char_in [of n] pad_not_in by metis

text \<open>The bit fields put together again.\<close>

lemma to_byte_eqI: "n mod 256 = byte b \<Longrightarrow> to_byte n = b"
  by (metis byte_to_byte byte_inj)

lemma quarter: "y < 4 \<Longrightarrow> (x * 4 + y) div 4 = x" for x y :: nat
  by simp

lemma sixteenth: "y < 16 \<Longrightarrow> (x * 16 + y) div 16 = x" for x y :: nat
  by simp

lemma low_byte: "byte b = q * 16 + r \<Longrightarrow> to_byte ((x * 16 + q) * 16 + r) = b"
proof (rule to_byte_eqI)
  assume "byte b = q * 16 + r"
  then have "(x * 16 + q) * 16 + r = 256 * x + byte b" by simp
  moreover have "(256 * x + byte b) mod 256 = byte b" by simp
  ultimately show "((x * 16 + q) * 16 + r) mod 256 = byte b" by (simp only:)
qed

lemma regroup:
  "to_byte (byte a div 4 * 4 + (byte a mod 4 * 16 + byte b div 16) div 16) = a"
  "to_byte (byte a div 4 * 4 + (byte a mod 4 * 16) div 16) = a"
  "to_byte ((byte a mod 4 * 16 + byte b div 16) * 16 + (byte b mod 16 * 4 + byte c div 64) div 4) = b"
  "to_byte ((byte a mod 4 * 16 + byte b div 16) * 16 + (byte b mod 16 * 4) div 4) = b"
  "to_byte ((byte b mod 16 * 4 + byte c div 64) * 64 + byte c mod 64) = c"
proof -
  have "(byte a mod 4 * 16 + byte b div 16) div 16 = byte a mod 4"
    using byte_less [of b] by (intro sixteenth) linarith
  then show "to_byte (byte a div 4 * 4 + (byte a mod 4 * 16 + byte b div 16) div 16) = a" by simp
  show "to_byte (byte a div 4 * 4 + (byte a mod 4 * 16) div 16) = a" by simp
  have q: "(byte b mod 16 * 4 + byte c div 64) div 4 = byte b mod 16"
    using byte_less [of c] by (intro quarter) linarith
  show "to_byte ((byte a mod 4 * 16 + byte b div 16) * 16 + (byte b mod 16 * 4 + byte c div 64) div 4) = b"
    unfolding q by (rule low_byte) simp
  show "to_byte ((byte a mod 4 * 16 + byte b div 16) * 16 + (byte b mod 16 * 4) div 4) = b"
    by (simp only: nonzero_mult_div_cancel_right [of 4] numeral_neq_zero not_False_eq_True simp_thms) (rule low_byte, simp)
  have "(byte b mod 16 * 4 + byte c div 64) * 64 + byte c mod 64 = 256 * (byte b mod 16) + byte c"
    by (simp add: distrib_right mult.assoc)
  then show "to_byte ((byte b mod 16 * 4 + byte c div 64) * 64 + byte c mod 64) = c"
    by (simp add: to_byte_eqI)
qed

lemma b64_groups_quad:
  assumes "va < 64" "vb < 64" "vc < 64" "vd < 64" "b64_groups r = Some bs"
  shows "b64_groups (b64_char va # b64_char vb # b64_char vc # b64_char vd # r) =
    Some (to_byte (va * 4 + vb div 16) # to_byte (vb * 16 + vc div 4) # to_byte (vc * 64 + vd) # bs)"
  using assms by simp

lemma b64_groups_padded:
  assumes "va < 64" "vb < 64" "vc < 64"
  shows "b64_groups [b64_char va, b64_char vb, pad, pad] = Some [to_byte (va * 4 + vb div 16)]"
    and "b64_groups [b64_char va, b64_char vb, b64_char vc, pad] =
      Some [to_byte (va * 4 + vb div 16), to_byte (vb * 16 + vc div 4)]"
  using assms by simp_all

lemma fields:
  "byte a div 4 < 64" "byte a mod 4 * 16 + byte b div 16 < 64" "byte a mod 4 * 16 < 64"
  "byte b mod 16 * 4 + byte c div 64 < 64" "byte b mod 16 * 4 < 64" "byte c mod 64 < 64"
  using byte_less [of a] byte_less [of b] byte_less [of c] by linarith+

lemma b64_encode_chars: "set (b64_encode s) \<subseteq> insert pad (set b64_alphabet)"
  by (induction s rule: b64_encode.induct) (auto simp: b64_char_in fields)

lemma b64_groups_encode: "b64_groups (b64_encode s) = Some s"
proof (induction s rule: b64_encode.induct)
  case (4 a b c r)
  show ?case
    unfolding b64_encode.simps using b64_groups_quad [OF fields(1,2,4,6) 4] by (simp only: regroup)
next
  case (2 a)
  show ?case
    unfolding b64_encode.simps using b64_groups_padded(1) [OF fields(1,3,6)] by (simp only: regroup)
next
  case (3 a b)
  show ?case
    unfolding b64_encode.simps using b64_groups_padded(2) [OF fields(1,2,5)] by (simp only: regroup)
qed simp

interpretation b64: text_codec b64_encode "insert pad (set b64_alphabet)" b64_decode
proof
  show "set (b64_encode x) \<subseteq> insert pad (set b64_alphabet)" for x
    by (rule b64_encode_chars)
  show "b64_decode (b64_encode x) = Some x" for x
  proof -
    have "CHR 0x0D \<notin> insert pad (set b64_alphabet)" "CHR 0x0A \<notin> insert pad (set b64_alphabet)"
      by (simp_all add: pad_def b64_alphabet_def)
    then have "\<forall>c\<in>set (b64_encode x). c \<noteq> CHR 0x0D \<and> c \<noteq> CHR 0x0A"
      using b64_encode_chars [of x] by blast
    then show ?thesis by (simp add: b64_decode_def filter_id_conv [THEN iffD2] b64_groups_encode)
  qed
qed

section \<open>Percent encoding of net/url\<close>

definition unreserved :: "char \<Rightarrow> bool" where
  "unreserved c = (let n = byte c in
     48 \<le> n \<and> n \<le> 57 \<or> 65 \<le> n \<and> n \<le> 90 \<or> 97 \<le> n \<and> n \<le> 122 \<or>
     c = CHR ''-'' \<or> c = CHR ''_'' \<or> c = CHR ''.'' \<or> c = CHR ''~'')"

definition hex_upper :: "nat \<Rightarrow> char" where
  "hex_upper n = ''0123456789ABCDEF'' ! n"

text \<open>\<^verbatim>\<open>url.QueryEscape\<close>: a space becomes a plus sign.\<close>

fun query_escape :: "string \<Rightarrow> string" where
  "query_escape [] = []"
| "query_escape (c # s) =
     (if unreserved c then [c]
      else if c = CHR '' '' then ''+''
      else [CHR ''%'', hex_upper (byte c div 16), hex_upper (byte c mod 16)]) @ query_escape s"

text \<open>\<^verbatim>\<open>url.PathUnescape\<close>: a plus sign stays what it is; a bad escape is an error.\<close>

fun path_unescape :: "string \<Rightarrow> string option" where
  "path_unescape [] = Some []"
| "path_unescape (c # s) =
     (if c \<noteq> CHR ''%'' then map_option (\<lambda>r. c # r) (path_unescape s)
      else (case s of
          a # b # r \<Rightarrow>
            (case (hex_val a, hex_val b) of
               (Some va, Some vb) \<Rightarrow> map_option (\<lambda>t. to_byte (16 * va + vb) # t) (path_unescape r)
             | _ \<Rightarrow> None)
        | _ \<Rightarrow> None))"

lemma hex_val_upper: "n < 16 \<Longrightarrow> hex_val (hex_upper n) = Some n"
  by (erule below_all) (simp add: upt_16 hex_val_def hex_upper_def Let_def byte_simps)

lemma unreserved_not_percent: "unreserved c \<Longrightarrow> c \<noteq> CHR ''%''"
  by (auto simp: unreserved_def byte_simps)

interpretation percent: codec query_escape path_unescape "\<lambda>s. CHR '' '' \<notin> set s"
proof
  show "path_unescape (query_escape x) = Some x" if "CHR '' '' \<notin> set x" for x
    using that by (induction x) (auto simp: unreserved_not_percent hex_val_upper nibbles)
qed

end
