(* ===== verification/Ids.thy ===== *)
theory Ids
  imports Codecs
begin

text \<open>
  Package \<^verbatim>\<open>internal/ids\<close>: the base-62 identifiers of connections and streams.
  \<open>from_hex\<close> is \<^verbatim>\<open>FromHex\<close>, \<open>new_id\<close> is \<^verbatim>\<open>New\<close> on the 16 bytes \<^verbatim>\<open>crypto/rand\<close> gave it.
  The lemmas show that \<open>from_hex\<close> is the change of base it means to be (the digits read
  back in base 62 give the number), that an id has no leading zero and at most 22
  characters, and that different random bytes give different ids.
\<close>

section \<open>Hexadecimal numbers: math/big\<close>

text \<open>\<^verbatim>\<open>strings.ToUpper\<close> on ASCII text.\<close>

definition to_upper :: "char \<Rightarrow> char" where
  "to_upper c = (if 97 \<le> byte c \<and> byte c \<le> 122 then to_byte (byte c - 32) else c)"

fun hex_number :: "nat \<Rightarrow> string \<Rightarrow> nat option" where
  "hex_number acc [] = Some acc"
| "hex_number acc (c # cs) =
     (case hex_val c of None \<Rightarrow> None | Some d \<Rightarrow> hex_number (16 * acc + d) cs)"

definition hex_digits :: "string \<Rightarrow> nat option" where
  "hex_digits s = (if s = [] then None else hex_number 0 s)"

text \<open>
  \<^verbatim>\<open>big.Int.SetString(h, 16)\<close>: an optional sign and at least one digit, nothing else.
\<close>

definition set_string16 :: "string \<Rightarrow> int option" where
  "set_string16 h = (case h of
       [] \<Rightarrow> None
     | c # cs \<Rightarrow>
         if c = CHR ''-'' then map_option (\<lambda>n. - int n) (hex_digits cs)
         else if c = CHR ''+'' then map_option int (hex_digits cs)
         else map_option int (hex_digits h))"

section \<open>FromHex and New\<close>

definition digits :: string where
  "digits = ''0123456789ABCDEFGHIJKLMNOPQRSTUVWXYZabcdefghijklmnopqrstuvwxyz''"

text \<open>\<^verbatim>\<open>for n.Sign() > 0\<close>: the digits, last one first.\<close>

function base62_loop :: "int \<Rightarrow> string \<Rightarrow> string" where
  "base62_loop n out =
     (if n > 0 then base62_loop (n div 62) (out @ [digits ! nat (n mod 62)]) else out)"
  by pat_completeness auto
termination
  by (relation "measure (\<lambda>(n, out). nat n)") auto

declare base62_loop.simps [simp del]

text \<open>
  The swap loop that reverses \<^verbatim>\<open>out\<close> in place. The code starts it at \<^verbatim>\<open>len(out)-1\<close>; on an
  empty \<^verbatim>\<open>out\<close> (a negative number) that is -1 there and 0 here, and the loop is not
  entered either way.
\<close>

function reverse_loop :: "string \<Rightarrow> nat \<Rightarrow> nat \<Rightarrow> string" where
  "reverse_loop out i j =
     (if i < j then reverse_loop (out[i := out ! j, j := out ! i]) (i + 1) (j - 1) else out)"
  by pat_completeness auto
termination
  by (relation "measure (\<lambda>(out, i, j). j - i)") auto

declare reverse_loop.simps [simp del]

definition from_hex :: "string \<Rightarrow> string" where
  "from_hex h =
     (let h' = trim_prefix (trim_prefix h ''0x'') ''0X'' in
      case set_string16 h' of
        None \<Rightarrow> ''0''
      | Some n \<Rightarrow>
          if n = 0 then ''0''
          else (let out = base62_loop n [] in reverse_loop out 0 (length out - 1)))"

definition new_id :: "string \<Rightarrow> string" where
  "new_id b = from_hex (map to_upper (hex_encode b))"

section \<open>The loops\<close>

text \<open>What the digits stand for, most significant first.\<close>

fun base62_value :: "nat \<Rightarrow> string \<Rightarrow> nat option" where
  "base62_value acc [] = Some acc"
| "base62_value acc (c # cs) =
     (if c \<in> set digits then base62_value (62 * acc + length (takeWhile (\<lambda>d. d \<noteq> c) digits)) cs else None)"

lemma length_digits [simp]: "length digits = 62"
  by (simp add: digits_def)

lemma distinct_digits: "distinct digits"
  by (simp add: digits_def)

lemma digits_index: "k < 62 \<Longrightarrow> length (takeWhile (\<lambda>d. d \<noteq> digits ! k) digits) = k"
  by (rule takeWhile_index [OF distinct_digits]) simp

text \<open>The digits of a number, most significant first, as one recursion.\<close>

fun base62 :: "nat \<Rightarrow> string" where
  "base62 n = (if n = 0 then [] else base62 (n div 62) @ [digits ! (n mod 62)])"

declare base62.simps [simp del]

lemma base62_loop_eq: "base62_loop (int n) out = out @ rev (base62 n)"
proof (induction n arbitrary: out rule: base62.induct)
  case (1 n)
  have d: "int n div 62 = int (n div 62)" "nat (int n mod 62) = n mod 62"
    by (simp_all add: zdiv_int nat_mod_distrib)
  show ?case
  proof (cases "n = 0")
    case True
    then show ?thesis by (simp add: base62_loop.simps [of 0] base62.simps [of 0])
  next
    case False
    then have "base62_loop (int n) out = base62_loop (int (n div 62)) (out @ [digits ! (n mod 62)])"
      by (subst base62_loop.simps) (simp only: d, simp)
    also have "\<dots> = (out @ [digits ! (n mod 62)]) @ rev (base62 (n div 62))"
      using False by (rule "1.IH")
    finally show ?thesis using False by (simp add: base62.simps [of n])
  qed
qed

lemma reverse_loop_length [simp]: "length (reverse_loop out i j) = length out"
  by (induction out i j rule: reverse_loop.induct) (subst reverse_loop.simps, simp)

lemma reverse_loop_nth:
  "j < length out \<Longrightarrow> k < length out \<Longrightarrow>
    reverse_loop out i j ! k = (if i \<le> k \<and> k \<le> j then out ! (i + j - k) else out ! k)"
proof (induction out i j rule: reverse_loop.induct)
  case (1 out i j)
  show ?case
  proof (cases "i < j")
    case True
    let ?o = "out[i := out ! j, j := out ! i]"
    have "reverse_loop ?o (i + 1) (j - 1) ! k =
        (if i + 1 \<le> k \<and> k \<le> j - 1 then ?o ! (i + 1 + (j - 1) - k) else ?o ! k)"
      using "1.prems" True by (intro "1.IH") auto
    moreover have "i + 1 + (j - 1) - k = i + j - k" using True by simp
    moreover have "reverse_loop out i j = reverse_loop ?o (i + 1) (j - 1)"
      using True by (simp add: reverse_loop.simps [of out i j])
    ultimately show ?thesis using True "1.prems" by (auto simp: nth_list_update)
  next
    case False
    have "i + j - k = k" if "i \<le> k" "k \<le> j" using False that by linarith
    then show ?thesis using False by (auto simp: reverse_loop.simps [of out i j])
  qed
qed

lemma reverse_loop_rev: "reverse_loop out 0 (length out - 1) = rev out"
proof (cases "out = []")
  case True
  then show ?thesis by (simp add: reverse_loop.simps)
next
  case False
  then have n: "0 < length out" by simp
  show ?thesis
  proof (rule nth_equalityI)
    fix k assume "k < length (reverse_loop out 0 (length out - 1))"
    with n show "reverse_loop out 0 (length out - 1) ! k = rev out ! k"
      by (simp add: reverse_loop_nth rev_nth) linarith
  qed simp
qed

lemma from_hex_base62:
  assumes "set_string16 (trim_prefix (trim_prefix h ''0x'') ''0X'') = Some (int n)" "0 < n"
  shows "from_hex h = base62 n"
  using assms by (simp add: from_hex_def Let_def base62_loop_eq reverse_loop_rev del: One_nat_def)

section \<open>The value of an id\<close>

lemma base62_value_append:
  "base62_value acc (s @ t) =
     (case base62_value acc s of None \<Rightarrow> None | Some a \<Rightarrow> base62_value a t)"
  by (induction acc s rule: base62_value.induct) auto

lemma base62_value_base62: "base62_value 0 (base62 n) = Some n"
proof (induction n rule: base62.induct)
  case (1 n)
  show ?case
  proof (cases "n = 0")
    case True
    then show ?thesis by (simp add: base62.simps)
  next
    case False
    then have "base62_value 0 (base62 (n div 62)) = Some (n div 62)" by (rule "1.IH")
    moreover have "digits ! (n mod 62) \<in> set digits" by (rule nth_mem) simp
    ultimately show ?thesis
      using False
      by (simp add: base62.simps [of n] base62_value_append digits_index)
  qed
qed

lemma base62_value_from_hex:
  assumes "set_string16 (trim_prefix (trim_prefix h ''0x'') ''0X'') = Some (int n)"
  shows "base62_value 0 (from_hex h) = Some n"
proof (cases "n = 0")
  case True
  then show ?thesis using assms by (simp add: from_hex_def Let_def digits_def)
next
  case False
  then show ?thesis using from_hex_base62 [OF assms] by (simp add: base62_value_base62)
qed

lemma set_base62: "set (base62 n) \<subseteq> set digits"
proof (induction n rule: base62.induct)
  case (1 n)
  have "digits ! (n mod 62) \<in> set digits" by (rule nth_mem) simp
  then show ?case using 1 by (cases "n = 0") (simp_all add: base62.simps [of n] base62.simps [of 0])
qed

lemma hd_base62: "0 < n \<Longrightarrow> base62 n \<noteq> [] \<and> hd (base62 n) \<noteq> CHR ''0''"
proof (induction n rule: base62.induct)
  case (1 n)
  show ?case
  proof (cases "n div 62 = 0")
    case True
    then have "base62 n = [digits ! n]" using 1 by (simp add: base62.simps [of n] base62.simps [of 0])
    moreover have "digits ! n \<noteq> digits ! 0"
      using True 1 nth_eq_iff_index_eq [OF distinct_digits, of n 0] by simp
    ultimately show ?thesis by (simp add: digits_def)
  next
    case False
    then show ?thesis using 1 by (simp add: base62.simps [of n])
  qed
qed

lemma length_base62: "n < 62 ^ k \<Longrightarrow> length (base62 n) \<le> k"
proof (induction k arbitrary: n)
  case 0
  then show ?case by (simp add: base62.simps)
next
  case (Suc k)
  then have "length (base62 (n div 62)) \<le> k" by (intro Suc.IH) (simp add: div_less_iff_less_mult mult.commute)
  then show ?case by (simp add: base62.simps [of n])
qed

section \<open>Hexadecimal text and its number\<close>

lemma hex_val_upper_digit: "d < 16 \<Longrightarrow> hex_val (to_upper (hex_digit d)) = Some d"
  by (erule below_all) (simp add: upt_16 hex_val_def to_upper_def hex_digit_def hex_alphabet_def Let_def byte_simps)

lemma hex_number_encode: "hex_number acc (map to_upper (hex_encode bs)) = Some (be_value acc bs)"
proof (induction bs arbitrary: acc)
  case (Cons b bs)
  have "byte b div 16 < 16" using byte_less [of b] by linarith
  moreover have "16 * (16 * acc + byte b div 16) + byte b mod 16 = 256 * acc + byte b"
    by simp
  ultimately show ?case using Cons by (simp add: hex_val_upper_digit del: distrib_left_numeral)
qed simp

section \<open>Properties\<close>

text \<open>The text \<^verbatim>\<open>New\<close> hands to \<^verbatim>\<open>FromHex\<close> is upper-case hexadecimal: no sign and no 0x prefix.\<close>

lemma upper_hex_digit:
  "d < 16 \<Longrightarrow> to_upper (hex_digit d) \<notin> {CHR ''-'', CHR ''+'', CHR ''x'', CHR ''X''}"
  by (erule below_all) (simp add: upt_16 to_upper_def hex_digit_def hex_alphabet_def byte_simps)

lemma upper_hex_chars:
  "set (map to_upper (hex_encode bs)) \<inter> {CHR ''-'', CHR ''+'', CHR ''x'', CHR ''X''} = {}"
proof (induction bs)
  case (Cons b bs)
  have "byte b div 16 < 16" "byte b mod 16 < 16" using byte_less [of b] by linarith+
  then show ?case using Cons upper_hex_digit [of "byte b div 16"] upper_hex_digit [of "byte b mod 16"]
    by auto
qed simp

lemma trim_prefix_absent: "c \<in> set p \<Longrightarrow> c \<notin> set s \<Longrightarrow> trim_prefix s p = s"
  by (auto simp: trim_prefix_def has_prefix_iff)

lemma new_id_value:
  assumes "b \<noteq> []"
  shows "base62_value 0 (new_id b) = Some (be_value 0 b)"
    and "0 < be_value 0 b \<Longrightarrow> new_id b = base62 (be_value 0 b)"
    and "be_value 0 b = 0 \<Longrightarrow> new_id b = ''0''"
proof -
  let ?h = "map to_upper (hex_encode b)"
  have t: "trim_prefix (trim_prefix ?h ''0x'') ''0X'' = ?h"
  proof -
    have "CHR ''x'' \<notin> set ?h" "CHR ''X'' \<notin> set ?h" using upper_hex_chars [of b] by blast+
    then show ?thesis
      using trim_prefix_absent [of "CHR ''x''" "''0x''" ?h] trim_prefix_absent [of "CHR ''X''" "''0X''" ?h]
      by simp
  qed
  obtain c cs where h: "?h = c # cs" using assms by (cases b) auto
  have "c \<notin> {CHR ''-'', CHR ''+''}" using upper_hex_chars [of b] unfolding h by auto
  then have s: "set_string16 ?h = Some (int (be_value 0 b))"
    using hex_number_encode [of 0 b] unfolding h by (simp add: set_string16_def hex_digits_def)
  show "base62_value 0 (new_id b) = Some (be_value 0 b)"
    unfolding new_id_def by (rule base62_value_from_hex) (simp add: t s)
  show "new_id b = base62 (be_value 0 b)" if "0 < be_value 0 b"
    unfolding new_id_def using that by (intro from_hex_base62) (simp_all add: t s)
  show "new_id b = ''0''" if "be_value 0 b = 0"
    unfolding new_id_def using that t s by (simp add: from_hex_def Let_def)
qed

text \<open>
  C16. Ids made from different random bytes differ, and an id made from 16 bytes has 1 to 22
  characters, all of them digits of the base-62 alphabet, with no leading zero unless it is
  the id 0.
\<close>

theorem new_id_unique_and_short:
  assumes "length a = 16" "length b = 16"
  shows "(new_id a = new_id b \<longleftrightarrow> a = b) \<and>
    1 \<le> length (new_id a) \<and> length (new_id a) \<le> 22 \<and> set (new_id a) \<subseteq> set digits \<and>
    (hd (new_id a) = CHR ''0'' \<longrightarrow> new_id a = ''0'')"
proof -
  have ne: "a \<noteq> []" "b \<noteq> []" using assms by auto
  have "new_id a = new_id b \<Longrightarrow> be_value 0 a = be_value 0 b"
    using new_id_value(1) [OF ne(1)] new_id_value(1) [OF ne(2)] by simp
  then have inj: "new_id a = new_id b \<longleftrightarrow> a = b"
    using be_value_inj [of a b 0 0] assms by auto
  have "be_value 0 a < 256 ^ 16" using be_value_less [of 0 a] assms by simp
  then have len: "length (base62 (be_value 0 a)) \<le> 22" by (intro length_base62) simp
  show ?thesis
  proof (cases "be_value 0 a = 0")
    case True
    then show ?thesis using inj new_id_value(3) [OF ne(1)] by (simp add: digits_def)
  next
    case False
    then have n: "new_id a = base62 (be_value 0 a)" using new_id_value(2) [OF ne(1)] by simp
    show ?thesis using inj len hd_base62 [of "be_value 0 a"] set_base62 [of "be_value 0 a"] False
      unfolding n by (simp add: Suc_le_eq)
  qed
qed

theorem new_id_unique_and_short_witness:
  "new_id (replicate 16 (CHR 0x00)) \<noteq> new_id (replicate 16 (CHR 0xFF)) \<and>
   length (new_id (replicate 16 (CHR 0xFF))) \<le> 22"
proof -
  have "replicate 16 (CHR 0xFF) \<noteq> replicate 16 (CHR 0x00)" by simp
  then show ?thesis
    using new_id_unique_and_short [of "replicate 16 (CHR 0xFF)" "replicate 16 (CHR 0x00)"] by auto
qed

end
