(* ===== verification/Storable.thy ===== *)
theory Storable
  imports Prelude
begin

text \<open>
  Package \<^verbatim>\<open>internal/storable\<close>: the reader of Perl's Storable format, on untrusted bytes (the
  session cookie). Every slice and index expression of the code can panic; the model gives
  those the error \<open>Panic\<close>, next to the code's own \<^verbatim>\<open>errFormat\<close>, so that the absence of
  panics is a theorem. \<open>frozen\<close> describes the accepted language; the lemmas show that the
  reader accepts exactly that language and returns its contents.
\<close>

section \<open>The reader\<close>

datatype storable_error = ErrFormat | Panic

text \<open>A slice expression whose bounds Go checks at run time.\<close>

fun checked :: "'a option \<Rightarrow> ('a \<Rightarrow> storable_error + 'b) \<Rightarrow> storable_error + 'b" where
  "checked None k = Inl Panic"
| "checked (Some x) k = k x"

definition sxLScalar :: nat where "sxLScalar = 1"
definition sxHash :: nat where "sxHash = 3"
definition sxScalar :: nat where "sxScalar = 10"
definition sxUTF8Str :: nat where "sxUTF8Str = 23"
definition sxLUTF8Str :: nat where "sxLUTF8Str = 24"

lemmas sx_defs = sxLScalar_def sxHash_def sxScalar_def sxUTF8Str_def sxLUTF8Str_def

text \<open>The length field after an opcode, and the bytes after it.\<close>

definition read_length :: "nat \<Rightarrow> string \<Rightarrow> storable_error + 64 word \<times> string" where
  "read_length op b =
     (if op = sxScalar \<or> op = sxUTF8Str then
        if length b < 1 then Inl ErrFormat
        else checked (at b 0) (\<lambda>c. checked (slice_from b 1) (\<lambda>b. Inr (of_nat (byte c), b)))
      else if op = sxLScalar \<or> op = sxLUTF8Str then
        if length b < 4 then Inl ErrFormat
        else checked (be32 b) (\<lambda>w. checked (slice_from b 4) (\<lambda>b. Inr (ucast w, b)))
      else Inl ErrFormat)"

definition readString :: "string \<Rightarrow> storable_error + string \<times> string" where
  "readString b =
     (if length b < 1 then Inl ErrFormat
      else checked (at b 0) (\<lambda>op. checked (slice_from b 1) (\<lambda>b.
        case read_length (byte op) b of
          Inl e \<Rightarrow> Inl e
        | Inr (l, b) \<Rightarrow>
            if l > of_nat (length b) then Inl ErrFormat
            else checked (slice_to b (unat l)) (\<lambda>s. checked (slice_from b (unat l)) (\<lambda>b. Inr (s, b))))))"

text \<open>The loop \<^verbatim>\<open>for i := uint32(0); i < n; i++\<close>, with \<^verbatim>\<open>n - i\<close> rounds left.\<close>

fun read_entries :: "nat \<Rightarrow> string \<Rightarrow> (string \<rightharpoonup> string) \<Rightarrow> storable_error + (string \<rightharpoonup> string) \<times> string" where
  "read_entries 0 b out = Inr (out, b)"
| "read_entries (Suc k) b out =
     (case readString b of
        Inl e \<Rightarrow> Inl e
      | Inr (v, b) \<Rightarrow>
          if length b < 4 then Inl ErrFormat
          else checked (be32 b) (\<lambda>kl. checked (slice_from b 4) (\<lambda>b.
            if (ucast kl :: 64 word) > of_nat (length b) then Inl ErrFormat
            else checked (slice_to b (unat kl)) (\<lambda>key. checked (slice_from b (unat kl)) (\<lambda>b.
              read_entries k b (out(key \<mapsto> v)))))))"

definition DecodeHash :: "string \<Rightarrow> storable_error + (string \<rightharpoonup> string)" where
  "DecodeHash b =
     (if length b < 2 then Inl ErrFormat
      else checked (at b 0) (\<lambda>h.
        if byte h \<noteq> 2 * 2 + 1 then Inl ErrFormat
        else checked (slice_from b 2) (\<lambda>b.
          if length b < 5 then Inl ErrFormat
          else checked (at b 0) (\<lambda>op.
            if byte op \<noteq> sxHash then Inl ErrFormat
            else checked (slice_from b 1) (\<lambda>b1. checked (be32 b1) (\<lambda>n. checked (slice_from b 5) (\<lambda>b.
              if (ucast n :: 64 word) * 6 > of_nat (length b) then Inl ErrFormat
              else (case read_entries (unat n) b Map.empty of
                      Inl e \<Rightarrow> Inl e
                    | Inr (out, b) \<Rightarrow> if length b \<noteq> 0 then Inl ErrFormat else Inr out))))))))"

section \<open>Length comparisons\<close>

text \<open>
  Go compares lengths as \<^verbatim>\<open>uint64\<close>. A length that fits is compared as the number it is; one
  that does not would only be refused more often.
\<close>

lemma word_le_length: "\<not> (l > of_nat n) \<Longrightarrow> unat (l :: 64 word) \<le> n"
proof -
  assume "\<not> (l > of_nat n)"
  then have "unat l \<le> unat (of_nat n :: 64 word)" by (simp add: not_less word_le_nat_alt)
  also have "\<dots> \<le> n" by (simp add: unat_of_nat)
  finally show ?thesis .
qed

lemma word_gt_length: "n < 2 ^ 64 \<Longrightarrow> (l > of_nat n) \<longleftrightarrow> unat (l :: 64 word) > n"
  by (simp add: word_less_nat_alt unat_of_nat)

lemma unat_ucast32 [simp]: "unat (ucast (w :: 32 word) :: 64 word) = unat w"
  by (simp add: unsigned_ucast_eq) (simp add: take_bit_nat_eq_self unsigned_less [of w, THEN order_less_le_trans])

section \<open>No panic\<close>

lemma at_Some [simp]: "i < length b \<Longrightarrow> at b i = Some (b ! i)"
  by (simp add: at_def)

lemma slice_Some [simp]:
  "i \<le> length b \<Longrightarrow> slice_from b i = Some (drop i b)"
  "i \<le> length b \<Longrightarrow> slice_to b i = Some (take i b)"
  by (simp_all add: slice_from_def slice_to_def)

lemma be32_Some: "4 \<le> length b \<Longrightarrow> \<exists>w. be32 b = Some w"
  by (simp add: be32_def)

lemma read_length_no_panic: "read_length op b \<noteq> Inl Panic"
  using be32_Some [of b] by (auto simp: read_length_def Suc_le_eq)

lemma readString_no_panic: "readString b \<noteq> Inl Panic"
  by (auto simp: readString_def Suc_le_eq read_length_no_panic word_le_length split: sum.splits)

lemma read_entries_no_panic: "read_entries k b out \<noteq> Inl Panic"
proof (induction k arbitrary: b out)
  case (Suc k)
  show ?case
  proof (cases "readString b")
    case (Inl e)
    then show ?thesis using readString_no_panic [of b] by simp
  next
    case (Inr vb)
    obtain v r where vb: "vb = (v, r)" by (cases vb)
    show ?thesis
    proof (cases "length r < 4")
      case True
      then show ?thesis using Inr vb by simp
    next
      case False
      then obtain w where "be32 r = Some w" using be32_Some [of r] by auto
      then show ?thesis using Inr vb False Suc.IH word_le_length [where l = "ucast w" and n = "length r - 4"]
        by (auto simp: not_less)
    qed
  qed
qed simp

lemma DecodeHash_cases:
  obtains (err) "DecodeHash b = Inl ErrFormat"
  | (entries) minor n r where "b = to_byte 5 # minor # to_byte 3 # be32_bytes n @ r"
      "unat n * 6 \<le> length r"
      "DecodeHash b = (case read_entries (unat n) r Map.empty of
         Inl e \<Rightarrow> Inl e
       | Inr (out, r') \<Rightarrow> if length r' \<noteq> 0 then Inl ErrFormat else Inr out)"
proof (cases "\<exists>minor r0. b = to_byte 5 # minor # to_byte 3 # r0 \<and> 4 \<le> length r0")
  case False
  have "DecodeHash b = Inl ErrFormat"
  proof (cases "\<exists>h minor op r0. b = h # minor # op # r0 \<and> 4 \<le> length r0")
    case True
    then obtain h minor op r0 where b: "b = h # minor # op # r0" "4 \<le> length r0" by blast
    then have "byte h \<noteq> 5 \<or> byte op \<noteq> 3" using False by (metis to_byte_byte)
    then show ?thesis by (auto simp: DecodeHash_def b sxHash_def)
  next
    case no: False
    show ?thesis
    proof (cases "length b < 2")
      case False
      then obtain h minor r1 where b: "b = h # minor # r1" by (cases b; cases "tl b") auto
      then have "length r1 < 5" using no by (cases r1) auto
      then show ?thesis by (simp add: DecodeHash_def b)
    qed (simp add: DecodeHash_def)
  qed
  then show ?thesis by (rule err)
next
  case True
  then obtain minor r0 where b: "b = to_byte 5 # minor # to_byte 3 # r0" "4 \<le> length r0" by blast
  obtain n where n: "be32 r0 = Some n" using be32_Some [OF b(2)] by auto
  then obtain r where r: "r0 = be32_bytes n @ r" by (rule be32_split)
  have d: "DecodeHash b =
     (if (ucast n :: 64 word) * 6 > of_nat (length r) then Inl ErrFormat
      else (case read_entries (unat n) r Map.empty of
             Inl e \<Rightarrow> Inl e
           | Inr (out, r') \<Rightarrow> if length r' \<noteq> 0 then Inl ErrFormat else Inr out))"
    by (simp add: DecodeHash_def b(1) r sxHash_def)
  show ?thesis
  proof (cases "(ucast n :: 64 word) * 6 > of_nat (length r)")
    case True
    then show ?thesis using d err by simp
  next
    case False
    have "unat n < 2 ^ LENGTH(32)" by (rule unsigned_less)
    then have "unat ((ucast n :: 64 word) * 6) = unat n * 6" by (simp add: unat_word_ariths)
    moreover have "unat ((ucast n :: 64 word) * 6) \<le> length r" using False by (rule word_le_length)
    ultimately show ?thesis using d False b(1) r by (intro entries) auto
  qed
qed

section \<open>The accepted language\<close>

text \<open>A string value under its opcode, an entry (opcode, value, key), a whole hash.\<close>

definition ok_string :: "nat \<Rightarrow> string \<Rightarrow> bool" where
  "ok_string op v \<longleftrightarrow>
     (op = sxScalar \<or> op = sxUTF8Str) \<and> length v < 256 \<or>
     (op = sxLScalar \<or> op = sxLUTF8Str) \<and> length v < 2 ^ 32"

definition enc_string :: "nat \<Rightarrow> string \<Rightarrow> string" where
  "enc_string op v = to_byte op #
     (if op = sxScalar \<or> op = sxUTF8Str then [to_byte (length v)] else be32_bytes (of_nat (length v))) @ v"

type_synonym entry = "nat \<times> string \<times> string"

fun ok_entry :: "entry \<Rightarrow> bool" where
  "ok_entry (op, v, k) \<longleftrightarrow> ok_string op v \<and> length k < 2 ^ 32"

fun enc_entry :: "entry \<Rightarrow> string" where
  "enc_entry (op, v, k) = enc_string op v @ be32_bytes (of_nat (length k)) @ k"

definition frozen :: "char \<Rightarrow> entry list \<Rightarrow> string" where
  "frozen minor es =
     to_byte 5 # minor # to_byte 3 # be32_bytes (of_nat (length es)) @ concat (map enc_entry es)"

text \<open>What the hash holds: for a key given twice, the later value.\<close>

fun contents :: "(string \<rightharpoonup> string) \<Rightarrow> entry list \<Rightarrow> (string \<rightharpoonup> string)" where
  "contents m [] = m"
| "contents m ((op, v, k) # es) = contents (m(k \<mapsto> v)) es"

lemma unat_of_nat32 [simp]: "n < 2 ^ 32 \<Longrightarrow> unat (of_nat n :: 32 word) = n"
  by (simp add: unat_of_nat)

lemma unat_of_nat64 [simp]: "n < 2 ^ 64 \<Longrightarrow> unat (of_nat n :: 64 word) = n"
  by (simp add: unat_of_nat)

lemma sx_less: "op = sxScalar \<or> op = sxUTF8Str \<or> op = sxLScalar \<or> op = sxLUTF8Str \<Longrightarrow> op < 256"
  by (auto simp: sx_defs)

lemma readString_enc:
  assumes "ok_string op v" "length v + length r < 2 ^ 64"
  shows "readString (enc_string op v @ r) = Inr (v, r)"
proof -
  have op: "byte (to_byte op) = op" using assms(1) sx_less [of op] by (auto simp: ok_string_def)
  have l: "length v < 2 ^ 64" using assms(2) by simp
  have "read_length op ((if op = sxScalar \<or> op = sxUTF8Str then [to_byte (length v)] else be32_bytes (of_nat (length v))) @ v @ r)
      = Inr (of_nat (length v), v @ r)"
    using assms(1) by (auto simp: read_length_def ok_string_def unsigned_of_nat take_bit_nat_eq_self sx_defs)
  moreover have "unat (of_nat (length (v @ r)) :: 64 word) = length v + length r"
    using unat_of_nat64 [of "length (v @ r)"] assms(2) by simp
  then have "\<not> (of_nat (length v) > (of_nat (length (v @ r)) :: 64 word))"
    using l by (simp add: word_less_nat_alt del: length_append of_nat_add)
  ultimately show ?thesis using op l by (simp add: readString_def enc_string_def)
qed

lemma read_length_inv:
  assumes "read_length op b = Inr (l, r)"
  shows "(op = sxScalar \<or> op = sxUTF8Str) \<and> unat l < 256 \<and> b = to_byte (unat l) # r \<or>
    (op = sxLScalar \<or> op = sxLUTF8Str) \<and> unat l < 2 ^ 32 \<and> b = be32_bytes (of_nat (unat l)) @ r"
proof (cases "op = sxScalar \<or> op = sxUTF8Str")
  case True
  then obtain c where "b = c # r" "l = of_nat (byte c)"
    using assms by (cases b) (auto simp: read_length_def)
  moreover have "unat (of_nat (byte c) :: 64 word) = byte c" 
    by (rule unat_of_nat64, rule less_trans [OF byte_less]) simp
  ultimately show ?thesis using True by simp
next
  case False
  then have l: "op = sxLScalar \<or> op = sxLUTF8Str" and n: "4 \<le> length b"
    using assms by (auto simp: read_length_def split: if_splits)
  obtain w where w: "be32 b = Some w" using be32_Some [OF n] by blast
  then obtain r' where b: "b = be32_bytes w @ r'" by (rule be32_split)
  have "l = ucast w" "r = r'" using assms False l n w b by (auto simp: read_length_def)
  moreover have "unat w < 2 ^ LENGTH(32)" by (rule unsigned_less)
  ultimately show ?thesis using l b by simp
qed

lemma readString_inv:
  assumes "readString b = Inr (v, r)"
  obtains op where "ok_string op v" "b = enc_string op v @ r"
proof -
  obtain c b1 where b: "b = c # b1"
    using assms by (cases b) (auto simp: readString_def)
  obtain l b2 where rl: "read_length (byte c) b1 = Inr (l, b2)"
    using assms by (auto simp: readString_def b split: sum.splits)
  then have "\<not> (l > of_nat (length b2))"
    using assms by (auto simp: readString_def b)
  then have le: "unat l \<le> length b2" by (rule word_le_length)
  then have v: "v = take (unat l) b2" and r: "r = drop (unat l) b2"
    using assms rl \<open>\<not> (l > of_nat (length b2))\<close> by (auto simp: readString_def b)
  then have lv: "length v = unat l" and "b2 = v @ r" using le by simp_all
  moreover from read_length_inv [OF rl] have "ok_string (byte c) v"
    by (auto simp: ok_string_def lv)
  moreover from read_length_inv [OF rl] have "b = enc_string (byte c) v @ r"
    unfolding b \<open>b2 = v @ r\<close> enc_string_def lv by (auto simp: sx_defs)
  ultimately show ?thesis using that by blast
qed

lemma read_entries_enc:
  assumes "\<forall>e\<in>set es. ok_entry e" "length (concat (map enc_entry es)) + length r < 2 ^ 64"
  shows "read_entries (length es) (concat (map enc_entry es) @ r) m = Inr (contents m es, r)"
  using assms
proof (induction es arbitrary: m)
  case (Cons e es)
  obtain op v k where e: "e = (op, v, k)" by (cases e) auto
  let ?t = "concat (map enc_entry es) @ r"
  have k: "length k < 2 ^ 32" "ok_string op v" using Cons.prems e by simp_all
  have n: "length (concat (map enc_entry es)) + length r < 2 ^ 64"
    "length v + length (be32_bytes (of_nat (length k)) @ k @ ?t) < 2 ^ 64"
    using Cons.prems(2) by (simp_all add: e enc_string_def)
  have "readString (enc_string op v @ be32_bytes (of_nat (length k)) @ k @ ?t) =
      Inr (v, be32_bytes (of_nat (length k)) @ k @ ?t)"
    using k(2) n(2) by (rule readString_enc)
  moreover have "unat (of_nat (length (k @ ?t)) :: 64 word) = length (k @ ?t)"
    using n(2) by (intro unat_of_nat64) simp
  then have "\<not> ((ucast (of_nat (length k) :: 32 word) :: 64 word) > of_nat (length (k @ ?t)))"
    using k(1) by (simp only: word_less_nat_alt unat_ucast32 unat_of_nat32) simp
  moreover have "read_entries (length es) ?t (m(k \<mapsto> v)) = Inr (contents (m(k \<mapsto> v)) es, r)"
    using Cons.prems n(1) by (intro Cons.IH) simp_all
  ultimately show ?case using k by (simp add: e)
qed simp

lemma read_entries_inv:
  assumes "read_entries n b m = Inr (out, r)"
  obtains es where "length es = n" "\<forall>e\<in>set es. ok_entry e"
    "b = concat (map enc_entry es) @ r" "out = contents m es"
  using assms
proof (induction n arbitrary: b m thesis)
  case 0
  then show ?case by simp
next
  case (Suc n)
  obtain v b1 where rs: "readString b = Inr (v, b1)"
    using Suc.prems(2) by (auto split: sum.splits)
  then have "4 \<le> length b1" using Suc.prems(2) by (auto split: if_splits)
  then obtain w where w: "be32 b1 = Some w" using be32_Some by blast
  then obtain b2 where b1: "b1 = be32_bytes w @ b2" by (rule be32_split)
  have nl: "\<not> ((ucast w :: 64 word) > of_nat (length b2))"
    using Suc.prems(2) rs w b1 by (auto split: if_splits)
  then have kl: "unat w \<le> length b2" using word_le_length [OF nl] by simp
  define k b3 where "k = take (unat w) b2" and "b3 = drop (unat w) b2"
  have b2: "b2 = k @ b3" and lk: "length k = unat w" using kl by (simp_all add: k_def b3_def)
  have "read_entries n b3 (m(k \<mapsto> v)) = Inr (out, r)"
    using Suc.prems(2) rs w b1 nl kl by (simp add: k_def b3_def)
  then obtain es where es: "length es = n" "\<forall>e\<in>set es. ok_entry e"
    "b3 = concat (map enc_entry es) @ r" "out = contents (m(k \<mapsto> v)) es"
    by (rule Suc.IH [rotated])
  obtain op where op: "ok_string op v" "b = enc_string op v @ b1" using rs by (rule readString_inv)
  have "unat w < 2 ^ LENGTH(32)" by (rule unsigned_less)
  then have "ok_entry (op, v, k)" "b = concat (map enc_entry ((op, v, k) # es)) @ r"
    using op b1 b2 es(3) by (simp_all add: lk)
  then show ?case using es by (intro Suc.prems(1) [of "(op, v, k) # es"]) simp_all
qed

lemma DecodeHash_language:
  assumes "length b < 2 ^ 63"
  shows "DecodeHash b = Inr m \<longleftrightarrow>
    (\<exists>minor es. b = frozen minor es \<and> length es < 2 ^ 32 \<and> (\<forall>e\<in>set es. ok_entry e) \<and>
      m = contents Map.empty es)"
    (is "?L \<longleftrightarrow> ?R")
proof
  assume ?L
  then show ?R
  proof (cases b rule: DecodeHash_cases)
    case (entries minor n r)
    then obtain out where "read_entries (unat n) r Map.empty = Inr (out, [])" "m = out"
      using \<open>?L\<close> by (auto split: sum.splits if_splits)
    then obtain es where es: "length es = unat n" "\<forall>e\<in>set es. ok_entry e"
      "r = concat (map enc_entry es)" "m = contents Map.empty es"
      by (metis append_Nil2 read_entries_inv)
    have "unat n < 2 ^ LENGTH(32)" by (rule unsigned_less)
    moreover have "b = frozen minor es" using entries(1) es by (simp add: frozen_def)
    ultimately show ?thesis using es by (intro exI [of _ minor] exI [of _ es]) simp
  qed simp
next
  assume ?R
  then obtain minor es where b: "b = frozen minor es" and n: "length es < 2 ^ 32"
    and ok: "\<forall>e\<in>set es. ok_entry e" and m: "m = contents Map.empty es" by blast
  have len: "length (concat (map enc_entry es)) < 2 ^ 63"
    using assms b by (simp add: frozen_def)
  have six: "length es * 6 \<le> length (concat (map enc_entry es))"
    by (induction es) (auto simp: enc_string_def split: prod.splits)
  have "unat ((ucast (of_nat (length es) :: 32 word) :: 64 word) * 6) = length es * 6"
    using n by (simp add: unat_word_ariths)
  then have "\<not> ((ucast (of_nat (length es) :: 32 word) :: 64 word) * 6 > of_nat (length (concat (map enc_entry es))))"
    using six len by (simp add: word_gt_length del: length_concat)
  then show ?L
    using read_entries_enc [OF ok, of "[]" Map.empty] len n
    by (simp add: b m frozen_def DecodeHash_def sxHash_def del: length_concat)
qed

section \<open>Properties\<close>

text \<open>
  C15. On any bytes at all the reader returns: no slice or index expression of it is ever out
  of range, and its loop runs at most once per six bytes of input.
\<close>

theorem DecodeHash_never_panics:
  "DecodeHash b \<noteq> Inl Panic \<and>
   (DecodeHash b = Inl ErrFormat \<or>
    (\<exists>n r. n * 6 \<le> length r \<and> length r < length b \<and>
      DecodeHash b = (case read_entries n r Map.empty of
         Inl e \<Rightarrow> Inl e
       | Inr (out, r') \<Rightarrow> if r' \<noteq> [] then Inl ErrFormat else Inr out)))"
proof (cases b rule: DecodeHash_cases)
  case (entries minor n r)
  have "DecodeHash b \<noteq> Inl Panic"
    using read_entries_no_panic [of "unat n" r] unfolding entries(3)
    by (auto split: sum.splits)
  moreover have "length r < length b" using entries(1) by simp
  ultimately show ?thesis using entries(2)
    by (intro conjI disjI2 exI [of _ "unat n"] exI [of _ r]) (simp_all add: entries(3) cong: sum.case_cong)
qed auto

text \<open>
  C14. The reader accepts exactly the frozen hashes of string scalars, with nothing before or
  after them, and returns what they hold (for input shorter than Go's largest slice).
\<close>

theorem DecodeHash_iff:
  assumes "length b < 2 ^ 63"
  shows "DecodeHash b = Inr m \<longleftrightarrow>
    (\<exists>minor es. b = frozen minor es \<and> length es < 2 ^ 32 \<and> (\<forall>e\<in>set es. ok_entry e) \<and>
      m = contents Map.empty es)"
  using assms by (rule DecodeHash_language)

theorem DecodeHash_iff_witness:
  "length (frozen (CHR 0x0B) [(10, ''u1'', ''user'')]) < 2 ^ 63 \<and>
   DecodeHash (frozen (CHR 0x0B) [(10, ''u1'', ''user'')]) = Inr [''user'' \<mapsto> ''u1'']"
proof -
  have l: "length (frozen (CHR 0x0B) [(10, ''u1'', ''user'')]) < 2 ^ 63"
    by (simp add: frozen_def enc_string_def sx_defs)
  have "DecodeHash (frozen (CHR 0x0B) [(10, ''u1'', ''user'')]) = Inr (contents Map.empty [(10, ''u1'', ''user'')])"
    unfolding DecodeHash_iff [OF l]
    by (intro exI [of _ "CHR 0x0B"] exI [of _ "[(10, ''u1'', ''user'')]"]) (simp add: ok_string_def sx_defs)
  then show ?thesis using l by simp
qed

end
