(* ===== verification/Hmac.thy ===== *)
theory Hmac
  imports Prelude
begin

text \<open>
  HMAC-SHA-1, as \<^verbatim>\<open>crypto/hmac\<close> and \<^verbatim>\<open>crypto/sha1\<close> of Go's standard library compute it
  (FIPS 180-4, RFC 2104). The session lemmas treat it as one function of the key and the
  message; it is spelled out so that a cookie can be evaluated.
\<close>

unbundle bit_operations_syntax

section \<open>SHA-1\<close>

text \<open>Padding: a one bit, zeros, and the length in bits as 64 bits.\<close>

definition sha1_pad :: "string \<Rightarrow> string" where
  "sha1_pad m = m @ to_byte 128 # replicate (nat ((55 - int (length m)) mod 64)) (to_byte 0) @
     be32_bytes (of_nat (8 * length m div 4294967296)) @ be32_bytes (of_nat (8 * length m))"

fun words_of :: "string \<Rightarrow> 32 word list" where
  "words_of (a # b # c # d # r) = of_nat (be_value 0 [a, b, c, d]) # words_of r"
| "words_of _ = []"

text \<open>The message schedule, newest word first.\<close>

fun sha1_expand :: "nat \<Rightarrow> 32 word list \<Rightarrow> 32 word list" where
  "sha1_expand 0 w = w"
| "sha1_expand (Suc n) w = sha1_expand n (word_rotl 1 (w ! 2 XOR w ! 7 XOR w ! 13 XOR w ! 15) # w)"

type_synonym sha1_state = "32 word \<times> 32 word \<times> 32 word \<times> 32 word \<times> 32 word"

definition sha1_f :: "nat \<Rightarrow> 32 word \<Rightarrow> 32 word \<Rightarrow> 32 word \<Rightarrow> 32 word" where
  "sha1_f t b c d =
     (if t < 20 then (b AND c) OR (NOT b AND d)
      else if t < 40 then b XOR c XOR d
      else if t < 60 then (b AND c) OR (b AND d) OR (c AND d)
      else b XOR c XOR d)"

definition sha1_k :: "nat \<Rightarrow> 32 word" where
  "sha1_k t = (if t < 20 then 0x5A827999 else if t < 40 then 0x6ED9EBA1
     else if t < 60 then 0x8F1BBCDC else 0xCA62C1D6)"

fun sha1_rounds :: "nat \<Rightarrow> 32 word list \<Rightarrow> sha1_state \<Rightarrow> sha1_state" where
  "sha1_rounds t [] s = s"
| "sha1_rounds t (w # ws) (a, b, c, d, e) =
     sha1_rounds (Suc t) ws (word_rotl 5 a + sha1_f t b c d + e + sha1_k t + w, a, word_rotl 30 b, c, d)"

fun sha1_block :: "32 word list \<Rightarrow> sha1_state \<Rightarrow> sha1_state" where
  "sha1_block w (a, b, c, d, e) =
     (case sha1_rounds 0 (rev (sha1_expand 64 (rev w))) (a, b, c, d, e) of
        (a', b', c', d', e') \<Rightarrow> (a + a', b + b', c + c', d + d', e + e'))"

function sha1_blocks :: "32 word list \<Rightarrow> sha1_state \<Rightarrow> sha1_state" where
  "sha1_blocks ws s = (if length ws < 16 then s else sha1_blocks (drop 16 ws) (sha1_block (take 16 ws) s))"
  by pat_completeness auto
termination
  by (relation "measure (\<lambda>(ws, s). length ws)") auto

declare sha1_blocks.simps [simp del]

definition sha1 :: "string \<Rightarrow> string" where
  "sha1 m =
     (case sha1_blocks (words_of (sha1_pad m)) (0x67452301, 0xEFCDAB89, 0x98BADCFE, 0x10325476, 0xC3D2E1F0) of
        (a, b, c, d, e) \<Rightarrow> be32_bytes a @ be32_bytes b @ be32_bytes c @ be32_bytes d @ be32_bytes e)"

section \<open>HMAC\<close>

definition xor_byte :: "nat \<Rightarrow> char \<Rightarrow> char" where
  "xor_byte k c = to_byte (k XOR byte c)"

text \<open>\<^verbatim>\<open>hmac.New(sha1.New, key)\<close>, one \<^verbatim>\<open>Write\<close> of the message, \<^verbatim>\<open>Sum\<close>.\<close>

definition hmac_sha1 :: "string \<Rightarrow> string \<Rightarrow> string" where
  "hmac_sha1 key m =
     (let k = (if length key > 64 then sha1 key else key);
          k' = k @ replicate (64 - length k) (to_byte 0)
      in sha1 (map (xor_byte 0x5C) k' @ sha1 (map (xor_byte 0x36) k' @ m)))"

end
