(* ===== verification/Session.thy ===== *)
theory Session
  imports Codecs Hmac Storable
begin

text \<open>
  Package \<^verbatim>\<open>internal/session\<close>: who is logged in, read from Perl's \<^verbatim>\<open>chats\<close> cookie, and the
  writer of such cookies of \<^verbatim>\<open>internal/testenv\<close>. \<open>ReadPerl\<close> is modelled down to the bytes;
  parsing the \<^verbatim>\<open>Cookie\<close> header is \<^verbatim>\<open>net/http\<close>'s, so \<open>cookie_user\<close> starts from the value it
  found. The properties: a cookie is accepted exactly when it has the three parts, the
  signature is the secret's, and the frozen hash names a user; a cookie written with the
  same secret logs its user in.
\<close>

section \<open>The code\<close>

definition signature :: "string \<Rightarrow> string \<Rightarrow> string" where
  "signature secret data = hex_encode (hmac_sha1 secret data)"

text \<open>\<^verbatim>\<open>ReadPerl\<close>: \<open>None\<close> is \<^verbatim>\<open>ok\<close> false. A missing key reads as the empty string in Go.\<close>

definition ReadPerl :: "string \<Rightarrow> string \<Rightarrow> string option" where
  "ReadPerl cookieValue secret =
     (case path_unescape cookieValue of
        None \<Rightarrow> None
      | Some v \<Rightarrow>
          (case split_on (CHR '':'') v of
             [p0, p1, p2] \<Rightarrow>
               if signature secret p1 \<noteq> p2 then None
               else (case b64_decode p1 of
                   None \<Rightarrow> None
                 | Some raw \<Rightarrow>
                     (case DecodeHash raw of
                        Inl _ \<Rightarrow> None
                      | Inr h \<Rightarrow>
                          (case h ''user'' of
                             None \<Rightarrow> None
                           | Some u \<Rightarrow> if u = '''' then None else Some u)))
           | _ \<Rightarrow> None))"

text \<open>\<^verbatim>\<open>User\<close>: the empty string when there is no such cookie or it does not verify.\<close>

definition cookie_user :: "string option \<Rightarrow> string \<Rightarrow> string" where
  "cookie_user cookie secret =
     (case cookie of
        None \<Rightarrow> ''''
      | Some value \<Rightarrow> (case ReadPerl value secret of None \<Rightarrow> '''' | Some user \<Rightarrow> user))"

text \<open>\<^verbatim>\<open>testenv.PerlCookie\<close>: \<open>None\<close> where it panics.\<close>

definition PerlCookie :: "string \<Rightarrow> string \<Rightarrow> string option" where
  "PerlCookie user secret =
     (if length user > 255 then None
      else (let b = map to_byte [5, 11, 3, 0, 0, 0, 1];
                b = b @ [to_byte 10, to_byte (length user)];
                b = b @ user;
                b = b @ be32_bytes (of_nat (length ''user''));
                b = b @ ''user'';
                data = b64_encode b
            in Some (query_escape (''1792769372.78598:'' @ data @ '':'' @ signature secret data))))"

section \<open>Properties\<close>

lemma PerlCookie_frozen:
  assumes "length user \<le> 255"
  shows "PerlCookie user secret =
    (let data = b64_encode (frozen (to_byte 11) [(sxScalar, user, ''user'')])
     in Some (query_escape (''1792769372.78598'' @ CHR '':'' # data @ CHR '':'' # signature secret data)))"
proof -
  have "be32_bytes 1 = map to_byte [0, 0, 0, 1]" by (simp add: be32_bytes_def)
  then show ?thesis using assms by (simp add: PerlCookie_def frozen_def enc_string_def sx_defs Let_def)
qed

lemma no_colon:
  "CHR '':'' \<notin> insert pad (set b64_alphabet)" "CHR '':'' \<notin> set hex_alphabet"
  "CHR '' '' \<notin> insert pad (set b64_alphabet)" "CHR '' '' \<notin> set hex_alphabet"
  by (simp_all add: pad_def b64_alphabet_def hex_alphabet_def)

lemma split_on_three:
  "split_on c v = [p0, p1, p2] \<longleftrightarrow>
    v = p0 @ c # p1 @ c # p2 \<and> c \<notin> set p0 \<and> c \<notin> set p1 \<and> c \<notin> set p2"
proof
  assume l: "split_on c v = [p0, p1, p2]"
  show "v = p0 @ c # p1 @ c # p2 \<and> c \<notin> set p0 \<and> c \<notin> set p1 \<and> c \<notin> set p2"
    using join_split_on [of c v] split_on_parts [of _ c v] by (auto simp: l)
qed (auto simp: split_on_append split_on_none)

lemma ReadPerl_Some:
  "ReadPerl value secret = Some user \<longleftrightarrow>
    (\<exists>p0 p1 raw h. path_unescape value = Some (p0 @ CHR '':'' # p1 @ CHR '':'' # signature secret p1) \<and>
      CHR '':'' \<notin> set p0 \<and> CHR '':'' \<notin> set p1 \<and>
      b64_decode p1 = Some raw \<and> DecodeHash raw = Inr h \<and> h ''user'' = Some user \<and> user \<noteq> [])"
    (is "?L \<longleftrightarrow> ?R")
proof
  assume ?L
  then obtain v p0 p1 raw h where "path_unescape value = Some v"
    "split_on (CHR '':'') v = [p0, p1, signature secret p1]"
    "b64_decode p1 = Some raw" "DecodeHash raw = Inr h" "h ''user'' = Some user" "user \<noteq> []"
    by (auto simp: ReadPerl_def split: option.splits list.splits sum.splits if_splits)
  then show ?R unfolding split_on_three by blast
next
  assume ?R
  then obtain p0 p1 raw h where v: "path_unescape value = Some (p0 @ CHR '':'' # p1 @ CHR '':'' # signature secret p1)"
    "CHR '':'' \<notin> set p0" "CHR '':'' \<notin> set p1"
    and r: "b64_decode p1 = Some raw" "DecodeHash raw = Inr h" "h ''user'' = Some user" "user \<noteq> []" by blast
  have "CHR '':'' \<notin> set (signature secret p1)"
    using hex.enc_alphabet no_colon unfolding signature_def by blast
  then have "split_on (CHR '':'') (p0 @ CHR '':'' # p1 @ CHR '':'' # signature secret p1) = [p0, p1, signature secret p1]"
    using v by (simp add: split_on_three)
  then show ?L using v(1) r by (simp add: ReadPerl_def)
qed

text \<open>
  C12. A cookie logs a user in exactly when its unescaped value is three colon-free parts of
  which the last is the secret's HMAC-SHA-1 of the second, in hexadecimal, and the second is
  the base64 text of a frozen hash whose \<^verbatim>\<open>user\<close> entry is that user and not empty.
\<close>

theorem ReadPerl_iff:
  "ReadPerl value secret = Some user \<longleftrightarrow>
    (\<exists>p0 p1 raw h. path_unescape value = Some (p0 @ CHR '':'' # p1 @ CHR '':'' # signature secret p1) \<and>
      CHR '':'' \<notin> set p0 \<and> CHR '':'' \<notin> set p1 \<and>
      b64_decode p1 = Some raw \<and> DecodeHash raw = Inr h \<and> h ''user'' = Some user \<and> user \<noteq> [])"
  by (rule ReadPerl_Some)

lemma cookie_user_PerlCookie:
  assumes "user \<noteq> []" "PerlCookie user secret = Some cookie"
  shows "ReadPerl cookie secret = Some user" "cookie_user (Some cookie) secret = user"
proof -
  have len: "length user \<le> 255" using assms(2) by (simp add: PerlCookie_def split: if_splits)
  let ?raw = "frozen (to_byte 11) [(sxScalar, user, ''user'')]"
  let ?data = "b64_encode ?raw"
  have c: "cookie = query_escape (''1792769372.78598'' @ CHR '':'' # ?data @ CHR '':'' # signature secret ?data)"
    using assms(2) by (simp add: PerlCookie_frozen [OF len] Let_def)
  have "CHR '' '' \<notin> set ?data" "CHR '' '' \<notin> set (signature secret ?data)" "CHR '':'' \<notin> set ?data"
    using b64.enc_alphabet [of ?raw] hex.enc_alphabet [of "hmac_sha1 secret ?data"] no_colon
    unfolding signature_def by blast+
  then have u: "path_unescape cookie = Some (''1792769372.78598'' @ CHR '':'' # ?data @ CHR '':'' # signature secret ?data)"
    unfolding c by (intro percent.dec_enc) simp
  have "DecodeHash ?raw = Inr (contents Map.empty [(sxScalar, user, ''user'')])"
  proof (subst DecodeHash_language)
    show "length ?raw < 2 ^ 63" using len by (simp add: frozen_def enc_string_def sx_defs)
    show "\<exists>minor es. ?raw = frozen minor es \<and> length es < 2 ^ 32 \<and> (\<forall>e\<in>set es. ok_entry e) \<and>
        contents Map.empty [(sxScalar, user, ''user'')] = contents Map.empty es"
      using len by (intro exI [of _ "to_byte 11"] exI [of _ "[(sxScalar, user, ''user'')]"]) (simp add: ok_string_def)
  qed
  then have "ReadPerl cookie secret = Some user"
    unfolding ReadPerl_Some using assms(1) u b64.dec_enc [of ?raw] \<open>CHR '':'' \<notin> set ?data\<close>
    by (intro exI [of _ "''1792769372.78598''"] exI [of _ ?data] exI [of _ ?raw]) simp
  then show "ReadPerl cookie secret = Some user" "cookie_user (Some cookie) secret = user" by (simp_all add: cookie_user_def)
qed

text \<open>
  C13. A cookie written for a user with some secret logs that user in under that secret.
\<close>

theorem ReadPerl_PerlCookie:
  assumes "user \<noteq> []" "PerlCookie user secret = Some cookie"
  shows "ReadPerl cookie secret = Some user \<and> cookie_user (Some cookie) secret = user"
  using cookie_user_PerlCookie [OF assms] by simp

theorem ReadPerl_PerlCookie_witness:
  "\<exists>cookie. PerlCookie ''4Lyq'' ''test-secret'' = Some cookie \<and> ReadPerl cookie ''test-secret'' = Some ''4Lyq''"
proof -
  obtain cookie where c: "PerlCookie ''4Lyq'' ''test-secret'' = Some cookie"
    by (simp add: PerlCookie_def Let_def)
  then show ?thesis using ReadPerl_PerlCookie [of "''4Lyq''", OF _ c] by blast
qed

end
