(* ===== verification/Interaction.thy ===== *)
theory Interaction
  imports Prelude
begin

text \<open>
  How the development models code that talks to the world. A program is a tree: a value to
  return, or an action (a request to liercd, a database statement, a line of output, ...)
  with one continuation per reply. So the code's control flow, every error branch of it
  included, is a HOL term, and nothing is assumed of the world: \<open>runs p es a\<close> says that
  \<open>p\<close> can perform the events \<open>es\<close> (actions with the replies they got, whatever they were)
  and return \<open>a\<close>. The same tree can be executed against concrete services (\<open>exec\<close>), and
  several of them can be interleaved action by action (\<open>interleave\<close>).
\<close>

section \<open>Errors, actions and replies\<close>

text \<open>
  Go's error values. \<open>ErrNoRows\<close> is \<^verbatim>\<open>pgx.ErrNoRows\<close>, \<open>UsageError\<close> and \<open>ErrNoIDsOnStdin\<close>
  are lctl's, \<open>ErrHelp\<close> is \<^verbatim>\<open>flag.ErrHelp\<close>; any other error is its text.
\<close>

datatype goerr = Err string | ErrNoRows | UsageError string | ErrNoIDsOnStdin | ErrHelp

datatype meth = GET | POST

record response =
  Status :: nat
  Body :: string

text \<open>SQL values, and the statements of the program (one constructor per SQL text).\<close>

datatype cell = Null | Text string | Num int | Bool bool

datatype table = Log | Seen | Private | Pref | WebPush | Connection | User

datatype sql =
  \<comment> \<open>internal/db\<close>
    SelectUserState string
  | SelectConnections string
  | SelectConfig string
  | SelectLiercd string
  | SelectOwner string
  | SelectLatestMessage string
  | UpdateConfigStmt string string
  | UpdateLastLogin string
  | UpdateLiercd string "string option"
  \<comment> \<open>internal/lctl\<close>
  | SelectConnectionsOn string
  | SelectRevive int string string
  | SelectConnectionOwner string
  | CountConnectionRows table string
  | DeleteConnectionRows table string
  | DeleteLateLog "string list"
  | SelectUser string
  | SelectUserConnections string
  | CountUserRows table string "string list"
  | SelectMaxLog
  | DeleteUserRows table string "string list"
  | DeleteLateUserLog int "string list"
  | SelectInactive int
  | CountOrphanLog
  | SelectOrphanLogConnections
  | DeleteOrphanBatch string nat
  | SelectAllConfigs
  | UpdateConfigIf string string string
  | NotifyHighlights
  | SelectChecked "string list option"
  | CountStaleSeen
  | DeleteStaleSeen
  | SelectConnectionList string string
  | SelectInactiveUsers int
  | SelectUserInfo string
  | UpdatePassword string string
  | SelectUsernames "string list"
  | SelectUserNamed string

datatype action =
    Http string meth string "string option"
  | HttpStats string string
  | Resolve string
  | ReadPassword
  | Query sql
  | Exec sql
  | Begin
  | TxExec sql
  | Commit
  | Rollback
  | Print string
  | EPrint string
  | Sleep int
  | CtxErr

datatype reply =
    Failed goerr
  | Done
  | Responded response
  | Rows "cell list list"
  | Affected nat
  | Strings "string list"

text \<open>\<^verbatim>\<open>err.Error()\<close>.\<close>

fun err_text :: "goerr \<Rightarrow> string" where
  "err_text (Err s) = s"
| "err_text ErrNoRows = ''no rows in result set''"
| "err_text (UsageError s) = s"
| "err_text ErrNoIDsOnStdin = ''no ids on stdin''"
| "err_text ErrHelp = ''flag: help requested''"

text \<open>
  The replies an action can get. The errors that \<^verbatim>\<open>net/http\<close> (a \<^verbatim>\<open>url.Error\<close>, which names the
  request), pgx (wrapped in \<^verbatim>\<open>db.Error\<close>) and \<^verbatim>\<open>context\<close> return have a text. Printing cannot
  fail (the code ignores its errors).
\<close>

definition described :: "goerr \<Rightarrow> bool" where
  "described e \<longleftrightarrow> err_text e \<noteq> ''''"

fun fits :: "action \<Rightarrow> reply \<Rightarrow> bool" where
  "fits (Http _ _ _ _) r = (case r of Failed e \<Rightarrow> described e | Responded _ \<Rightarrow> True | _ \<Rightarrow> False)"
| "fits (HttpStats _ _) r = (case r of Failed e \<Rightarrow> described e | Responded _ \<Rightarrow> True | _ \<Rightarrow> False)"
| "fits (Resolve _) r = (case r of Failed e \<Rightarrow> described e | Strings _ \<Rightarrow> True | _ \<Rightarrow> False)"
| "fits ReadPassword r = (case r of Failed e \<Rightarrow> described e | Strings ss \<Rightarrow> length ss = 1 | _ \<Rightarrow> False)"
| "fits (Query _) r = (case r of Failed e \<Rightarrow> described e | Rows _ \<Rightarrow> True | _ \<Rightarrow> False)"
| "fits (Exec _) r = (case r of Failed e \<Rightarrow> described e | Affected _ \<Rightarrow> True | _ \<Rightarrow> False)"
| "fits (TxExec _) r = (case r of Failed e \<Rightarrow> described e | Affected _ \<Rightarrow> True | _ \<Rightarrow> False)"
| "fits (Print _) r = (r = Done)"
| "fits (EPrint _) r = (r = Done)"
| "fits Rollback r = (r = Done)"
| "fits _ r = (case r of Failed e \<Rightarrow> described e | Done \<Rightarrow> True | _ \<Rightarrow> False)"

type_synonym event = "action \<times> reply"

section \<open>Programs\<close>

datatype 'a prog = Ret 'a | Act action "reply \<Rightarrow> 'a prog"

primrec bind :: "'a prog \<Rightarrow> ('a \<Rightarrow> 'b prog) \<Rightarrow> 'b prog" where
  "bind (Ret a) f = f a"
| "bind (Act x k) f = Act x (\<lambda>r. bind (k r) f)"

lemma bind_Ret [simp]: "bind p Ret = p"
  by (induction p) auto

lemma bind_assoc [simp]: "bind (bind p f) g = bind p (\<lambda>a. bind (f a) g)"
  by (induction p) auto

text \<open>\<open>attempt p k\<close>: call \<open>p\<close> and \<^verbatim>\<open>if err != nil { return err }\<close>.\<close>

definition attempt :: "(goerr + 'a) prog \<Rightarrow> ('a \<Rightarrow> (goerr + 'b) prog) \<Rightarrow> (goerr + 'b) prog" where
  "attempt p k = bind p (\<lambda>r. case r of Inl e \<Rightarrow> Ret (Inl e) | Inr a \<Rightarrow> k a)"

abbreviation raise :: "goerr \<Rightarrow> (goerr + 'a) prog" where
  "raise e \<equiv> Ret (Inl e)"

abbreviation return :: "'a \<Rightarrow> (goerr + 'a) prog" where
  "return a \<equiv> Ret (Inr a)"

subsection \<open>Single actions, with their replies as Go sees them\<close>

definition http :: "string \<Rightarrow> meth \<Rightarrow> string \<Rightarrow> string option \<Rightarrow> (goerr + response) prog" where
  "http base m path body = Act (Http base m path body)
     (\<lambda>r. case r of Responded x \<Rightarrow> return x | Failed e \<Rightarrow> raise e | _ \<Rightarrow> raise (Err []))"

text \<open>A GET of the stream server's \<^verbatim>\<open>/stats\<close> at an address, with the key in its header; a look-up of
  a host name; a password read from the terminal.\<close>

definition http_stats :: "string \<Rightarrow> string \<Rightarrow> (goerr + response) prog" where
  "http_stats address key = Act (HttpStats address key)
     (\<lambda>r. case r of Responded x \<Rightarrow> return x | Failed e \<Rightarrow> raise e | _ \<Rightarrow> raise (Err []))"

definition resolve_host :: "string \<Rightarrow> (goerr + string list) prog" where
  "resolve_host host = Act (Resolve host)
     (\<lambda>r. case r of Strings ips \<Rightarrow> return ips | Failed e \<Rightarrow> raise e | _ \<Rightarrow> raise (Err []))"

definition read_password :: "(goerr + string) prog" where
  "read_password = Act ReadPassword
     (\<lambda>r. case r of Strings ss \<Rightarrow> return (hd ss) | Failed e \<Rightarrow> raise e | _ \<Rightarrow> raise (Err []))"

definition query :: "sql \<Rightarrow> (goerr + cell list list) prog" where
  "query q = Act (Query q) (\<lambda>r. case r of Rows x \<Rightarrow> return x | Failed e \<Rightarrow> raise e | _ \<Rightarrow> raise (Err []))"

definition exec_sql :: "sql \<Rightarrow> (goerr + nat) prog" where
  "exec_sql q = Act (Exec q) (\<lambda>r. case r of Affected n \<Rightarrow> return n | Failed e \<Rightarrow> raise e | _ \<Rightarrow> raise (Err []))"

definition tx_exec :: "sql \<Rightarrow> (goerr + nat) prog" where
  "tx_exec q = Act (TxExec q) (\<lambda>r. case r of Affected n \<Rightarrow> return n | Failed e \<Rightarrow> raise e | _ \<Rightarrow> raise (Err []))"

definition unit_reply :: "reply \<Rightarrow> goerr + unit" where
  "unit_reply r = (case r of Failed e \<Rightarrow> Inl e | _ \<Rightarrow> Inr ())"

definition begin_tx :: "(goerr + unit) prog" where
  "begin_tx = Act Begin (\<lambda>r. Ret (unit_reply r))"

definition commit :: "(goerr + unit) prog" where
  "commit = Act Commit (\<lambda>r. Ret (unit_reply r))"

definition rollback :: "unit prog" where
  "rollback = Act Rollback (\<lambda>_. Ret ())"

definition print :: "string \<Rightarrow> unit prog" where
  "print s = Act (Print s) (\<lambda>_. Ret ())"

definition eprint :: "string \<Rightarrow> unit prog" where
  "eprint s = Act (EPrint s) (\<lambda>_. Ret ())"

definition sleep :: "int \<Rightarrow> (goerr + unit) prog" where
  "sleep d = Act (Sleep d) (\<lambda>r. Ret (unit_reply r))"

definition ctx_err :: "(goerr + unit) prog" where
  "ctx_err = Act CtxErr (\<lambda>r. Ret (unit_reply r))"

text \<open>\<open>say s p\<close>: print a line, then go on as \<open>p\<close>.\<close>

definition say :: "string \<Rightarrow> 'a prog \<Rightarrow> 'a prog" where
  "say s p = bind (print s) (\<lambda>_. p)"

definition say_err :: "string \<Rightarrow> 'a prog \<Rightarrow> 'a prog" where
  "say_err s p = bind (eprint s) (\<lambda>_. p)"

section \<open>Runs\<close>

inductive runs :: "'a prog \<Rightarrow> event list \<Rightarrow> 'a \<Rightarrow> bool" where
  runs_Ret: "runs (Ret a) [] a"
| runs_Act: "fits x r \<Longrightarrow> runs (k r) es a \<Longrightarrow> runs (Act x k) ((x, r) # es) a"

inductive_simps runs_Ret_iff [simp, run_simps]: "runs (Ret a) es b"
inductive_simps runs_Act_iff: "runs (Act x k) es b"

lemma runs_bind [run_simps]:
  "runs (bind p f) es b \<longleftrightarrow> (\<exists>es1 a es2. es = es1 @ es2 \<and> runs p es1 a \<and> runs (f a) es2 b)"
proof (induction p arbitrary: es)
  case (Ret a)
  then show ?case by simp
next
  case (Act x k)
  have IH: "runs (bind (k r) f) es b \<longleftrightarrow> (\<exists>es1 a es2. es = es1 @ es2 \<and> runs (k r) es1 a \<and> runs (f a) es2 b)" for r es
    by (rule Act) (rule rangeI)
  show ?case
  proof
    assume "runs (bind (Act x k) f) es b"
    then obtain r es1 a es2 where "es = ((x, r) # es1) @ es2" "fits x r" "runs (k r) es1 a" "runs (f a) es2 b"
      by (auto simp: runs_Act_iff IH)
    then show "\<exists>es1 a es2. es = es1 @ es2 \<and> runs (Act x k) es1 a \<and> runs (f a) es2 b"
      by (blast intro: runs_Act)
  next
    assume "\<exists>es1 a es2. es = es1 @ es2 \<and> runs (Act x k) es1 a \<and> runs (f a) es2 b"
    then show "runs (bind (Act x k) f) es b" by (auto simp: runs_Act_iff IH) blast
  qed
qed

lemma runs_attempt [run_simps]:
  "runs (attempt p k) es b \<longleftrightarrow>
    (\<exists>e. runs p es (Inl e) \<and> b = Inl e) \<or>
    (\<exists>es1 a es2. es = es1 @ es2 \<and> runs p es1 (Inr a) \<and> runs (k a) es2 b)" (is "?L \<longleftrightarrow> ?R")
proof
  assume ?L
  then obtain es1 r es2 where es: "es = es1 @ es2" and p: "runs p es1 r"
    and k: "runs (case r of Inl e \<Rightarrow> Ret (Inl e) | Inr a \<Rightarrow> k a) es2 b"
    by (auto simp: attempt_def runs_bind)
  show ?R
  proof (cases r)
    case (Inl e)
    with es p k show ?thesis by auto
  next
    case (Inr a)
    with es p k show ?thesis by auto
  qed
next
  assume ?R
  then show ?L
  proof (elim disjE exE conjE)
    fix e assume "runs p es (Inl e)" "b = Inl e"
    then show ?L unfolding attempt_def runs_bind
      by (intro exI [of _ es] exI [of _ "Inl e"] exI [of _ "[]"]) simp
  next
    fix es1 a es2 assume "es = es1 @ es2" "runs p es1 (Inr a)" "runs (k a) es2 b"
    then show ?L unfolding attempt_def runs_bind
      by (intro exI [of _ es1] exI [of _ "Inr a"] exI [of _ es2]) simp
  qed
qed

lemma ex_reply:
  "(\<exists>r. P r) \<longleftrightarrow> (\<exists>e. P (Failed e)) \<or> P Done \<or> (\<exists>x. P (Responded x)) \<or> (\<exists>x. P (Rows x)) \<or> (\<exists>n. P (Affected n)) \<or>
    (\<exists>ss. P (Strings ss))"
  by (metis reply.exhaust)

lemma runs_http [run_simps]:
  "runs (http b m p body) es a \<longleftrightarrow>
    (\<exists>e. described e \<and> es = [(Http b m p body, Failed e)] \<and> a = Inl e) \<or>
    (\<exists>x. es = [(Http b m p body, Responded x)] \<and> a = Inr x)"
  by (auto simp: http_def runs_Act_iff ex_reply)

lemma runs_http_stats [run_simps]:
  "runs (http_stats u key) es a \<longleftrightarrow>
    (\<exists>e. described e \<and> es = [(HttpStats u key, Failed e)] \<and> a = Inl e) \<or>
    (\<exists>x. es = [(HttpStats u key, Responded x)] \<and> a = Inr x)"
  by (auto simp: http_stats_def runs_Act_iff ex_reply)

lemma runs_resolve [run_simps]:
  "runs (resolve_host host) es a \<longleftrightarrow>
    (\<exists>e. described e \<and> es = [(Resolve host, Failed e)] \<and> a = Inl e) \<or>
    (\<exists>ips. es = [(Resolve host, Strings ips)] \<and> a = Inr ips)"
  by (auto simp: resolve_host_def runs_Act_iff ex_reply)

lemma runs_query [run_simps]:
  "runs (query q) es a \<longleftrightarrow>
    (\<exists>e. described e \<and> es = [(Query q, Failed e)] \<and> a = Inl e) \<or> (\<exists>x. es = [(Query q, Rows x)] \<and> a = Inr x)"
  by (auto simp: query_def runs_Act_iff ex_reply)

lemma runs_exec_sql [run_simps]:
  "runs (exec_sql q) es a \<longleftrightarrow>
    (\<exists>e. described e \<and> es = [(Exec q, Failed e)] \<and> a = Inl e) \<or> (\<exists>n. es = [(Exec q, Affected n)] \<and> a = Inr n)"
  by (auto simp: exec_sql_def runs_Act_iff ex_reply)

lemma runs_tx_exec [run_simps]:
  "runs (tx_exec q) es a \<longleftrightarrow>
    (\<exists>e. described e \<and> es = [(TxExec q, Failed e)] \<and> a = Inl e) \<or> (\<exists>n. es = [(TxExec q, Affected n)] \<and> a = Inr n)"
  by (auto simp: tx_exec_def runs_Act_iff ex_reply)

lemma runs_begin_tx [run_simps]:
  "runs begin_tx es a \<longleftrightarrow>
    (\<exists>e. described e \<and> es = [(Begin, Failed e)] \<and> a = Inl e) \<or> (es = [(Begin, Done)] \<and> a = Inr ())"
  by (auto simp: begin_tx_def runs_Act_iff unit_reply_def ex_reply)

lemma runs_commit [run_simps]:
  "runs commit es a \<longleftrightarrow>
    (\<exists>e. described e \<and> es = [(Commit, Failed e)] \<and> a = Inl e) \<or> (es = [(Commit, Done)] \<and> a = Inr ())"
  by (auto simp: commit_def runs_Act_iff unit_reply_def ex_reply)

lemma runs_sleep [run_simps]:
  "runs (sleep d) es a \<longleftrightarrow>
    (\<exists>e. described e \<and> es = [(Sleep d, Failed e)] \<and> a = Inl e) \<or> (es = [(Sleep d, Done)] \<and> a = Inr ())"
  by (auto simp: sleep_def runs_Act_iff unit_reply_def ex_reply)

lemma runs_ctx_err [run_simps]:
  "runs ctx_err es a \<longleftrightarrow>
    (\<exists>e. described e \<and> es = [(CtxErr, Failed e)] \<and> a = Inl e) \<or> (es = [(CtxErr, Done)] \<and> a = Inr ())"
  by (auto simp: ctx_err_def runs_Act_iff unit_reply_def ex_reply)

lemma runs_rollback [run_simps]: "runs rollback es a \<longleftrightarrow> es = [(Rollback, Done)]"
  by (auto simp: rollback_def runs_Act_iff)

lemma runs_say [run_simps]:
  "runs (say s p) es a \<longleftrightarrow> (\<exists>es'. es = (Print s, Done) # es' \<and> runs p es' a)"
  by (auto simp: say_def print_def runs_Act_iff)

lemma runs_say_err [run_simps]:
  "runs (say_err s p) es a \<longleftrightarrow> (\<exists>es'. es = (EPrint s, Done) # es' \<and> runs p es' a)"
  by (auto simp: say_err_def eprint_def runs_Act_iff)

section \<open>Weakest preconditions\<close>

text \<open>
  \<open>wp p Q h\<close>: after the events \<open>h\<close>, every run of \<open>p\<close> ends with events and a result that
  satisfy \<open>Q\<close>. \<open>wp_simps\<close> computes it along the program, so a property of all runs becomes a
  statement about each path.
\<close>

named_theorems wp_simps \<open>equations that compute weakest preconditions\<close>

primrec wp :: "'a prog \<Rightarrow> (event list \<Rightarrow> 'a \<Rightarrow> bool) \<Rightarrow> event list \<Rightarrow> bool" where
  "wp (Ret a) Q h = Q h a"
| "wp (Act x k) Q h = (\<forall>r. fits x r \<longrightarrow> wp (k r) Q (h @ [(x, r)]))"

lemma wp_iff: "wp p Q h \<longleftrightarrow> (\<forall>es a. runs p es a \<longrightarrow> Q (h @ es) a)"
proof (induction p arbitrary: h)
  case (Act x k)
  have IH: "wp (k r) Q g \<longleftrightarrow> (\<forall>es a. runs (k r) es a \<longrightarrow> Q (g @ es) a)" for r g
    by (rule Act) (rule rangeI)
  show ?case by (auto simp: IH runs_Act_iff)
qed auto

lemma wp_runs: "wp p Q [] \<Longrightarrow> runs p es a \<Longrightarrow> Q es a"
  by (simp add: wp_iff)

lemma wp_mono: "wp p Q h \<Longrightarrow> (\<And>h a. Q h a \<Longrightarrow> R h a) \<Longrightarrow> wp p R h"
  by (simp add: wp_iff)

lemma wp_conj: "wp p (\<lambda>h a. Q h a \<and> R h a) h \<longleftrightarrow> wp p Q h \<and> wp p R h"
  by (auto simp: wp_iff)

lemma wp_bind [wp_simps]: "wp (bind p f) Q h \<longleftrightarrow> wp p (\<lambda>h a. wp (f a) Q h) h"
  by (induction p arbitrary: h) auto

lemma wp_attempt [wp_simps]:
  "wp (attempt p k) Q h \<longleftrightarrow> wp p (\<lambda>h r. case r of Inl e \<Rightarrow> Q h (Inl e) | Inr a \<Rightarrow> wp (k a) Q h) h"
proof -
  have "wp (case r of Inl e \<Rightarrow> Ret (Inl e) | Inr a \<Rightarrow> k a) Q g =
      (case r of Inl e \<Rightarrow> Q g (Inl e) | Inr a \<Rightarrow> wp (k a) Q g)" for r g
    by (simp split: sum.split)
  then show ?thesis by (simp add: attempt_def wp_bind)
qed

lemma all_reply:
  "(\<forall>r. P r) \<longleftrightarrow> (\<forall>e. P (Failed e)) \<and> P Done \<and> (\<forall>x. P (Responded x)) \<and> (\<forall>x. P (Rows x)) \<and> (\<forall>n. P (Affected n)) \<and>
    (\<forall>ss. P (Strings ss))"
  by (metis reply.exhaust)

lemma wp_http [wp_simps]:
  "wp (http b m p body) Q h \<longleftrightarrow>
    (\<forall>e. described e \<longrightarrow> Q (h @ [(Http b m p body, Failed e)]) (Inl e)) \<and>
    (\<forall>x. Q (h @ [(Http b m p body, Responded x)]) (Inr x))"
  by (simp add: http_def all_reply)

lemma wp_http_stats [wp_simps]:
  "wp (http_stats u key) Q h \<longleftrightarrow>
    (\<forall>e. described e \<longrightarrow> Q (h @ [(HttpStats u key, Failed e)]) (Inl e)) \<and>
    (\<forall>x. Q (h @ [(HttpStats u key, Responded x)]) (Inr x))"
  by (simp add: http_stats_def all_reply)

lemma wp_resolve [wp_simps]:
  "wp (resolve_host host) Q h \<longleftrightarrow>
    (\<forall>e. described e \<longrightarrow> Q (h @ [(Resolve host, Failed e)]) (Inl e)) \<and>
    (\<forall>ips. Q (h @ [(Resolve host, Strings ips)]) (Inr ips))"
  by (simp add: resolve_host_def all_reply)

lemma wp_read_password [wp_simps]:
  "wp read_password Q h \<longleftrightarrow>
    (\<forall>e. described e \<longrightarrow> Q (h @ [(ReadPassword, Failed e)]) (Inl e)) \<and>
    (\<forall>s. Q (h @ [(ReadPassword, Strings [s])]) (Inr s))"
  by (auto simp: read_password_def all_reply length_Suc_conv)

lemma wp_query [wp_simps]:
  "wp (query q) Q h \<longleftrightarrow>
    (\<forall>e. described e \<longrightarrow> Q (h @ [(Query q, Failed e)]) (Inl e)) \<and> (\<forall>x. Q (h @ [(Query q, Rows x)]) (Inr x))"
  by (simp add: query_def all_reply)

lemma wp_exec_sql [wp_simps]:
  "wp (exec_sql q) Q h \<longleftrightarrow>
    (\<forall>e. described e \<longrightarrow> Q (h @ [(Exec q, Failed e)]) (Inl e)) \<and> (\<forall>n. Q (h @ [(Exec q, Affected n)]) (Inr n))"
  by (simp add: exec_sql_def all_reply)

lemma wp_tx_exec [wp_simps]:
  "wp (tx_exec q) Q h \<longleftrightarrow>
    (\<forall>e. described e \<longrightarrow> Q (h @ [(TxExec q, Failed e)]) (Inl e)) \<and> (\<forall>n. Q (h @ [(TxExec q, Affected n)]) (Inr n))"
  by (simp add: tx_exec_def all_reply)

lemma wp_begin_tx [wp_simps]:
  "wp begin_tx Q h \<longleftrightarrow> (\<forall>e. described e \<longrightarrow> Q (h @ [(Begin, Failed e)]) (Inl e)) \<and> Q (h @ [(Begin, Done)]) (Inr ())"
  by (simp add: begin_tx_def unit_reply_def all_reply)

lemma wp_commit [wp_simps]:
  "wp commit Q h \<longleftrightarrow> (\<forall>e. described e \<longrightarrow> Q (h @ [(Commit, Failed e)]) (Inl e)) \<and> Q (h @ [(Commit, Done)]) (Inr ())"
  by (simp add: commit_def unit_reply_def all_reply)

lemma wp_sleep [wp_simps]:
  "wp (sleep d) Q h \<longleftrightarrow> (\<forall>e. described e \<longrightarrow> Q (h @ [(Sleep d, Failed e)]) (Inl e)) \<and> Q (h @ [(Sleep d, Done)]) (Inr ())"
  by (simp add: sleep_def unit_reply_def all_reply)

lemma wp_ctx_err [wp_simps]:
  "wp ctx_err Q h \<longleftrightarrow> (\<forall>e. described e \<longrightarrow> Q (h @ [(CtxErr, Failed e)]) (Inl e)) \<and> Q (h @ [(CtxErr, Done)]) (Inr ())"
  by (simp add: ctx_err_def unit_reply_def all_reply)

lemma wp_rollback [wp_simps]: "wp rollback Q h \<longleftrightarrow> Q (h @ [(Rollback, Done)]) ()"
  by (simp add: rollback_def)

lemma wp_say [wp_simps]: "wp (say s p) Q h \<longleftrightarrow> wp p Q (h @ [(Print s, Done)])"
  by (simp add: say_def print_def)

lemma wp_say_err [wp_simps]: "wp (say_err s p) Q h \<longleftrightarrow> wp p Q (h @ [(EPrint s, Done)])"
  by (simp add: say_err_def eprint_def)

lemma wp_if [wp_simps]: "wp (if b then p else q) Q h \<longleftrightarrow> (b \<longrightarrow> wp p Q h) \<and> (\<not> b \<longrightarrow> wp q Q h)"
  by simp

lemma wp_option [wp_simps]:
  "wp (case x of None \<Rightarrow> p | Some a \<Rightarrow> f a) Q h \<longleftrightarrow>
    (x = None \<longrightarrow> wp p Q h) \<and> (\<forall>a. x = Some a \<longrightarrow> wp (f a) Q h)"
  by (simp split: option.split)

lemma wp_sum [wp_simps]:
  "wp (case x of Inl a \<Rightarrow> f a | Inr b \<Rightarrow> g b) Q h \<longleftrightarrow>
    (\<forall>a. x = Inl a \<longrightarrow> wp (f a) Q h) \<and> (\<forall>b. x = Inr b \<longrightarrow> wp (g b) Q h)"
  by (simp split: sum.split)

section \<open>Interrupted runs\<close>

text \<open>
  A process can be killed between any two actions: \<open>reaches p es q\<close> says that \<open>p\<close> can perform
  \<open>es\<close> and then still has \<open>q\<close> to do. Every such run can be completed, so a property of the
  events of completed runs that holds of every prefix of a list it holds of, holds of
  interrupted runs too.
\<close>

inductive reaches :: "'a prog \<Rightarrow> event list \<Rightarrow> 'a prog \<Rightarrow> bool" where
  reaches_refl: "reaches p [] p"
| reaches_Act: "fits x r \<Longrightarrow> reaches (k r) es q \<Longrightarrow> reaches (Act x k) ((x, r) # es) q"

lemma fits_inhabited: "\<exists>r. fits x r"
  by (cases x) (auto intro: exI [of _ "Failed ErrNoRows"] simp: described_def)

lemma runs_total: "\<exists>es a. runs p es a"
proof (induction p)
  case (Act x k)
  obtain r where "fits x r" using fits_inhabited by blast
  moreover obtain es a where "runs (k r) es a" using Act by blast
  ultimately show ?case by (blast intro: runs_Act)
qed auto

lemma reaches_runs: "reaches p es q \<Longrightarrow> runs q es' a \<Longrightarrow> runs p (es @ es') a"
  by (induction rule: reaches.induct) (auto intro: runs_Act)

lemma runs_reaches: "runs p es a \<Longrightarrow> reaches p es (Ret a)"
  by (induction rule: runs.induct) (auto intro: reaches.intros)

lemma interrupted:
  assumes "\<And>es a. runs p es a \<Longrightarrow> I es" "\<And>xs ys. I (xs @ ys) \<Longrightarrow> I xs" "reaches p es q"
  shows "I es"
proof -
  obtain es' a where "runs q es' a" using runs_total [of q] by blast
  then have "runs p (es @ es') a" by (rule reaches_runs [OF assms(3)])
  then have "I (es @ es')" by (rule assms(1))
  then show ?thesis by (rule assms(2))
qed

section \<open>Orders of events\<close>

text \<open>\<open>guarded P Q es\<close>: no event of kind \<open>Q\<close> before the first of kind \<open>P\<close>.\<close>

fun guarded :: "('e \<Rightarrow> bool) \<Rightarrow> ('e \<Rightarrow> bool) \<Rightarrow> 'e list \<Rightarrow> bool" where
  "guarded P Q [] = True"
| "guarded P Q (e # es) = (\<not> Q e \<and> (P e \<or> guarded P Q es))"

lemma guarded_append:
  "guarded P Q (xs @ ys) \<longleftrightarrow> guarded P Q xs \<and> ((\<exists>x\<in>set xs. P x) \<or> guarded P Q ys)"
  by (induction xs) auto

lemma guarded_none: "(\<And>x. x \<in> set xs \<Longrightarrow> \<not> Q x) \<Longrightarrow> guarded P Q xs"
  by (induction xs) auto

lemma guarded_fails:
  "\<not> guarded P Q es \<Longrightarrow> \<exists>xs e ys. es = xs @ e # ys \<and> Q e \<and> (\<forall>x\<in>set xs. \<not> P x)"
proof (induction es)
  case (Cons e es)
  show ?case
  proof (cases "Q e")
    case True
    then show ?thesis by (intro exI [of _ "[]"]) simp
  next
    case False
    then obtain xs d ys where "es = xs @ d # ys" "Q d" "\<forall>x\<in>set xs. \<not> P x" "\<not> P e"
      using Cons by auto
    then show ?thesis by (intro exI [of _ "e # xs"] exI [of _ d] exI [of _ ys]) simp
  qed
qed simp

lemma guarded_iff:
  "guarded P Q es \<longleftrightarrow> (\<forall>xs e ys. es = xs @ e # ys \<longrightarrow> Q e \<longrightarrow> (\<exists>x\<in>set xs. P x))"
  using guarded_fails [of P Q es] by (auto simp: guarded_append)

section \<open>Services\<close>

text \<open>A concrete world: what it answers to an action, and how the action changes it.\<close>

locale services =
  fixes serve :: "action \<Rightarrow> 's \<Rightarrow> reply \<times> 's"
  assumes serve_fits: "fits x (fst (serve x s))"

primrec exec :: "(action \<Rightarrow> 's \<Rightarrow> reply \<times> 's) \<Rightarrow> 'a prog \<Rightarrow> 's \<Rightarrow> event list \<times> 'a \<times> 's" where
  "exec serve (Ret a) s = ([], a, s)"
| "exec serve (Act x k) s =
     (case serve x s of (r, s1) \<Rightarrow> (case exec serve (k r) s1 of (es, a, s2) \<Rightarrow> ((x, r) # es, a, s2)))"

lemma exec_bind [run_simps]:
  "exec serve (bind p f) s =
    (case exec serve p s of (es1, a, s1) \<Rightarrow> (case exec serve (f a) s1 of (es2, b, s2) \<Rightarrow> (es1 @ es2, b, s2)))"
  by (induction p arbitrary: s) (auto split: prod.splits)

context services
begin

lemma exec_runs: "exec serve p s = (es, a, s') \<Longrightarrow> runs p es a"
proof (induction p arbitrary: s es)
  case (Act x k)
  obtain r s1 where r: "serve x s = (r, s1)" by (cases "serve x s")
  obtain es1 where es: "exec serve (k r) s1 = (es1, a, s')" "es = (x, r) # es1"
    using Act.prems r by (auto split: prod.splits)
  have "fits x r" using serve_fits [of x s] r by simp
  moreover have "runs (k r) es1 a" using es(1) by (rule Act.IH [OF rangeI])
  ultimately show ?case unfolding es(2) by (rule runs_Act)
qed auto

end

text \<open>
  A world that answers from a script: the next reply if it fits the action, otherwise the
  action's default (output and the like succeed, a request or statement fails). Witnesses
  use it.
\<close>

fun default_reply :: "action \<Rightarrow> reply" where
  "default_reply (Http _ _ _ _) = Failed (Err ''unreachable'')"
| "default_reply (HttpStats _ _) = Failed (Err ''unreachable'')"
| "default_reply (Resolve _) = Failed (Err ''no such host'')"
| "default_reply ReadPassword = Failed (Err ''no terminal'')"
| "default_reply (Query _) = Failed (Err ''unreachable'')"
| "default_reply (Exec _) = Failed (Err ''unreachable'')"
| "default_reply (TxExec _) = Failed (Err ''unreachable'')"
| "default_reply _ = Done"

fun scripted :: "action \<Rightarrow> reply list \<Rightarrow> reply \<times> reply list" where
  "scripted x [] = (default_reply x, [])"
| "scripted x (r # rs) = (if fits x r then (r, rs) else (default_reply x, r # rs))"

interpretation scripted: services scripted
proof
  have "fits x (default_reply x)" for x by (cases x) (auto simp: described_def)
  then show "fits x (fst (scripted x s))" for x s by (cases s) auto
qed

section \<open>Interleaving\<close>

text \<open>
  Several programs against one world, one action at a time: a schedule names the program
  that moves next.
\<close>

fun move :: "(action \<Rightarrow> 's \<Rightarrow> reply \<times> 's) \<Rightarrow> nat \<Rightarrow> 's \<times> 'a prog list \<Rightarrow> 's \<times> 'a prog list" where
  "move serve i (s, ps) =
     (if i < length ps then
        (case ps ! i of
           Ret a \<Rightarrow> (s, ps)
         | Act x k \<Rightarrow> (case serve x s of (r, s') \<Rightarrow> (s', ps[i := k r])))
      else (s, ps))"

fun interleave :: "(action \<Rightarrow> 's \<Rightarrow> reply \<times> 's) \<Rightarrow> nat list \<Rightarrow> 's \<times> 'a prog list \<Rightarrow> 's \<times> 'a prog list" where
  "interleave serve [] c = c"
| "interleave serve (i # is) c = interleave serve is (move serve i c)"

lemma interleave_append: "interleave serve (xs @ ys) c = interleave serve ys (interleave serve xs c)"
  by (induction xs arbitrary: c) auto

end
