(* ===== verification/Database.thy ===== *)
theory Database
  imports Interaction "HOL-Library.List_Lexorder" "HOL-Library.Char_ord" "HOL-Library.Option_ord"
begin

text \<open>
  Package \<^verbatim>\<open>internal/db\<close>: the methods of \<^verbatim>\<open>DB\<close>, each one statement and the scan of its rows;
  and the tables of \<^verbatim>\<open>lierc.sql\<close> with what each SQL statement of the program does to them.
  The methods are programs over whatever the database answers; the tables are one database
  that answers as SQL says, used where a theorem is about the stored data.

  Postgres and pgx are not in the repository: the text of a scan error is theirs (\<open>scan_err\<close>),
  and \<open>ORDER BY\<close> on text compares bytes.
\<close>

section \<open>Rows and scans\<close>

definition scan_err :: goerr where
  "scan_err = Err ''cannot scan''"

fun scan_string :: "cell \<Rightarrow> goerr + string" where
  "scan_string (Text s) = Inr s"
| "scan_string _ = Inl scan_err"

text \<open>Into a \<^verbatim>\<open>*string\<close>: NULL is nil.\<close>

fun scan_nullable :: "cell \<Rightarrow> goerr + string option" where
  "scan_nullable (Text s) = Inr (Some s)"
| "scan_nullable Null = Inr None"
| "scan_nullable _ = Inl scan_err"

text \<open>Into a \<^verbatim>\<open>[]byte\<close>: NULL is the nil slice, which has no bytes.\<close>

fun scan_bytes :: "cell \<Rightarrow> goerr + string" where
  "scan_bytes (Text s) = Inr s"
| "scan_bytes Null = Inr ''''"
| "scan_bytes _ = Inl scan_err"

fun scan_int :: "cell \<Rightarrow> goerr + int" where
  "scan_int (Num n) = Inr n"
| "scan_int _ = Inl scan_err"

fun scan_bool :: "cell \<Rightarrow> goerr + bool" where
  "scan_bool (Bool b) = Inr b"
| "scan_bool _ = Inl scan_err"

text \<open>Two and three columns.\<close>

fun scan1 :: "(cell \<Rightarrow> goerr + 'a) \<Rightarrow> cell list \<Rightarrow> goerr + 'a" where
  "scan1 f [a] = f a"
| "scan1 f _ = Inl scan_err"

fun scan2 :: "(cell \<Rightarrow> goerr + 'a) \<Rightarrow> (cell \<Rightarrow> goerr + 'b) \<Rightarrow> cell list \<Rightarrow> goerr + 'a \<times> 'b" where
  "scan2 f g [a, b] =
     (case f a of Inl e \<Rightarrow> Inl e | Inr x \<Rightarrow> (case g b of Inl e \<Rightarrow> Inl e | Inr y \<Rightarrow> Inr (x, y)))"
| "scan2 f g _ = Inl scan_err"

fun scan3 :: "(cell \<Rightarrow> goerr + 'a) \<Rightarrow> (cell \<Rightarrow> goerr + 'b) \<Rightarrow> (cell \<Rightarrow> goerr + 'c) \<Rightarrow>
    cell list \<Rightarrow> goerr + 'a \<times> 'b \<times> 'c" where
  "scan3 f g h (a # r) =
     (case f a of Inl e \<Rightarrow> Inl e | Inr x \<Rightarrow> (case scan2 g h r of Inl e \<Rightarrow> Inl e | Inr y \<Rightarrow> Inr (x, y)))"
| "scan3 f g h _ = Inl scan_err"

text \<open>\<^verbatim>\<open>QueryRow(...).Scan(...)\<close>: the first row, \<^verbatim>\<open>ErrNoRows\<close> when there is none.\<close>

definition query_row :: "sql \<Rightarrow> (cell list \<Rightarrow> goerr + 'a) \<Rightarrow> (goerr + 'a) prog" where
  "query_row q scan = attempt (query q)
     (\<lambda>rows. Ret (case rows of [] \<Rightarrow> Inl ErrNoRows | row # _ \<Rightarrow> scan row))"

text \<open>\<^verbatim>\<open>for rows.Next() { rows.Scan(...) }\<close>: stops at the first row that does not scan.\<close>

fun scan_rows :: "(cell list \<Rightarrow> goerr + 'a) \<Rightarrow> cell list list \<Rightarrow> goerr + 'a list" where
  "scan_rows scan [] = Inr []"
| "scan_rows scan (r # rs) =
     (case scan r of
        Inl e \<Rightarrow> Inl e
      | Inr x \<Rightarrow> (case scan_rows scan rs of Inl e \<Rightarrow> Inl e | Inr xs \<Rightarrow> Inr (x # xs)))"

definition query_all :: "sql \<Rightarrow> (cell list \<Rightarrow> goerr + 'a) \<Rightarrow> (goerr + 'a list) prog" where
  "query_all q scan = attempt (query q) (\<lambda>rows. Ret (scan_rows scan rows))"

section \<open>The methods of DB\<close>

text \<open>\<^verbatim>\<open>UserState\<close>: whether the user exists, and whether it is unverified.\<close>

definition UserState :: "string \<Rightarrow> (goerr + bool \<times> bool) prog" where
  "UserState uid = bind (query_row (SelectUserState uid) (scan1 scan_bool))
     (\<lambda>r. case r of
        Inl e \<Rightarrow> if e = ErrNoRows then return (False, False) else raise e
      | Inr unverified \<Rightarrow> return (True, unverified))"

definition Connections :: "string \<Rightarrow> (goerr + (string \<times> string) list) prog" where
  "Connections user = query_all (SelectConnections user) (scan2 scan_string scan_bytes)"

text \<open>\<open>None\<close> is \<^verbatim>\<open>ok\<close> false: there is no such connection.\<close>

definition LookupConfig :: "string \<Rightarrow> (goerr + string option) prog" where
  "LookupConfig cid = bind (query_row (SelectConfig cid) (scan1 scan_bytes))
     (\<lambda>r. case r of
        Inl e \<Rightarrow> if e = ErrNoRows then return None else raise e
      | Inr cfg \<Rightarrow> return (Some cfg))"

definition LookupLiercd :: "string \<Rightarrow> (goerr + string) prog" where
  "LookupLiercd cid = bind (query_row (SelectLiercd cid) (scan1 scan_nullable))
     (\<lambda>r. case r of
        Inl e \<Rightarrow> if e = ErrNoRows then return '''' else raise e
      | Inr None \<Rightarrow> return ''''
      | Inr (Some inst) \<Rightarrow> return inst)"

definition LookupOwner :: "string \<Rightarrow> (goerr + string option) prog" where
  "LookupOwner cid = bind (query_row (SelectOwner cid) (scan1 scan_string))
     (\<lambda>r. case r of
        Inl e \<Rightarrow> if e = ErrNoRows then return None else raise e
      | Inr user \<Rightarrow> return (Some user))"

text \<open>The code returns the scanned variable with the error: 0 when there is one.\<close>

definition LatestMessageID :: "string \<Rightarrow> (int \<times> goerr option) prog" where
  "LatestMessageID user = bind (query_row (SelectLatestMessage user) (scan1 scan_int))
     (\<lambda>r. case r of Inl e \<Rightarrow> Ret (0, Some e) | Inr n \<Rightarrow> Ret (n, None))"

definition UpdateConfig :: "string \<Rightarrow> string \<Rightarrow> (goerr + unit) prog" where
  "UpdateConfig cid config = attempt (exec_sql (UpdateConfigStmt config cid)) (\<lambda>_. return ())"

definition SaveLastLogin :: "string \<Rightarrow> (goerr + unit) prog" where
  "SaveLastLogin user = attempt (exec_sql (UpdateLastLogin user)) (\<lambda>_. return ())"

text \<open>\<^verbatim>\<open>SetLiercd\<close>: the empty string is stored as NULL.\<close>

definition SetLiercd :: "string \<Rightarrow> string \<Rightarrow> (goerr + unit) prog" where
  "SetLiercd cid instance =
     attempt (exec_sql (UpdateLiercd cid (if instance \<noteq> '''' then Some instance else None))) (\<lambda>_. return ())"

section \<open>The tables\<close>

record user_row =
  u_id :: string
  u_email :: string
  u_username :: string
  u_verified :: "bool option"
  u_last_login :: "int option"

record connection_row =
  c_id :: string
  c_user :: string
  c_config :: string
  c_liercd :: "string option"

record log_row =
  l_id :: int
  l_connection :: string
  l_user :: string
  l_highlight :: bool

record seen_row =
  s_user :: string
  s_connection :: string
  s_channel :: string

record private_row =
  p_connection :: string
  p_nick :: string

record tables =
  users :: "user_row list"
  connections :: "connection_row list"
  logs :: "log_row list"
  seens :: "seen_row list"
  privates :: "private_row list"
  prefs :: "(string \<times> string) list" \<comment> \<open>user, name\<close>
  web_pushes :: "(string \<times> string) list" \<comment> \<open>user, endpoint\<close>
  clock :: int \<comment> \<open>\<^verbatim>\<open>NOW()\<close>\<close>

definition nullable :: "string option \<Rightarrow> cell" where
  "nullable v = (case v of None \<Rightarrow> Null | Some s \<Rightarrow> Text s)"

definition coalesce :: "string option \<Rightarrow> string" where
  "coalesce v = (case v of None \<Rightarrow> '''' | Some s \<Rightarrow> s)"

definition owner_row :: "tables \<Rightarrow> string \<Rightarrow> user_row option" where
  "owner_row t u = find (\<lambda>r. u_id r = u) (users t)"

definition username_of :: "tables \<Rightarrow> string \<Rightarrow> string option" where
  "username_of t u = map_option u_username (owner_row t u)"

definition by_id :: "connection_row list \<Rightarrow> connection_row list" where
  "by_id = sort_key c_id"

definition exists_connection :: "tables \<Rightarrow> string \<Rightarrow> bool" where
  "exists_connection t c \<longleftrightarrow> (\<exists>r\<in>set (connections t). c_id r = c)"

text \<open>Which rows of a table belong to a connection (\<^verbatim>\<open>connectionWhere\<close>) or a user
  (\<^verbatim>\<open>userTables\<close>'s where clauses).\<close>

fun count_connection_rows :: "tables \<Rightarrow> table \<Rightarrow> string \<Rightarrow> nat" where
  "count_connection_rows t Log c = length (filter (\<lambda>r. l_connection r = c) (logs t))"
| "count_connection_rows t Seen c = length (filter (\<lambda>r. s_connection r = c) (seens t))"
| "count_connection_rows t Private c = length (filter (\<lambda>r. p_connection r = c) (privates t))"
| "count_connection_rows t Connection c = length (filter (\<lambda>r. c_id r = c) (connections t))"
| "count_connection_rows t _ c = 0"

fun delete_connection_rows :: "table \<Rightarrow> string \<Rightarrow> tables \<Rightarrow> tables" where
  "delete_connection_rows Log c t = t\<lparr>logs := filter (\<lambda>r. l_connection r \<noteq> c) (logs t)\<rparr>"
| "delete_connection_rows Seen c t = t\<lparr>seens := filter (\<lambda>r. s_connection r \<noteq> c) (seens t)\<rparr>"
| "delete_connection_rows Private c t = t\<lparr>privates := filter (\<lambda>r. p_connection r \<noteq> c) (privates t)\<rparr>"
| "delete_connection_rows Connection c t = t\<lparr>connections := filter (\<lambda>r. c_id r \<noteq> c) (connections t)\<rparr>"
| "delete_connection_rows _ c t = t"

fun count_user_rows :: "tables \<Rightarrow> table \<Rightarrow> string \<Rightarrow> string list \<Rightarrow> nat" where
  "count_user_rows t Log u cs = length (filter (\<lambda>r. l_connection r \<in> set cs) (logs t))"
| "count_user_rows t Seen u cs = length (filter (\<lambda>r. s_user r = u \<or> s_connection r \<in> set cs) (seens t))"
| "count_user_rows t Private u cs = length (filter (\<lambda>r. p_connection r \<in> set cs) (privates t))"
| "count_user_rows t Pref u cs = length (filter (\<lambda>r. fst r = u) (prefs t))"
| "count_user_rows t WebPush u cs = length (filter (\<lambda>r. fst r = u) (web_pushes t))"
| "count_user_rows t Connection u cs = length (filter (\<lambda>r. c_user r = u) (connections t))"
| "count_user_rows t User u cs = length (filter (\<lambda>r. u_id r = u) (users t))"

fun delete_user_rows :: "table \<Rightarrow> string \<Rightarrow> string list \<Rightarrow> tables \<Rightarrow> tables" where
  "delete_user_rows Log u cs t = t\<lparr>logs := filter (\<lambda>r. l_connection r \<notin> set cs) (logs t)\<rparr>"
| "delete_user_rows Seen u cs t =
     t\<lparr>seens := filter (\<lambda>r. \<not> (s_user r = u \<or> s_connection r \<in> set cs)) (seens t)\<rparr>"
| "delete_user_rows Private u cs t = t\<lparr>privates := filter (\<lambda>r. p_connection r \<notin> set cs) (privates t)\<rparr>"
| "delete_user_rows Pref u cs t = t\<lparr>prefs := filter (\<lambda>r. fst r \<noteq> u) (prefs t)\<rparr>"
| "delete_user_rows WebPush u cs t = t\<lparr>web_pushes := filter (\<lambda>r. fst r \<noteq> u) (web_pushes t)\<rparr>"
| "delete_user_rows Connection u cs t = t\<lparr>connections := filter (\<lambda>r. c_user r \<noteq> u) (connections t)\<rparr>"
| "delete_user_rows User u cs t = t\<lparr>users := filter (\<lambda>r. u_id r \<noteq> u) (users t)\<rparr>"

definition max_id :: "log_row list \<Rightarrow> int" where
  "max_id ls = (if ls = [] then 0 else Max (l_id ` set ls))"

definition on_instance :: "tables \<Rightarrow> string \<Rightarrow> connection_row list" where
  "on_instance t stored = filter (\<lambda>r. coalesce (c_liercd r) = stored) (connections t)"

text \<open>
  Connections of users whose last login is NULL or before the cutoff, in the order
  \<^verbatim>\<open>last_login NULLS FIRST, user id, connection id\<close> (stable sorts, last key first).
\<close>

definition inactive_connections :: "tables \<Rightarrow> int \<Rightarrow> (connection_row \<times> user_row) list" where
  "inactive_connections t cutoff =
     sort_key (\<lambda>(c, u). u_last_login u) (sort_key (\<lambda>(c, u). u_id u) (sort_key (\<lambda>(c, u). c_id c)
       (List.map_filter (\<lambda>c. case owner_row t (c_user c) of
            None \<Rightarrow> None
          | Some u \<Rightarrow> (case u_last_login u of
                None \<Rightarrow> Some (c, u)
              | Some l \<Rightarrow> if l < cutoff then Some (c, u) else None)) (connections t))))"

text \<open>What a query answers (a statement that is no query has no rows).\<close>

fun answer :: "sql \<Rightarrow> tables \<Rightarrow> cell list list" where
  "answer (SelectUserState u) t =
     map (\<lambda>r. [Bool (u_verified r = Some False)]) (filter (\<lambda>r. u_id r = u) (users t))"
| "answer (SelectConnections u) t =
     map (\<lambda>r. [Text (c_id r), Text (c_config r)]) (filter (\<lambda>r. c_user r = u) (connections t))"
| "answer (SelectConfig c) t = map (\<lambda>r. [Text (c_config r)]) (filter (\<lambda>r. c_id r = c) (connections t))"
| "answer (SelectLiercd c) t = map (\<lambda>r. [nullable (c_liercd r)]) (filter (\<lambda>r. c_id r = c) (connections t))"
| "answer (SelectOwner c) t = map (\<lambda>r. [Text (c_user r)]) (filter (\<lambda>r. c_id r = c) (connections t))"
| "answer (SelectLatestMessage u) t =
     [[Num (max (max_id (filter (\<lambda>r. l_user r = u \<and> l_highlight r) (logs t)))
                (max_id (filter (\<lambda>r. l_user r = u \<and> \<not> l_highlight r) (logs t))))]]"
| "answer (SelectConnectionsOn stored) t =
     map (\<lambda>r. [Text (c_id r), Text (coalesce (username_of t (c_user r)))]) (by_id (on_instance t stored))"
| "answer (SelectRevive secs instance stored) t =
     map (\<lambda>r. [Text (c_id r), Text (c_config r)])
       (by_id (filter (\<lambda>r. (case owner_row t (c_user r) of
            None \<Rightarrow> False
          | Some u \<Rightarrow> (case u_last_login u of None \<Rightarrow> False | Some l \<Rightarrow> l > clock t - secs)) \<and>
          (instance = '''' \<or> coalesce (c_liercd r) = stored)) (connections t)))"
| "answer (SelectConnectionOwner c) t =
     map (\<lambda>r. [Text (c_user r), Text (c_config r), nullable (username_of t (c_user r))])
       (filter (\<lambda>r. c_id r = c) (connections t))"
| "answer (CountConnectionRows tab c) t = [[Num (int (count_connection_rows t tab c))]]"
| "answer (SelectUser u) t =
     map (\<lambda>r. [Text (u_username r), Text (u_email r)]) (filter (\<lambda>r. u_id r = u) (users t))"
| "answer (SelectUserConnections u) t =
     map (\<lambda>r. [Text (c_id r)]) (by_id (filter (\<lambda>r. c_user r = u) (connections t)))"
| "answer (CountUserRows tab u cs) t = [[Num (int (count_user_rows t tab u cs))]]"
| "answer SelectMaxLog t = [[Num (max_id (logs t))]]"
| "answer CountOrphanLog t =
     [[Num (int (length (filter (\<lambda>r. \<not> exists_connection t (l_connection r)) (logs t))))]]"
| "answer SelectOrphanLogConnections t =
     map (\<lambda>c. [Text c]) (remdups (map l_connection (filter (\<lambda>r. \<not> exists_connection t (l_connection r)) (logs t))))"
| "answer SelectAllConfigs t =
     map (\<lambda>r. [Text (c_id r), Text (coalesce (username_of t (c_user r))), Text (c_config r)]) (by_id (connections t))"
| "answer (SelectInactive cutoff) t =
     map (\<lambda>(c, u). [Text (c_id c), Text (coalesce (c_liercd c)), Text (c_config c), Text (u_id u), Text (u_username u)])
       (inactive_connections t cutoff)"
| "answer _ t = []"

text \<open>Deleting at most \<open>n\<close> elements that satisfy \<open>P\<close>, the first ones.\<close>

fun drop_first :: "nat \<Rightarrow> ('a \<Rightarrow> bool) \<Rightarrow> 'a list \<Rightarrow> 'a list" where
  "drop_first n P [] = []"
| "drop_first n P (x # xs) =
     (if P x then (case n of 0 \<Rightarrow> x # xs | Suc m \<Rightarrow> drop_first m P xs) else x # drop_first n P xs)"

text \<open>What a statement changes, and how many rows it affects.\<close>

fun update_rows :: "('a \<Rightarrow> bool) \<Rightarrow> ('a \<Rightarrow> 'a) \<Rightarrow> 'a list \<Rightarrow> nat \<times> 'a list" where
  "update_rows P f xs = (length (filter P xs), map (\<lambda>x. if P x then f x else x) xs)"

fun execute :: "sql \<Rightarrow> tables \<Rightarrow> nat \<times> tables" where
  "execute (UpdateConfigStmt cfg c) t =
     (case update_rows (\<lambda>r. c_id r = c) (\<lambda>r. r\<lparr>c_config := cfg\<rparr>) (connections t) of
        (n, rs) \<Rightarrow> (n, t\<lparr>connections := rs\<rparr>))"
| "execute (UpdateLastLogin u) t =
     (case update_rows (\<lambda>r. u_id r = u) (\<lambda>r. r\<lparr>u_last_login := Some (clock t)\<rparr>) (users t) of
        (n, rs) \<Rightarrow> (n, t\<lparr>users := rs\<rparr>))"
| "execute (UpdateLiercd c inst) t =
     (case update_rows (\<lambda>r. c_id r = c) (\<lambda>r. r\<lparr>c_liercd := inst\<rparr>) (connections t) of
        (n, rs) \<Rightarrow> (n, t\<lparr>connections := rs\<rparr>))"
| "execute (UpdateConfigIf c new old) t =
     (case update_rows (\<lambda>r. c_id r = c \<and> c_config r = old) (\<lambda>r. r\<lparr>c_config := new\<rparr>) (connections t) of
        (n, rs) \<Rightarrow> (n, t\<lparr>connections := rs\<rparr>))"
| "execute (DeleteConnectionRows tab c) t = (count_connection_rows t tab c, delete_connection_rows tab c t)"
| "execute (DeleteUserRows tab u cs) t = (count_user_rows t tab u cs, delete_user_rows tab u cs t)"
| "execute (DeleteLateLog cs) t =
     (count_user_rows t Log '''' cs, delete_user_rows Log '''' cs t)"
| "execute (DeleteLateUserLog n cs) t =
     (length (filter (\<lambda>r. l_id r > n \<and> l_connection r \<in> set cs) (logs t)),
      t\<lparr>logs := filter (\<lambda>r. \<not> (l_id r > n \<and> l_connection r \<in> set cs)) (logs t)\<rparr>)"
| "execute (DeleteOrphanBatch c n) t =
     (if exists_connection t c then (0, t)
      else (min n (count_connection_rows t Log c), t\<lparr>logs := drop_first n (\<lambda>r. l_connection r = c) (logs t)\<rparr>))"
| "execute _ t = (0, t)"

end
