(* ===== verification/Liercd.thy ===== *)
theory Liercd
  imports Database
begin

text \<open>
  Package \<^verbatim>\<open>internal/liercd\<close>, the HTTP client of the liercd daemon: which instance a request
  goes to (\<open>base\<close>, \<open>For\<close>), sending it (\<open>Do\<close>), and \<open>FindOrRecreate\<close>. The lemmas describe the
  runs of each; the properties say that routing never falls back to the wrong instance, and
  when a connection is re-created.
\<close>

section \<open>The standard library's part\<close>

text \<open>\<^verbatim>\<open>net.SplitHostPort\<close>: \<open>None\<close> is its error.\<close>

definition last_colon :: "string \<Rightarrow> (string \<times> string) option" where
  "last_colon s = (if CHR '':'' \<in> set s
     then Some (rev (tl (dropWhile (\<lambda>c. c \<noteq> CHR '':'') (rev s))), rev (takeWhile (\<lambda>c. c \<noteq> CHR '':'') (rev s)))
     else None)"

definition SplitHostPort :: "string \<Rightarrow> (string \<times> string) option" where
  "SplitHostPort hostport = (case last_colon hostport of
     None \<Rightarrow> None
   | Some (h, p) \<Rightarrow>
       if h \<noteq> '''' \<and> hd h = CHR ''['' then
         (if last h = CHR '']'' \<and> CHR '']'' \<notin> set (butlast h) \<and> CHR ''['' \<notin> set (tl h @ p) \<and> CHR '']'' \<notin> set p
          then Some (butlast (tl h), p) else None)
       else if CHR '':'' \<in> set h \<or> CHR ''['' \<in> set (h @ p) \<or> CHR '']'' \<in> set (h @ p) then None
       else Some (h, p))"

text \<open>\<^verbatim>\<open>http.StatusText\<close>, empty for a code it does not know.\<close>

definition StatusText :: "nat \<Rightarrow> string" where
  "StatusText code = (case map_of [
     (100, ''Continue''), (101, ''Switching Protocols''), (102, ''Processing''), (103, ''Early Hints''),
     (200, ''OK''), (201, ''Created''), (202, ''Accepted''), (203, ''Non-Authoritative Information''),
     (204, ''No Content''), (205, ''Reset Content''), (206, ''Partial Content''), (207, ''Multi-Status''),
     (208, ''Already Reported''), (226, ''IM Used''),
     (300, ''Multiple Choices''), (301, ''Moved Permanently''), (302, ''Found''), (303, ''See Other''),
     (304, ''Not Modified''), (305, ''Use Proxy''), (307, ''Temporary Redirect''), (308, ''Permanent Redirect''),
     (400, ''Bad Request''), (401, ''Unauthorized''), (402, ''Payment Required''), (403, ''Forbidden''),
     (404, ''Not Found''), (405, ''Method Not Allowed''), (406, ''Not Acceptable''),
     (407, ''Proxy Authentication Required''), (408, ''Request Timeout''), (409, ''Conflict''), (410, ''Gone''),
     (411, ''Length Required''), (412, ''Precondition Failed''), (413, ''Request Entity Too Large''),
     (414, ''Request URI Too Long''), (415, ''Unsupported Media Type''),
     (416, ''Requested Range Not Satisfiable''), (417, ''Expectation Failed''), (418, ''I'' @ [CHR 0x27] @ ''m a teapot''),
     (421, ''Misdirected Request''), (422, ''Unprocessable Entity''), (423, ''Locked''),
     (424, ''Failed Dependency''), (425, ''Too Early''), (426, ''Upgrade Required''),
     (428, ''Precondition Required''), (429, ''Too Many Requests''), (431, ''Request Header Fields Too Large''),
     (451, ''Unavailable For Legal Reasons''),
     (500, ''Internal Server Error''), (501, ''Not Implemented''), (502, ''Bad Gateway''),
     (503, ''Service Unavailable''), (504, ''Gateway Timeout''), (505, ''HTTP Version Not Supported''),
     (506, ''Variant Also Negotiates''), (507, ''Insufficient Storage''), (508, ''Loop Detected''),
     (510, ''Not Extended''), (511, ''Network Authentication Required'')] code of
   None \<Rightarrow> '''' | Some t \<Rightarrow> t)"

text \<open>
  \<^verbatim>\<open>%q\<close>, for error texts: ASCII as \<^verbatim>\<open>strconv.Quote\<close> writes it, a byte from 128 up always as
  \<^verbatim>\<open>\x\<close> and two digits (Go writes printable UTF-8 as it is).
\<close>

definition hex_digit :: "nat \<Rightarrow> char" where
  "hex_digit n = ''0123456789abcdef'' ! n"

definition quote_char :: "char \<Rightarrow> string" where
  "quote_char c = (let n = byte c in
     if n = 34 then [CHR 0x5C, CHR 0x22] else if n = 92 then [CHR 0x5C, CHR 0x5C]
     else if 32 \<le> n \<and> n < 127 then [c]
     else if 7 \<le> n \<and> n \<le> 13 then [CHR 0x5C, ''abtnvfr'' ! (n - 7)]
     else [CHR 0x5C, CHR ''x'', hex_digit (n div 16), hex_digit (n mod 16)])"

definition quote :: "string \<Rightarrow> string" where
  "quote s = [CHR 0x22] @ concat (map quote_char s) @ [CHR 0x22]"

section \<open>The client\<close>

text \<open>\<^verbatim>\<open>Client\<close>, less its \<^verbatim>\<open>http.Client\<close>; \<open>instanceOf\<close> is \<open>None\<close> for nil.\<close>

record client =
  BaseURL :: string
  nextURL :: string
  instanceOf :: "(string \<Rightarrow> (goerr + string) prog) option"

record instances =
  Main :: string
  Next :: string

definition baseURL :: "string \<Rightarrow> string" where
  "baseURL host = (case SplitHostPort host of
     Some _ \<Rightarrow> ''http://'' @ host
   | None \<Rightarrow> ''http://'' @ host @ '':5005'')"

definition New :: "string \<Rightarrow> client" where
  "New host = \<lparr>BaseURL = baseURL host, nextURL = '''', instanceOf = None\<rparr>"

definition newRoutedBase :: "string \<Rightarrow> string \<Rightarrow> (string \<Rightarrow> (goerr + string) prog) \<Rightarrow> client" where
  "newRoutedBase mainBase nextBase f =
     (New '''')\<lparr>BaseURL := mainBase, nextURL := nextBase, instanceOf := Some f\<rparr>"

definition NewRouted :: "instances \<Rightarrow> (string \<Rightarrow> (goerr + string) prog) \<Rightarrow> client" where
  "NewRouted hosts f =
     newRoutedBase (baseURL (Main hosts)) (if Next hosts \<noteq> '''' then baseURL (Next hosts) else '''') f"

definition no_next_host :: goerr where
  "no_next_host = Err (''liercd instance '' @ quote ''next'' @ '' has no host (LIERCD_NEXT_HOST)'')"

definition unknown_instance :: "string \<Rightarrow> goerr" where
  "unknown_instance inst = Err (''unknown liercd instance '' @ quote inst)"

definition base :: "client \<Rightarrow> string \<Rightarrow> (goerr + string) prog" where
  "base c path = (case instanceOf c of
     None \<Rightarrow> return (BaseURL c)
   | Some f \<Rightarrow>
       (case cut path CHR ''/'' of (id', _, _) \<Rightarrow>
          if id' = '''' then return (BaseURL c)
          else attempt (f id') (\<lambda>inst.
            if inst = '''' then return (BaseURL c)
            else if inst = ''next'' then
              (if nextURL c = '''' then raise no_next_host else return (nextURL c))
            else raise (unknown_instance inst))))"

text \<open>\<open>For\<close>: a client pinned to an instance (\<open>next\<close>'s base URL replaces main's).\<close>

definition For :: "client \<Rightarrow> string \<Rightarrow> goerr + client" where
  "For c instance =
     (if instance = ''main'' then Inr \<lparr>BaseURL = BaseURL c, nextURL = '''', instanceOf = None\<rparr>
      else if instance = ''next'' then
        (if nextURL c = '''' then Inl no_next_host
         else Inr \<lparr>BaseURL = nextURL c, nextURL = '''', instanceOf = None\<rparr>)
      else Inl (unknown_instance instance))"

fun trimSlash :: "string \<Rightarrow> string" where
  "trimSlash [] = []"
| "trimSlash (x # xs) = (if x = CHR ''/'' then trimSlash xs else x # xs)"

definition Do :: "client \<Rightarrow> meth \<Rightarrow> string \<Rightarrow> string option \<Rightarrow> (goerr + response) prog" where
  "Do c m path body = (let path = trimSlash path in attempt (base c path) (\<lambda>b. http b m path body))"

definition statusLine :: "nat \<Rightarrow> string" where
  "statusLine code = show_nat code @ '' '' @ StatusText code"

definition FindOrRecreate :: "client \<Rightarrow> string \<Rightarrow> (goerr + string) prog" where
  "FindOrRecreate c cid =
     attempt (LookupConfig cid) (\<lambda>r. case r of
       None \<Rightarrow> raise (Err ''Connection does not exist'')
     | Some config \<Rightarrow>
         attempt (Do c GET (cid @ ''/status'') None) (\<lambda>res.
         if Status res = 200 then return (Body res) else
         attempt (Do c POST (cid @ ''/create'') (Some config)) (\<lambda>res.
         if Status res \<noteq> 200 then raise (Err (''Unable to create new connection: '' @ statusLine (Status res))) else
         attempt (Do c GET (cid @ ''/status'') None) (\<lambda>res.
         if Status res \<noteq> 200 then raise (Err (''Unable to create new connection: '' @ statusLine (Status res)))
         else return (Body res)))))"

section \<open>Lemmas\<close>

lemma trimSlash_no_slash: "trimSlash s = [] \<or> hd (trimSlash s) \<noteq> CHR ''/''"
  by (induction s) auto

lemma trimSlash_id: "hd s \<noteq> CHR ''/'' \<Longrightarrow> trimSlash s = s"
  by (cases s) auto

lemma For_pinned: "For c inst = Inr d \<Longrightarrow> instanceOf d = None"
  by (auto simp: For_def split: if_splits)

lemma For_iff:
  "For c inst = Inr d \<longleftrightarrow>
     (inst = ''main'' \<and> d = \<lparr>BaseURL = BaseURL c, nextURL = '''', instanceOf = None\<rparr>) \<or>
     (inst = ''next'' \<and> nextURL c \<noteq> '''' \<and> d = \<lparr>BaseURL = nextURL c, nextURL = '''', instanceOf = None\<rparr>)"
  by (auto simp: For_def)

lemma attempt_return [simp]: "attempt (return a) k = k a"
  by (simp add: attempt_def)

lemma attempt_raise [simp]: "attempt (raise e) k = raise e"
  by (simp add: attempt_def)

lemma Do_pinned [simp]: "instanceOf c = None \<Longrightarrow> Do c m p body = http (BaseURL c) m (trimSlash p) body"
  by (simp add: Do_def base_def)

lemma NewRouted_simps [simp]:
  "BaseURL (NewRouted hosts f) = baseURL (Main hosts)"
  "nextURL (NewRouted hosts f) = (if Next hosts = '''' then '''' else baseURL (Next hosts))"
  "instanceOf (NewRouted hosts f) = Some f"
  by (simp_all add: NewRouted_def newRoutedBase_def New_def)

lemma baseURL_not_Nil [simp]: "baseURL host \<noteq> ''''"
  by (simp add: baseURL_def split: option.splits)

text \<open>The connection id a path is routed by.\<close>

definition routed_id :: "string \<Rightarrow> string" where
  "routed_id path = takeWhile (\<lambda>c. c \<noteq> CHR ''/'') (trimSlash path)"

definition instance_base :: "instances \<Rightarrow> string \<Rightarrow> string option" where
  "instance_base hosts inst =
     (if inst = '''' then Some (baseURL (Main hosts))
      else if inst = ''next'' \<and> Next hosts \<noteq> '''' then Some (baseURL (Next hosts)) else None)"

lemma base_NewRouted:
  "base (NewRouted hosts f) (trimSlash path) =
    (if routed_id path = '''' then return (baseURL (Main hosts))
     else attempt (f (routed_id path)) (\<lambda>inst. case instance_base hosts inst of
       Some b \<Rightarrow> return b
     | None \<Rightarrow> raise (if inst = ''next'' then no_next_host else unknown_instance inst)))"
proof -
  have k: "(if inst = '''' then return B else if inst = ''next'' then
              (if N = '''' then raise no_next_host else return N) else raise (unknown_instance inst)) =
      (case (if inst = '''' then Some B else if inst = ''next'' \<and> Next hosts \<noteq> '''' then Some N else None) of
         Some b \<Rightarrow> return b
       | None \<Rightarrow> raise (if inst = ''next'' then no_next_host else unknown_instance inst))"
    if "N = '''' \<longleftrightarrow> Next hosts = ''''" for inst B N
    using that by auto
  show ?thesis
    unfolding base_def cut_def NewRouted_simps option.case prod.case routed_id_def instance_base_def
    by (subst k) (auto intro!: arg_cong2 [where f = attempt])
qed

text \<open>Kinds of events.\<close>

fun is_query :: "action \<Rightarrow> bool" where
  "is_query (Query _) = True"
| "is_query _ = False"

fun is_http :: "action \<Rightarrow> bool" where
  "is_http (Http _ _ _ _) = True"
| "is_http _ = False"

fun requests :: "meth \<Rightarrow> string \<Rightarrow> event \<Rightarrow> bool" where
  "requests m p (Http b m' p' body, r) = (m' = m \<and> p' = p)"
| "requests m p _ = False"

fun answered :: "(nat \<Rightarrow> bool) \<Rightarrow> event \<Rightarrow> bool" where
  "answered S (x, Responded res) = S (Status res)"
| "answered S _ = False"

lemma requests_iff: "requests m p e \<longleftrightarrow> (\<exists>b body r. e = (Http b m p body, r))"
  by (cases "(m, p, e)" rule: requests.cases) auto

lemma runs_attempt_Ret:
  "runs (attempt p (\<lambda>a. Ret (f a))) es b \<longleftrightarrow>
     (\<exists>e. runs p es (Inl e) \<and> b = Inl e) \<or> (\<exists>a. runs p es (Inr a) \<and> b = f a)"
  by (auto simp: runs_attempt)

lemma runs_bind_Ret:
  assumes "\<And>a. \<exists>b. k a = Ret b" "runs (bind p k) es b"
  shows "\<exists>a. runs p es a \<and> k a = Ret b"
proof -
  obtain es1 a es2 where *: "es = es1 @ es2" "runs p es1 a" "runs (k a) es2 b"
    using assms(2) unfolding runs_bind by blast
  obtain b' where "k a = Ret b'" using assms(1) by blast
  with * show ?thesis by auto
qed

lemma ex_list: "(\<exists>xs. P xs) \<longleftrightarrow> P [] \<or> (\<exists>x xs. P (x # xs))"
  by (metis list.exhaust)

lemma runs_query_row:
  "runs (query_row q scan) es r \<longleftrightarrow>
     (\<exists>e. described e \<and> es = [(Query q, Failed e)] \<and> r = Inl e) \<or>
     es = [(Query q, Rows [])] \<and> r = Inl ErrNoRows \<or>
     (\<exists>row rows. es = [(Query q, Rows (row # rows))] \<and> r = scan row)"
proof -
  have "(\<exists>rows. es = [(Query q, Rows rows)] \<and> r = (case rows of [] \<Rightarrow> Inl ErrNoRows | row # _ \<Rightarrow> scan row)) \<longleftrightarrow>
      es = [(Query q, Rows [])] \<and> r = Inl ErrNoRows \<or>
      (\<exists>row rows. es = [(Query q, Rows (row # rows))] \<and> r = scan row)"
    by (subst ex_list) simp
  moreover have "runs (query_row q scan) es r \<longleftrightarrow> (\<exists>e. described e \<and> es = [(Query q, Failed e)] \<and> r = Inl e) \<or>
      (\<exists>rows. es = [(Query q, Rows rows)] \<and> r = (case rows of [] \<Rightarrow> Inl ErrNoRows | row # _ \<Rightarrow> scan row))"
    unfolding query_row_def runs_attempt_Ret runs_query by auto
  ultimately show ?thesis by blast
qed

lemma scan1_nullable_err: "scan1 scan_nullable row = Inl e \<Longrightarrow> e = scan_err"
  by (cases row; cases "tl row"; cases "hd row") auto

lemma described_simps [simp]:
  "described scan_err" "described ErrNoRows" "described no_next_host" "described (unknown_instance inst)"
  "described (Err (x # s))"
  by (simp_all add: described_def scan_err_def no_next_host_def unknown_instance_def)

lemma runs_LookupLiercd:
  assumes "runs (LookupLiercd i) es r"
  shows "\<exists>rep. es = [(Query (SelectLiercd i), rep)] \<and> (\<forall>e. r = Inl e \<longrightarrow> described e)"
proof -
  obtain a where "runs (query_row (SelectLiercd i) (scan1 scan_nullable)) es a"
    and "\<forall>e. r = Inl e \<longrightarrow> a = Inl e"
    using assms unfolding LookupLiercd_def
    by (rule runs_bind_Ret [THEN exE, rotated]) (auto split: sum.splits option.splits if_splits)
  moreover have "described e" if "scan1 scan_nullable row = Inl e" for row e
    using scan1_nullable_err [OF that] by simp
  ultimately show ?thesis by (fastforce simp: runs_query_row)
qed

lemma runs_LookupConfig:
  assumes "runs (LookupConfig i) es r"
  shows "\<exists>rep. es = [(Query (SelectConfig i), rep)] \<and>
     (r = Inr None \<longrightarrow> rep = Rows [] \<or> rep = Failed ErrNoRows \<or> (\<exists>row rows. rep = Rows (row # rows))) \<and>
     (\<forall>config. r = Inr (Some config) \<longrightarrow> (\<exists>row rows. rep = Rows (row # rows) \<and> scan1 scan_bytes row = Inr config))"
proof -
  obtain a where a: "runs (query_row (SelectConfig i) (scan1 scan_bytes)) es a"
    and r: "r = (case a of Inl e \<Rightarrow> if e = ErrNoRows then Inr None else Inl e | Inr cfg \<Rightarrow> Inr (Some cfg))"
    using assms unfolding LookupConfig_def
    by (rule runs_bind_Ret [THEN exE, rotated]) (auto split: sum.splits if_splits)
  from a show ?thesis unfolding r
    by (auto simp: runs_query_row split: sum.split)
qed

section \<open>Routing\<close>

text \<open>
  What the client relies on: looking up a connection's instance only reads the database, and
  its errors have a text.
\<close>

locale instance_lookup =
  fixes look :: "string \<Rightarrow> (goerr + string) prog"
  assumes look_reads: "runs (look i) es r \<Longrightarrow> e \<in> set es \<Longrightarrow> is_query (fst e)"
    and look_described: "runs (look i) es (Inl err) \<Longrightarrow> described err"
begin

lemma look_all: "runs (look i) es r \<Longrightarrow> \<forall>e\<in>set es. is_query (fst e)"
  using look_reads by blast

lemma runs_Do:
  "runs (Do (NewRouted hosts look) m path body) es r \<longleftrightarrow>
     (if routed_id path = '''' then runs (http (baseURL (Main hosts)) m (trimSlash path) body) es r
      else (\<exists>e. runs (look (routed_id path)) es (Inl e) \<and> r = Inl e) \<or>
           (\<exists>inst. runs (look (routed_id path)) es (Inr inst) \<and> instance_base hosts inst = None \<and>
              r = Inl (if inst = ''next'' then no_next_host else unknown_instance inst)) \<or>
           (\<exists>es1 inst b rep. es = es1 @ [(Http b m (trimSlash path) body, rep)] \<and>
              runs (look (routed_id path)) es1 (Inr inst) \<and> instance_base hosts inst = Some b \<and>
              ((\<exists>e. described e \<and> rep = Failed e \<and> r = Inl e) \<or> (\<exists>x. rep = Responded x \<and> r = Inr x))))"
proof (cases "routed_id path = ''''")
  case True
  then show ?thesis by (simp add: Do_def base_NewRouted)
next
  case False
  have split: "runs (case instance_base hosts i of None \<Rightarrow> raise e | Some b \<Rightarrow> return b) xs a \<longleftrightarrow>
      xs = [] \<and> (case instance_base hosts i of None \<Rightarrow> a = Inl e | Some b \<Rightarrow> a = Inr b)" for i e xs a
    by (cases "instance_base hosts i") auto
  have base: "runs (attempt (look i) (\<lambda>inst. case instance_base hosts inst of None \<Rightarrow> raise (E inst) | Some b \<Rightarrow> return b)) xs a \<longleftrightarrow>
      (\<exists>e. runs (look i) xs (Inl e) \<and> a = Inl e) \<or>
      (\<exists>inst. runs (look i) xs (Inr inst) \<and> instance_base hosts inst = None \<and> a = Inl (E inst)) \<or>
      (\<exists>inst b. runs (look i) xs (Inr inst) \<and> instance_base hosts inst = Some b \<and> a = Inr b)" for i E xs a
    unfolding runs_attempt split by (auto split: option.splits)
  show ?thesis
    unfolding Do_def Let_def base_NewRouted if_not_P [OF False] runs_attempt [of "attempt _ _"] base runs_http
    by blast
qed

lemma Do_events:
  assumes "runs (Do (NewRouted hosts look) m path body) es r"
  obtains (unsent) e where "\<forall>e\<in>set es. is_query (fst e)" "r = Inl e" "described e"
  | (failed) es1 b e where "\<forall>e\<in>set es1. is_query (fst e)" "es = es1 @ [(Http b m (trimSlash path) body, Failed e)]"
      "r = Inl e" "described e"
  | (responded) es1 b x where "\<forall>e\<in>set es1. is_query (fst e)"
      "es = es1 @ [(Http b m (trimSlash path) body, Responded x)]" "r = Inr x"
proof (cases "routed_id path = ''''")
  case True
  show thesis
    using assms failed [of "[]"] responded [of "[]"] by (auto simp: runs_Do True runs_http)
next
  case False
  show thesis
    using assms unfolding runs_Do if_not_P [OF False]
  proof (elim disjE exE conjE)
    fix e assume "runs (look (routed_id path)) es (Inl e)" "r = Inl e"
    then show thesis by (intro unsent look_all look_described)
  next
    fix inst assume "runs (look (routed_id path)) es (Inr inst)"
      "r = Inl (if inst = ''next'' then no_next_host else unknown_instance inst)"
    then show thesis by (intro unsent [OF look_all]) (assumption, assumption, simp)
  next
    fix es1 inst b rep e assume "es = es1 @ [(Http b m (trimSlash path) body, rep)]"
      "runs (look (routed_id path)) es1 (Inr inst)" "described e" "rep = Failed e" "r = Inl e"
    then show thesis by (intro failed [of es1 b e] look_all) simp_all
  next
    fix es1 inst b rep x assume "es = es1 @ [(Http b m (trimSlash path) body, rep)]"
      "runs (look (routed_id path)) es1 (Inr inst)" "rep = Responded x" "r = Inr x"
    then show thesis by (intro responded [of es1 b x] look_all) simp_all
  qed
qed

lemma routes:
  assumes "runs (Do (NewRouted hosts look) m path body) es r" "(Http b m' p' body', rep) \<in> set es"
  shows "(m', p', body') = (m, trimSlash path, body) \<and>
     (if routed_id path = '''' then b = baseURL (Main hosts) \<and> es = [(Http b m' p' body', rep)]
      else (\<exists>es1 inst. es = es1 @ [(Http b m' p' body', rep)] \<and> runs (look (routed_id path)) es1 (Inr inst) \<and>
             instance_base hosts inst = Some b))"
  using assms look_reads [of "routed_id path"]
  by (fastforce simp: runs_Do runs_http split: if_splits)

end

interpretation lookup: instance_lookup LookupLiercd
  by unfold_locales (auto dest: runs_LookupLiercd)

lemma wp_query_row [wp_simps]:
  "wp (query_row q scan) Q h \<longleftrightarrow>
     (\<forall>e. described e \<longrightarrow> Q (h @ [(Query q, Failed e)]) (Inl e)) \<and> Q (h @ [(Query q, Rows [])]) (Inl ErrNoRows) \<and>
     (\<forall>row rows. Q (h @ [(Query q, Rows (row # rows))]) (scan row))"
  unfolding wp_iff runs_query_row by blast

lemma wp_query_all [wp_simps]:
  "wp (query_all q scan) Q h \<longleftrightarrow>
     (\<forall>e. described e \<longrightarrow> Q (h @ [(Query q, Failed e)]) (Inl e)) \<and>
     (\<forall>rows. Q (h @ [(Query q, Rows rows)]) (scan_rows scan rows))"
  unfolding wp_iff query_all_def runs_attempt_Ret runs_query by auto

lemma wp_LookupConfig:
  assumes "\<And>rep e. Q (h @ [(Query (SelectConfig i), rep)]) (Inl e)"
    "\<And>rep. Q (h @ [(Query (SelectConfig i), rep)]) (Inr None)"
    "\<And>row rows config. scan1 scan_bytes row = Inr config \<Longrightarrow>
       Q (h @ [(Query (SelectConfig i), Rows (row # rows))]) (Inr (Some config))"
  shows "wp (LookupConfig i) Q h"
  unfolding LookupConfig_def by (simp add: wp_simps assms)

lemma wp_LookupLiercd:
  assumes "\<And>rep r. Q (h @ [(Query (SelectLiercd i), rep)]) r"
  shows "wp (LookupLiercd i) Q h"
  unfolding LookupLiercd_def by (simp add: wp_simps assms)

lemma wp_SetLiercd [wp_simps]:
  "wp (SetLiercd i inst) Q h \<longleftrightarrow>
     (\<forall>e. described e \<longrightarrow> Q (h @ [(Exec (UpdateLiercd i (if inst \<noteq> '''' then Some inst else None)), Failed e)]) (Inl e)) \<and>
     (\<forall>n. Q (h @ [(Exec (UpdateLiercd i (if inst \<noteq> '''' then Some inst else None)), Affected n)]) (Inr ()))"
  unfolding SetLiercd_def by (simp add: wp_simps)

section \<open>Re-creating a connection\<close>

definition queries :: "event list \<Rightarrow> bool" where
  "queries es \<longleftrightarrow> (\<forall>e\<in>set es. is_query (fst e))"

lemma wp_opened:
  "\<exists>x\<in>set h. P x \<Longrightarrow> guarded P Q h \<Longrightarrow> wp p (\<lambda>es r. guarded P Q es) h"
  by (simp add: wp_iff guarded_append)

lemma queries_Cons [simp]: "queries [(Query q, rep)]" "queries []"
  by (simp_all add: queries_def)

lemma guarded_queries [simp]:
  assumes "queries es" "\<And>q rep. \<not> P (Query q, rep)" "\<And>q rep. \<not> Q (Query q, rep)"
  shows "guarded P Q (es @ ys) = guarded P Q ys" "guarded P Q es"
proof -
  have "\<not> P e \<and> \<not> Q e" if "e \<in> set es" for e
  proof -
    have "is_query (fst e)" using that assms(1) by (simp add: queries_def)
    then obtain q where "fst e = Query q" by (elim is_query.elims) simp
    then have "e = (Query q, snd e)" by (simp add: prod_eq_iff)
    then show ?thesis using assms(2,3) by metis
  qed
  then show "guarded P Q (es @ ys) = guarded P Q ys" "guarded P Q es"
    by (auto simp: guarded_append guarded_none)
qed

context instance_lookup
begin

lemma wp_Do:
  assumes "\<And>es e. queries es \<Longrightarrow> described e \<Longrightarrow> Q (h @ es) (Inl e)"
    "\<And>es b e. queries es \<Longrightarrow> described e \<Longrightarrow> Q (h @ es @ [(Http b m (trimSlash path) body, Failed e)]) (Inl e)"
    "\<And>es b x. queries es \<Longrightarrow> Q (h @ es @ [(Http b m (trimSlash path) body, Responded x)]) (Inr x)"
  shows "wp (Do (NewRouted hosts look) m path body) Q h"
  unfolding wp_iff
proof (intro allI impI)
  fix es a assume "runs (Do (NewRouted hosts look) m path body) es a"
  then show "Q (h @ es) a" by (cases rule: Do_events) (use assms in \<open>auto simp: queries_def\<close>)
qed

text \<open>
  \<open>FindOrRecreate\<close>: a create is posted only after a status request was answered with
  something else than 200, and with the config that was read.
\<close>

lemma recreate_guarded:
  "wp (FindOrRecreate (NewRouted hosts look) i)
     (\<lambda>es r. guarded (\<lambda>e. requests GET (trimSlash (i @ ''/status'')) e \<and> answered (\<lambda>s. s \<noteq> 200) e)
                     (requests POST (trimSlash (i @ ''/create''))) es) []"
  unfolding FindOrRecreate_def wp_attempt
  by (rule wp_LookupConfig; simp add: wp_attempt; rule wp_Do)
    (auto simp: wp_if guarded_append intro: wp_opened)

end

definition recreate_result_ok :: "string \<Rightarrow> event list \<Rightarrow> goerr + string \<Rightarrow> bool" where
  "recreate_result_ok i es r \<longleftrightarrow> (case r of
     Inl _ \<Rightarrow> True
   | Inr body \<Rightarrow> (case last es of
       (Http b GET p None, Responded x) \<Rightarrow> p = trimSlash (i @ ''/status'') \<and> Status x = 200 \<and> Body x = body
     | _ \<Rightarrow> False))"

context instance_lookup
begin

lemma recreate_result:
  "wp (FindOrRecreate (NewRouted hosts look) i) (recreate_result_ok i) []"
  unfolding FindOrRecreate_def wp_attempt
  by (rule wp_LookupConfig; simp add: recreate_result_ok_def wp_attempt; rule wp_Do)
    (auto simp: wp_if wp_attempt recreate_result_ok_def intro!: wp_Do)

end

text \<open>
  The actions that change something outside; and: every one of them is a create of the
  connection, with the config that was read first.
\<close>

fun changes :: "action \<Rightarrow> bool" where
  "changes (Http _ POST _ _) = True"
| "changes (Exec _) = True"
| "changes (TxExec _) = True"
| "changes Commit = True"
| "changes _ = False"

fun config_read :: "string \<Rightarrow> event list \<Rightarrow> string option" where
  "config_read i ((Query (SelectConfig j), Rows (row # rows)) # es) =
     (if j = i then (case scan1 scan_bytes row of Inl _ \<Rightarrow> None | Inr config \<Rightarrow> Some config) else None)"
| "config_read i _ = None"

definition changing :: "event list \<Rightarrow> event list" where
  "changing es = filter (\<lambda>e. changes (fst e)) es"

definition creates_saved :: "string \<Rightarrow> event list \<Rightarrow> bool" where
  "creates_saved i es \<longleftrightarrow> (\<forall>x\<in>set (changing es).
     config_read i es \<noteq> None \<and> (\<exists>b. fst x = Http b POST (trimSlash (i @ ''/create'')) (config_read i es)))"

lemma is_query_changes: "is_query x \<Longrightarrow> \<not> changes x"
  by (cases x) auto

lemma changing_append [simp]: "changing (xs @ ys) = changing xs @ changing ys"
  by (simp add: changing_def)

lemma changing_Cons [simp]: "changing (e # es) = (if changes (fst e) then e # changing es else changing es)"
  by (simp add: changing_def)

lemma changing_Nil [simp]: "changing [] = []"
  by (simp add: changing_def)

lemma changing_queries [simp]: "queries es \<Longrightarrow> changing es = []"
  by (simp add: changing_def queries_def filter_empty_conv is_query_changes)

context instance_lookup
begin

lemma recreate_posts: "wp (FindOrRecreate (NewRouted hosts look) i) (\<lambda>es r. creates_saved i es) []"
  unfolding FindOrRecreate_def wp_attempt
  by (rule wp_LookupConfig; simp add: creates_saved_def wp_attempt; rule wp_Do)
    (auto simp: wp_if wp_attempt creates_saved_def intro!: wp_Do)

end

text \<open>
  The other direction: a status answered other than 200 is followed by a create, unless the look-up
  that would route the create gives no address: it fails, or names an instance that has none.
\<close>

definition no_address :: "instances \<Rightarrow> string \<Rightarrow> event list \<Rightarrow> bool" where
  "no_address hosts j es \<longleftrightarrow> (\<exists>e. runs (LookupLiercd j) es (Inl e)) \<or>
     (\<exists>inst. runs (LookupLiercd j) es (Inr inst) \<and> instance_base hosts inst = None)"

lemma no_address_queries: "no_address hosts j es \<Longrightarrow> queries es"
  unfolding no_address_def queries_def by (auto dest: lookup.look_all)

lemma runs_Do_LookupLiercd:
  assumes "runs (Do (NewRouted hosts LookupLiercd) m path body) es r"
  obtains (sent) qs b rep where "queries qs" "es = qs @ [(Http b m (trimSlash path) body, rep)]"
      "(\<exists>x. rep = Responded x \<and> r = Inr x) \<or> (\<exists>e. rep = Failed e \<and> r = Inl e)"
  | (unsent) err where "no_address hosts (routed_id path) es" "r = Inl err"
proof (cases "routed_id path = ''''")
  case True
  then show thesis using assms sent [of "[]"] by (auto simp: lookup.runs_Do runs_http)
next
  case False
  show thesis using assms unfolding lookup.runs_Do if_not_P [OF False]
    by (elim disjE exE conjE) (use unsent sent in \<open>fastforce simp: no_address_def queries_def lookup.look_all\<close>)+
qed

lemma queries_split:
  "qs @ e0 # qs2 = xs @ e # ys \<Longrightarrow> queries qs \<Longrightarrow> queries qs2 \<Longrightarrow> \<not> is_query (fst e) \<Longrightarrow> e = e0 \<and> ys = qs2"
proof (induction qs arbitrary: xs)
  case Nil
  then show ?case by (cases xs) (auto simp: queries_def)
next
  case (Cons q qs)
  then show ?case by (cases xs) (auto simp: queries_def)
qed

definition refused :: "string \<Rightarrow> event \<Rightarrow> bool" where
  "refused i e \<longleftrightarrow> requests GET (trimSlash (i @ ''/status'')) e \<and> answered (\<lambda>s. s \<noteq> 200) e"

definition recreated :: "instances \<Rightarrow> string \<Rightarrow> event list \<Rightarrow> goerr + string \<Rightarrow> bool" where
  "recreated hosts i es r \<longleftrightarrow> (\<forall>xs e ys. es = xs @ e # ys \<longrightarrow> refused i e \<longrightarrow>
     (\<exists>f\<in>set ys. requests POST (trimSlash (i @ ''/create'')) f) \<or> (\<exists>f\<in>set xs. requests POST (trimSlash (i @ ''/create'')) f) \<or>
     no_address hosts (routed_id (i @ ''/create'')) ys \<and> (\<exists>err. r = Inl err))"

lemma refused_request: "refused i e \<Longrightarrow> \<not> is_query (fst e)"
  by (cases e; cases "fst e") (auto simp: refused_def)

lemma recreated_queries: "queries es \<Longrightarrow> recreated hosts i es r"
  unfolding recreated_def using refused_request by (fastforce simp: queries_def)

lemma recreated_status: "queries qs \<Longrightarrow> \<not> refused i e0 \<Longrightarrow> recreated hosts i (qs @ [e0]) r"
  unfolding recreated_def using refused_request queries_split [of qs e0 "[]"] by fastforce

lemma recreated_unrouted:
  "queries qs \<Longrightarrow> no_address hosts (routed_id (i @ ''/create'')) ys \<Longrightarrow> recreated hosts i (qs @ e0 # ys) (Inl err)"
  unfolding recreated_def using refused_request queries_split [of qs e0 ys] no_address_queries by fastforce

lemma recreated_posted: "\<exists>f\<in>set es. requests POST (trimSlash (i @ ''/create'')) f \<Longrightarrow> recreated hosts i es r"
proof -
  assume "\<exists>f\<in>set es. requests POST (trimSlash (i @ ''/create'')) f"
  moreover have "\<not> requests POST p e" if "refused i e" for p e
    using that by (cases e; cases "fst e") (auto simp: refused_def)
  ultimately show ?thesis unfolding recreated_def by auto
qed

lemma wp_Do_LookupLiercd:
  assumes "\<And>es e. no_address hosts (routed_id path) es \<Longrightarrow> Q (h @ es) (Inl e)"
    "\<And>es b e. queries es \<Longrightarrow> Q (h @ es @ [(Http b m (trimSlash path) body, Failed e)]) (Inl e)"
    "\<And>es b x. queries es \<Longrightarrow> Q (h @ es @ [(Http b m (trimSlash path) body, Responded x)]) (Inr x)"
  shows "wp (Do (NewRouted hosts LookupLiercd) m path body) Q h"
  unfolding wp_iff
proof (intro allI impI)
  fix es r assume "runs (Do (NewRouted hosts LookupLiercd) m path body) es r"
  then show "Q (h @ es) r"
  proof (cases rule: runs_Do_LookupLiercd)
    case (sent qs b rep)
    then show ?thesis using assms(2,3) by auto
  next
    case (unsent err)
    then show ?thesis using assms(1) by simp
  qed
qed

lemma recreate_recreated: "wp (FindOrRecreate (NewRouted hosts LookupLiercd) i) (recreated hosts i) []"
  unfolding FindOrRecreate_def wp_attempt
proof (rule wp_LookupConfig, goal_cases)
  case (3 row rows config)
  let ?c = "(Query (SelectConfig i), Rows (row # rows))"
  have q: "queries (?c # es)" if "queries es" for es using that by (simp add: queries_def)
  note at = recreated_status [OF q, simplified] recreated_unrouted [OF q, simplified]
  show ?case unfolding sum.case option.case wp_attempt
  proof (rule wp_Do_LookupLiercd, goal_cases)
    case (3 es b x)
    show ?case
    proof (cases "Status x = 200")
      case False
      then show ?thesis unfolding sum.case if_not_P [OF False] wp_attempt
        by (intro wp_Do_LookupLiercd; simp add: at(2) [OF 3] wp_if wp_attempt;
            (intro conjI impI wp_Do_LookupLiercd)?; simp add: recreated_posted wp_if)
    qed (simp add: at(1) [OF 3] refused_def)
  next
    case (1 es e)
    then show ?case using q [OF no_address_queries] by (auto intro: recreated_queries)
  qed (simp_all add: recreated_queries queries_def at(1) refused_def)
qed (simp_all add: recreated_queries)

section \<open>Properties\<close>

text \<open>
  C10. Routing never falls back to another instance. Whatever the database and the network
  answer, a request for a connection through the routed client is the only request sent, it
  is sent unchanged, and it goes to the instance the connection's column named when it was
  read just before: to main's address when the column was empty, to next's when it was
  "next" and next has an address, and nowhere otherwise.
\<close>

theorem Do_never_falls_back:
  assumes "runs (Do (NewRouted hosts LookupLiercd) m path body) es r"
    and "(Http b m' p' body', rep) \<in> set es" and "routed_id path \<noteq> ''''"
  shows "m' = m \<and> p' = trimSlash path \<and> body' = body \<and>
    (\<exists>es1 inst. es = es1 @ [(Http b m' p' body', rep)] \<and> runs (LookupLiercd (routed_id path)) es1 (Inr inst) \<and>
       (inst = '''' \<and> b = baseURL (Main hosts) \<or>
        inst = ''next'' \<and> Next hosts \<noteq> '''' \<and> b = baseURL (Next hosts)))"
proof -
  from lookup.routes [OF assms(1,2)] assms(3)
  have *: "(m', p', body') = (m, trimSlash path, body)"
    and "\<exists>es1 inst. es = es1 @ [(Http b m' p' body', rep)] \<and> runs (LookupLiercd (routed_id path)) es1 (Inr inst) \<and>
      instance_base hosts inst = Some b" by auto
  then obtain es1 inst where "es = es1 @ [(Http b m' p' body', rep)]"
    "runs (LookupLiercd (routed_id path)) es1 (Inr inst)" "instance_base hosts inst = Some b" by blast
  with * show ?thesis by (auto simp: instance_base_def split: if_splits)
qed

definition two_hosts :: instances where
  "two_hosts = \<lparr>Main = ''liercd'', Next = ''127.0.0.1:5006''\<rparr>"

lemma Do_next_run:
  "exec scripted (Do (NewRouted two_hosts LookupLiercd) POST ''abc/create'' (Some ''{}''))
     [Rows [[Text ''next'']], Responded \<lparr>Status = 200, Body = ''{}''\<rparr>] =
   ([(Query (SelectLiercd ''abc''), Rows [[Text ''next'']]),
     (Http ''http://127.0.0.1:5006'' POST ''abc/create'' (Some ''{}''), Responded \<lparr>Status = 200, Body = ''{}''\<rparr>)],
    Inr \<lparr>Status = 200, Body = ''{}''\<rparr>, [])"
  by code_simp

lemma Do_never_falls_back_witness:
  "\<exists>es1 inst. [(Query (SelectLiercd ''abc''), Rows [[Text ''next'']]),
       (Http ''http://127.0.0.1:5006'' POST ''abc/create'' (Some ''{}''), Responded \<lparr>Status = 200, Body = ''{}''\<rparr>)] =
     es1 @ [(Http ''http://127.0.0.1:5006'' POST ''abc/create'' (Some ''{}''), Responded \<lparr>Status = 200, Body = ''{}''\<rparr>)] \<and>
     runs (LookupLiercd (routed_id ''abc/create'')) es1 (Inr inst)"
  using Do_never_falls_back [OF scripted.exec_runs [OF Do_next_run]
      list.set_intros(2) [OF list.set_intros(1)]]
  by (auto simp: routed_id_def)

text \<open>
  C11. \<open>FindOrRecreate\<close> re-creates a connection when liercd does not answer its status with 200, and
  from what is saved. In every run, whatever is answered: a create is posted only after a status
  request was answered with a status other than 200; a status request that was answered so is
  followed by a create, or it already follows one, or only the look-up of the instance the create is
  for comes after it, that gives no address, and the call fails; the create is the only kind of
  change made, it is for this connection, and its body is the config read from the database; and a
  body is returned only when the last event is a status request answered 200 with that body.
\<close>

theorem FindOrRecreate_correct:
  assumes "runs (FindOrRecreate (NewRouted hosts LookupLiercd) i) es r"
  shows "guarded (\<lambda>e. requests GET (trimSlash (i @ ''/status'')) e \<and> answered (\<lambda>s. s \<noteq> 200) e)
      (requests POST (trimSlash (i @ ''/create''))) es \<and>
    recreated hosts i es r \<and> creates_saved i es \<and> recreate_result_ok i es r"
  using wp_runs [OF lookup.recreate_guarded assms] wp_runs [OF recreate_recreated assms] wp_runs [OF lookup.recreate_posts assms]
    wp_runs [OF lookup.recreate_result assms] by blast

lemma FindOrRecreate_run:
  "exec scripted (FindOrRecreate (NewRouted two_hosts LookupLiercd) ''abc'')
     [Rows [[Text ''{}'']], Rows [[Null]], Responded \<lparr>Status = 404, Body = ''''\<rparr>,
      Rows [[Null]], Responded \<lparr>Status = 200, Body = ''{}''\<rparr>,
      Rows [[Null]], Responded \<lparr>Status = 200, Body = ''up''\<rparr>] =
   ([(Query (SelectConfig ''abc''), Rows [[Text ''{}'']]),
     (Query (SelectLiercd ''abc''), Rows [[Null]]),
     (Http ''http://liercd:5005'' GET ''abc/status'' None, Responded \<lparr>Status = 404, Body = ''''\<rparr>),
     (Query (SelectLiercd ''abc''), Rows [[Null]]),
     (Http ''http://liercd:5005'' POST ''abc/create'' (Some ''{}''), Responded \<lparr>Status = 200, Body = ''{}''\<rparr>),
     (Query (SelectLiercd ''abc''), Rows [[Null]]),
     (Http ''http://liercd:5005'' GET ''abc/status'' None, Responded \<lparr>Status = 200, Body = ''up''\<rparr>)],
    Inr ''up'', [])"
  by code_simp

lemma FindOrRecreate_correct_witness:
  "recreate_result_ok ''abc''
    [(Query (SelectConfig ''abc''), Rows [[Text ''{}'']]),
     (Query (SelectLiercd ''abc''), Rows [[Null]]),
     (Http ''http://liercd:5005'' GET ''abc/status'' None, Responded \<lparr>Status = 404, Body = ''''\<rparr>),
     (Query (SelectLiercd ''abc''), Rows [[Null]]),
     (Http ''http://liercd:5005'' POST ''abc/create'' (Some ''{}''), Responded \<lparr>Status = 200, Body = ''{}''\<rparr>),
     (Query (SelectLiercd ''abc''), Rows [[Null]]),
     (Http ''http://liercd:5005'' GET ''abc/status'' None, Responded \<lparr>Status = 200, Body = ''up''\<rparr>)] (Inr ''up'')"
  using FindOrRecreate_correct [OF scripted.exec_runs [OF FindOrRecreate_run]] by blast

end
