(* ===== verification/World.thy ===== *)
theory World
  imports Liercd
begin

text \<open>
  The services the programs run against, as code: the liercd stand-in of
  \<^verbatim>\<open>internal/testenv/fakeliercd.go\<close> (\<open>LiercdServer\<close>), and a world of two liercd instances and
  the database. What the programs rely on of a liercd is the locale \<open>liercd_instance\<close>; the
  stand-in is shown to provide it, and the theorems about the state of a world hold for every
  instance that does.
\<close>

section \<open>LiercdServer\<close>

record call =
  Method :: meth
  Path :: string
  CallBody :: string

record override =
  ov_code :: nat
  ov_body :: string

record LiercdServer =
  statuses :: "string \<rightharpoonup> string"
  created :: "string set"
  overrides :: "(meth \<times> string) \<rightharpoonup> override"
  calls :: "call list"

definition Reset :: "LiercdServer \<Rightarrow> LiercdServer" where
  "Reset f = f\<lparr>statuses := Map.empty, created := {}, overrides := Map.empty, calls := []\<rparr>"

definition NewLiercd :: LiercdServer where
  "NewLiercd = \<lparr>statuses = Map.empty, created = {}, overrides = Map.empty, calls = []\<rparr>"

definition SetStatus :: "string \<Rightarrow> string \<Rightarrow> LiercdServer \<Rightarrow> LiercdServer" where
  "SetStatus i json f = f\<lparr>statuses := (statuses f)(i \<mapsto> json)\<rparr>"

definition Respond :: "meth \<Rightarrow> string \<Rightarrow> nat \<Rightarrow> string \<Rightarrow> LiercdServer \<Rightarrow> LiercdServer" where
  "Respond m path c b f = f\<lparr>overrides := (overrides f)((m, path) \<mapsto> \<lparr>ov_code = c, ov_body = b\<rparr>)\<rparr>"

definition Running :: "string \<Rightarrow> LiercdServer \<Rightarrow> bool" where
  "Running i f \<longleftrightarrow> i \<in> created f"

definition MarkRunning :: "string \<Rightarrow> LiercdServer \<Rightarrow> LiercdServer" where
  "MarkRunning i f = f\<lparr>created := insert i (created f)\<rparr>"

text \<open>\<^verbatim>\<open>strings.Trim(s, "/")\<close>.\<close>

definition trim_slashes :: "string \<Rightarrow> string" where
  "trim_slashes s = rev (trimSlash (rev (trimSlash s)))"

definition ok_response :: "string \<Rightarrow> response" where
  "ok_response b = \<lparr>Status = 200, Body = b\<rparr>"

text \<open>\<^verbatim>\<open>http.NotFound\<close>.\<close>

definition not_found :: response where
  "not_found = \<lparr>Status = 404, Body = ''404 page not found'' @ [CHR 0x0A]\<rparr>"

definition ServeHTTP :: "meth \<Rightarrow> string \<Rightarrow> string \<Rightarrow> LiercdServer \<Rightarrow> response \<times> LiercdServer" where
  "ServeHTTP m path b f0 =
    (let f = f0\<lparr>calls := calls f0 @ [\<lparr>Method = m, Path = path, CallBody = b\<rparr>]\<rparr>;
         parts = split_on CHR ''/'' (trim_slashes path);
         keys = (m, path) # (if length parts = 2 then [(m, ''/*/'' @ parts ! 1)] else [])
     in case List.map_filter (overrides f) keys of
          ov # _ \<Rightarrow> (\<lparr>Status = ov_code ov, Body = ov_body ov\<rparr>, f)
        | [] \<Rightarrow>
          (case parts of
             [i, a] \<Rightarrow>
               if a = ''create'' \<and> m = POST then (ok_response ''{}'', f\<lparr>created := insert i (created f)\<rparr>)
               else if a = ''destroy'' \<and> m = POST \<and> i \<in> created f then
                 (ok_response ''{}'', f\<lparr>created := created f - {i}\<rparr>)
               else if a = ''status'' \<and> m = GET \<and> i \<in> created f then
                 (ok_response (case statuses f i of None \<Rightarrow> ''{}'' | Some s \<Rightarrow> s), f)
               else (not_found, f)
           | _ \<Rightarrow> (not_found, f)))"

section \<open>What the programs rely on of a liercd\<close>

definition plain_id :: "string \<Rightarrow> bool" where
  "plain_id i \<longleftrightarrow> i \<noteq> '''' \<and> CHR ''/'' \<notin> set i"

locale liercd_instance =
  fixes handle :: "meth \<Rightarrow> string \<Rightarrow> string \<Rightarrow> 'l \<Rightarrow> response \<times> 'l"
    and running :: "'l \<Rightarrow> string set"
    and well :: "'l \<Rightarrow> bool"
  assumes status: "plain_id i \<Longrightarrow> well l \<Longrightarrow> handle GET (CHR ''/'' # i @ ''/status'') b l = (r, l') \<Longrightarrow>
      running l' = running l \<and> well l' \<and> Status r = (if i \<in> running l then 200 else 404)"
    and create: "plain_id i \<Longrightarrow> well l \<Longrightarrow> handle POST (CHR ''/'' # i @ ''/create'') b l = (r, l') \<Longrightarrow>
      running l' = insert i (running l) \<and> well l' \<and> Status r = 200"
    and destroy: "plain_id i \<Longrightarrow> well l \<Longrightarrow> handle POST (CHR ''/'' # i @ ''/destroy'') b l = (r, l') \<Longrightarrow>
      running l' = running l - {i} \<and> well l' \<and> Status r = (if i \<in> running l then 200 else 404)"

text \<open>The stand-in is one, as long as no response is forced.\<close>

lemma trimSlash_rev_id: "CHR ''/'' \<notin> set a \<Longrightarrow> a \<noteq> [] \<Longrightarrow> trimSlash (rev (i @ CHR ''/'' # a)) = rev (i @ CHR ''/'' # a)"
proof (rule trimSlash_id)
  assume "CHR ''/'' \<notin> set a" "a \<noteq> []"
  moreover have "hd (rev (i @ CHR ''/'' # a)) = last a" using \<open>a \<noteq> []\<close> by (simp add: hd_append hd_rev)
  ultimately show "hd (rev (i @ CHR ''/'' # a)) \<noteq> CHR ''/''" by (metis last_in_set)
qed

lemma parts_of_path:
  assumes "plain_id i" "CHR ''/'' \<notin> set a" "a \<noteq> []"
  shows "split_on CHR ''/'' (trim_slashes (CHR ''/'' # i @ CHR ''/'' # a)) = [i, a]"
proof -
  have "hd (i @ CHR ''/'' # a) \<noteq> CHR ''/''"
    using assms(1) by (cases i) (auto simp: plain_id_def)
  then have "trimSlash (CHR ''/'' # i @ CHR ''/'' # a) = i @ CHR ''/'' # a"
    by (simp add: trimSlash_id)
  then have "trim_slashes (CHR ''/'' # i @ CHR ''/'' # a) = i @ CHR ''/'' # a"
    unfolding trim_slashes_def using trimSlash_rev_id [OF assms(2,3), of i] by simp
  then show ?thesis
    using assms by (simp add: plain_id_def split_on_append split_on_none)
qed

lemma ServeHTTP_plain:
  assumes "plain_id i" "CHR ''/'' \<notin> set a" "a \<noteq> []" "overrides f = Map.empty"
  shows "ServeHTTP m (CHR ''/'' # i @ CHR ''/'' # a) b f =
    (let f' = f\<lparr>calls := calls f @ [\<lparr>Method = m, Path = CHR ''/'' # i @ CHR ''/'' # a, CallBody = b\<rparr>]\<rparr> in
     if a = ''create'' \<and> m = POST then (ok_response ''{}'', f'\<lparr>created := insert i (created f)\<rparr>)
     else if a = ''destroy'' \<and> m = POST \<and> i \<in> created f then (ok_response ''{}'', f'\<lparr>created := created f - {i}\<rparr>)
     else if a = ''status'' \<and> m = GET \<and> i \<in> created f then
       (ok_response (case statuses f i of None \<Rightarrow> ''{}'' | Some s \<Rightarrow> s), f')
     else (not_found, f'))"
  unfolding ServeHTTP_def Let_def parts_of_path [OF assms(1-3)]
  by (simp add: assms(4) List.map_filter_def)

interpretation fake: liercd_instance ServeHTTP created "\<lambda>f. overrides f = Map.empty"
proof
  fix i b r and l l' :: LiercdServer
  assume *: "plain_id i" "overrides l = Map.empty"
  note serve = ServeHTTP_plain [OF *(1) _ _ *(2), of "''status''"] ServeHTTP_plain [OF *(1) _ _ *(2), of "''create''"]
    ServeHTTP_plain [OF *(1) _ _ *(2), of "''destroy''"]
  show "ServeHTTP GET (CHR ''/'' # i @ ''/status'') b l = (r, l') \<Longrightarrow>
      created l' = created l \<and> overrides l' = Map.empty \<and> Status r = (if i \<in> created l then 200 else 404)"
    using serve(1) [of GET b] by (auto simp: ok_response_def not_found_def Let_def *(2) split: if_splits)
  show "ServeHTTP POST (CHR ''/'' # i @ ''/create'') b l = (r, l') \<Longrightarrow>
      created l' = insert i (created l) \<and> overrides l' = Map.empty \<and> Status r = 200"
    using serve(2) [of POST b] by (auto simp: ok_response_def not_found_def Let_def *(2))
  show "ServeHTTP POST (CHR ''/'' # i @ ''/destroy'') b l = (r, l') \<Longrightarrow>
      created l' = created l - {i} \<and> overrides l' = Map.empty \<and> Status r = (if i \<in> created l then 200 else 404)"
    using serve(3) [of POST b] by (auto simp: ok_response_def not_found_def Let_def *(2) split: if_splits)
qed

section \<open>A world of two instances and a database\<close>

text \<open>
  \<open>pending\<close> is the open transaction: its statements so far, applied when it commits.
  \<open>down\<close> holds the addresses that do not answer, \<open>dns\<close> what host names resolve to.
\<close>

record 'l world =
  db :: tables
  pending :: "sql list option"
  w_hosts :: instances
  main_liercd :: 'l
  next_liercd :: 'l
  down :: "string set"
  dns :: "string \<Rightarrow> string list"
  stdout :: string
  stderr :: string

definition apply_all :: "sql list \<Rightarrow> tables \<Rightarrow> tables" where
  "apply_all ss t = fold (\<lambda>s t. snd (execute s t)) ss t"

definition unreachable :: goerr where
  "unreachable = Err ''connection refused''"

fun serve :: "(meth \<Rightarrow> string \<Rightarrow> string \<Rightarrow> 'l \<Rightarrow> response \<times> 'l) \<Rightarrow> action \<Rightarrow> 'l world \<Rightarrow> reply \<times> 'l world" where
  "serve handle (Http b m path body) w =
     (let data = (case body of None \<Rightarrow> '''' | Some s \<Rightarrow> s) in
      if b \<in> down w then (Failed unreachable, w)
      else if b = baseURL (Main (w_hosts w)) then
        (case handle m (CHR ''/'' # path) data (main_liercd w) of (r, l) \<Rightarrow> (Responded r, w\<lparr>main_liercd := l\<rparr>))
      else if Next (w_hosts w) \<noteq> '''' \<and> b = baseURL (Next (w_hosts w)) then
        (case handle m (CHR ''/'' # path) data (next_liercd w) of (r, l) \<Rightarrow> (Responded r, w\<lparr>next_liercd := l\<rparr>))
      else (Failed unreachable, w))"
| "serve handle (HttpStats u key) w = (Failed unreachable, w)"
| "serve handle (Resolve host) w =
     (if dns w host = [] then (Failed (Err (''lookup '' @ host @ '': no such host'')), w) else (Strings (dns w host), w))"
| "serve handle ReadPassword w = (Failed (Err ''no terminal''), w)"
| "serve handle (Query q) w = (Rows (answer q (db w)), w)"
| "serve handle (Exec s) w = (case execute s (db w) of (n, t) \<Rightarrow> (Affected n, w\<lparr>db := t\<rparr>))"
| "serve handle Begin w = (Done, w\<lparr>pending := Some []\<rparr>)"
| "serve handle (TxExec s) w =
     (case pending w of
        None \<Rightarrow> (Failed (Err ''tx is closed''), w)
      | Some ss \<Rightarrow> (Affected (fst (execute s (apply_all ss (db w)))), w\<lparr>pending := Some (ss @ [s])\<rparr>))"
| "serve handle Commit w =
     (case pending w of
        None \<Rightarrow> (Failed (Err ''tx is closed''), w)
      | Some ss \<Rightarrow> (Done, w\<lparr>db := apply_all ss (db w), pending := None\<rparr>))"
| "serve handle Rollback w = (Done, w\<lparr>pending := None\<rparr>)"
| "serve handle (Print s) w = (Done, w\<lparr>stdout := stdout w @ s\<rparr>)"
| "serve handle (EPrint s) w = (Done, w\<lparr>stderr := stderr w @ s\<rparr>)"
| "serve handle (Sleep d) w = (Done, w)"
| "serve handle CtxErr w = (Done, w)"

interpretation world: services "serve handle"
  by unfold_locales (rename_tac x s; case_tac x; auto simp: Let_def unreachable_def split: prod.splits option.splits)

section \<open>Results\<close>

text \<open>\<open>result\<close>: what a program returns and the world it leaves.\<close>

definition result :: "(action \<Rightarrow> 's \<Rightarrow> reply \<times> 's) \<Rightarrow> 'a prog \<Rightarrow> 's \<Rightarrow> 'a \<times> 's" where
  "result f p s = snd (exec f p s)"

named_theorems result_simps \<open>equations that compute results\<close>

lemma result_Ret [simp, result_simps]: "result f (Ret a) s = (a, s)"
  by (simp add: result_def)

lemma result_Act: "result f (Act x k) s = (case f x s of (r, s1) \<Rightarrow> result f (k r) s1)"
  by (simp add: result_def split: prod.splits)

lemma result_bind [result_simps]:
  "result f (bind p k) s = (case result f p s of (a, s1) \<Rightarrow> result f (k a) s1)"
  by (simp add: result_def exec_bind split: prod.splits)

lemma result_attempt [result_simps]:
  "result f (attempt p k) s =
     (case result f p s of (r, s1) \<Rightarrow> (case r of Inl e \<Rightarrow> (Inl e, s1) | Inr a \<Rightarrow> result f (k a) s1))"
  by (simp add: attempt_def result_bind split: prod.splits sum.splits)

lemma result_exec: "result f p s = (a, s') \<Longrightarrow> \<exists>es. exec f p s = (es, a, s')"
  by (cases "exec f p s") (simp add: result_def)

text \<open>Instances by name.\<close>

definition address :: "instances \<Rightarrow> string \<Rightarrow> string" where
  "address hosts inst = (if inst = ''next'' then baseURL (Next hosts) else baseURL (Main hosts))"

definition other :: "string \<Rightarrow> string" where
  "other inst = (if inst = ''main'' then ''next'' else ''main'')"

definition on :: "string \<Rightarrow> 'l world \<Rightarrow> 'l" where
  "on inst w = (if inst = ''next'' then next_liercd w else main_liercd w)"

definition put :: "string \<Rightarrow> 'l \<Rightarrow> 'l world \<Rightarrow> 'l world" where
  "put inst l w = (if inst = ''next'' then w\<lparr>next_liercd := l\<rparr> else w\<lparr>main_liercd := l\<rparr>)"

text \<open>Both instances answer, at two addresses.\<close>

definition reachable :: "'l world \<Rightarrow> bool" where
  "reachable w \<longleftrightarrow> Next (w_hosts w) \<noteq> '''' \<and> baseURL (Main (w_hosts w)) \<noteq> baseURL (Next (w_hosts w)) \<and>
     baseURL (Main (w_hosts w)) \<notin> down w \<and> baseURL (Next (w_hosts w)) \<notin> down w"

lemma on_put [simp]: "on a (put b l w) = (if (a = ''next'') = (b = ''next'') then l else on a w)"
  by (simp add: on_def put_def)

lemma put_simps [simp]:
  "w_hosts (put a l w) = w_hosts w" "db (put a l w) = db w" "down (put a l w) = down w"
  "pending (put a l w) = pending w" "stdout (put a l w) = stdout w" "reachable (put a l w) = reachable w"
  by (simp_all add: put_def reachable_def)

lemma on_simps [simp]:
  "on a (w\<lparr>db := t\<rparr>) = on a w" "on a (w\<lparr>stdout := s\<rparr>) = on a w" "on a (w\<lparr>pending := p\<rparr>) = on a w"
  "reachable (w\<lparr>db := t\<rparr>) = reachable w" "reachable (w\<lparr>stdout := s\<rparr>) = reachable w"
  by (simp_all add: on_def reachable_def)

lemma result_http:
  assumes "reachable w"
  shows "result (serve handle) (http (address (w_hosts w) inst) m path body) w =
    (case handle m (CHR ''/'' # path) (case body of None \<Rightarrow> '''' | Some s \<Rightarrow> s) (on inst w) of
       (r, l) \<Rightarrow> (Inr r, put inst l w))"
  using assms unfolding http_def result_Act
  by (auto simp: reachable_def address_def on_def put_def Let_def split: prod.splits)

lemma result_query [result_simps]: "result (serve handle) (query q) w = (Inr (answer q (db w)), w)"
  by (simp add: query_def result_Act)

lemma result_exec_sql [result_simps]:
  "result (serve handle) (exec_sql s) w =
     (Inr (fst (execute s (db w))), w\<lparr>db := snd (execute s (db w))\<rparr>)"
  by (simp add: exec_sql_def result_Act split: prod.splits)

lemma result_say [result_simps]: "result (serve handle) (say s p) w = result (serve handle) p (w\<lparr>stdout := stdout w @ s\<rparr>)"
  by (simp add: say_def print_def result_bind result_Act)

lemma result_query_row [result_simps]:
  "result (serve handle) (query_row q scan) w =
     ((case answer q (db w) of [] \<Rightarrow> Inl ErrNoRows | row # _ \<Rightarrow> scan row), w)"
  by (simp add: query_row_def result_simps)

text \<open>What is stored of a connection.\<close>

definition stored :: "tables \<Rightarrow> string \<Rightarrow> connection_row option" where
  "stored t i = find (\<lambda>r. c_id r = i) (connections t)"

definition instance_of :: "connection_row \<Rightarrow> string" where
  "instance_of r = (if coalesce (c_liercd r) = '''' then ''main'' else coalesce (c_liercd r))"

lemma filter_find: "find P xs = Some x \<Longrightarrow> \<exists>ys. filter P xs = x # ys"
  by (induction xs) (auto split: if_splits)

lemma filter_find_None: "find P xs = None \<Longrightarrow> filter P xs = []"
  by (induction xs) (auto split: if_splits)

lemma result_LookupConfig [result_simps]:
  "result (serve handle) (LookupConfig i) w = (Inr (map_option c_config (stored (db w) i)), w)"
  by (cases "stored (db w) i")
    (auto simp: LookupConfig_def result_simps stored_def dest: filter_find filter_find_None)

lemma result_LookupLiercd [result_simps]:
  "result (serve handle) (LookupLiercd i) w =
     (Inr (case stored (db w) i of None \<Rightarrow> '''' | Some r \<Rightarrow> coalesce (c_liercd r)), w)"
  by (cases "stored (db w) i")
    (auto simp: LookupLiercd_def result_simps stored_def nullable_def coalesce_def
      dest!: filter_find filter_find_None split: option.splits)

lemma result_SetLiercd [result_simps]:
  "result (serve handle) (SetLiercd i inst) w =
     (Inr (), w\<lparr>db := snd (execute (UpdateLiercd i (if inst \<noteq> '''' then Some inst else None)) (db w))\<rparr>)"
  by (simp add: SetLiercd_def result_simps)

lemma find_map_update:
  "(\<And>r. c_id (f r) = c_id r) \<Longrightarrow>
   find (\<lambda>r. c_id r = j) (map (\<lambda>r. if c_id r = i then f r else r) rs) =
     map_option (\<lambda>r. if c_id r = i then f r else r) (find (\<lambda>r. c_id r = j) rs)"
  by (induction rs) auto

lemma stored_UpdateLiercd:
  "stored (snd (execute (UpdateLiercd i inst) t)) j =
     (if i = j then map_option (\<lambda>r. r\<lparr>c_liercd := inst\<rparr>) (stored t j) else stored t j)"
proof (cases "stored t j")
  case None
  then show ?thesis by (simp add: stored_def find_map_update)
next
  case (Some r)
  then have "c_id r = j" by (auto simp: stored_def find_Some_iff)
  with Some show ?thesis by (simp add: stored_def find_map_update)
qed

section \<open>Other processes\<close>

text \<open>
  A program beside stream servers. A stream server recreates a connection in two steps: it reads
  which instance the connection's column names, and later posts a create to that instance, or never
  does; it also asks for a status, and configs are saved. A scene is the world with what was read and
  not used yet (of which connection, and which instance) and all that has happened, the program's own
  actions among it.
\<close>

datatype happening = Own action reply | Reads string string | Creates string string | Asks string string | Saves string

record 'l scene =
  sc_world :: "'l world"
  sc_reads :: "(string \<times> string) list"
  sc_past :: "happening list"

definition happened :: "happening \<Rightarrow> (string \<times> string) list \<Rightarrow> 'l world \<Rightarrow> 'l scene \<Rightarrow> 'l scene" where
  "happened e rs w s = \<lparr>sc_world = w, sc_reads = rs, sc_past = sc_past s @ [e]\<rparr>"

inductive disturbed :: "(meth \<Rightarrow> string \<Rightarrow> string \<Rightarrow> 'l \<Rightarrow> response \<times> 'l) \<Rightarrow> 'l scene \<Rightarrow> 'l scene \<Rightarrow> bool"
  for handle :: "meth \<Rightarrow> string \<Rightarrow> string \<Rightarrow> 'l \<Rightarrow> response \<times> 'l" where
  disturbed_refl: "disturbed handle s s"
| disturbed_read: "disturbed handle s t \<Longrightarrow> stored (db (sc_world t)) i = Some row \<Longrightarrow> instance_of row = inst \<Longrightarrow>
    disturbed handle s (happened (Reads i inst) ((i, inst) # sc_reads t) (sc_world t) t)"
| disturbed_create: "disturbed handle s t \<Longrightarrow> (i, inst) \<in> set (sc_reads t) \<Longrightarrow> plain_id i \<Longrightarrow> inst \<in> {''main'', ''next''} \<Longrightarrow>
    serve handle (Http (address (w_hosts (sc_world t)) inst) POST (i @ ''/create'') (Some cfg)) (sc_world t) = (rep, w) \<Longrightarrow>
    disturbed handle s (happened (Creates i inst) (remove1 (i, inst) (sc_reads t)) w t)"
| disturbed_ask: "disturbed handle s t \<Longrightarrow> plain_id i \<Longrightarrow> inst \<in> {''main'', ''next''} \<Longrightarrow>
    serve handle (Http (address (w_hosts (sc_world t)) inst) GET (i @ ''/status'') None) (sc_world t) = (rep, w) \<Longrightarrow>
    disturbed handle s (happened (Asks i inst) (sc_reads t) w t)"
| disturbed_save: "disturbed handle s t \<Longrightarrow>
    w = (sc_world t)\<lparr>db := snd (execute (UpdateConfigStmt cfg i) (db (sc_world t)))\<rparr> \<Longrightarrow>
    disturbed handle s (happened (Saves i) (sc_reads t) w t)"

definition acts :: "(meth \<Rightarrow> string \<Rightarrow> string \<Rightarrow> 'l \<Rightarrow> response \<times> 'l) \<Rightarrow> action \<Rightarrow> 'l scene \<Rightarrow> reply \<Rightarrow> 'l scene \<Rightarrow> bool" where
  "acts handle x s r t \<longleftrightarrow> (\<exists>w. serve handle x (sc_world s) = (r, w) \<and> t = happened (Own x r) (sc_reads s) w s)"

inductive runs_amid :: "(meth \<Rightarrow> string \<Rightarrow> string \<Rightarrow> 'l \<Rightarrow> response \<times> 'l) \<Rightarrow>
    'a prog \<Rightarrow> 'l scene \<Rightarrow> 'a \<Rightarrow> 'l scene \<Rightarrow> bool"
  for handle :: "meth \<Rightarrow> string \<Rightarrow> string \<Rightarrow> 'l \<Rightarrow> response \<times> 'l" where
  amid_Ret: "disturbed handle s t \<Longrightarrow> runs_amid handle (Ret a) s a t"
| amid_Act: "disturbed handle s s1 \<Longrightarrow> acts handle x s1 r s2 \<Longrightarrow> runs_amid handle (k r) s2 a t \<Longrightarrow>
    runs_amid handle (Act x k) s a t"

inductive_cases amid_RetE: "runs_amid handle (Ret a) s b t"
inductive_cases amid_ActE: "runs_amid handle (Act x k) s b t"

lemma amid_bind:
  "runs_amid handle (bind p f) s b t \<Longrightarrow> \<exists>a s1. runs_amid handle p s a s1 \<and> runs_amid handle (f a) s1 b t"
proof (induction p arbitrary: s)
  case (Ret a)
  then show ?case by (auto intro: amid_Ret disturbed_refl)
next
  case (Act x k)
  from Act.prems obtain r s1 s2 where *: "disturbed handle s s1" "acts handle x s1 r s2"
    "runs_amid handle (bind (k r) f) s2 b t" by (auto elim: amid_ActE)
  from Act.IH [OF rangeI *(3)] *(1,2) show ?case by (blast intro: amid_Act)
qed

lemma amid_attempt:
  assumes "runs_amid handle (attempt p k) s (Inr b) t"
  shows "\<exists>a s1. runs_amid handle p s (Inr a) s1 \<and> runs_amid handle (k a) s1 (Inr b) t"
proof -
  obtain r s1 where p: "runs_amid handle p s r s1"
    and k: "runs_amid handle (case r of Inl e \<Rightarrow> Ret (Inl e) | Inr a \<Rightarrow> k a) s1 (Inr b) t"
    using amid_bind [OF assms [unfolded attempt_def]] by blast
  from k obtain a where "r = Inr a" by (cases r) (auto elim: amid_RetE)
  with p k show ?thesis by auto
qed

text \<open>A property that the others and every action of a program keep holds at its end.\<close>

primrec only :: "(action \<Rightarrow> bool) \<Rightarrow> 'a prog \<Rightarrow> bool" where
  "only S (Ret a) = True"
| "only S (Act x k) = (S x \<and> (\<forall>r. only S (k r)))"

lemma only_bind [simp]: "(\<And>a. only S (f a)) \<Longrightarrow> only S p \<Longrightarrow> only S (bind p f)"
  by (induction p) auto

lemma amid_invariant:
  assumes "runs_amid handle p s a t" "P s"
    and "\<And>s t. disturbed handle s t \<Longrightarrow> P s \<Longrightarrow> P t"
    and "\<And>x r s t. S x \<Longrightarrow> acts handle x s r t \<Longrightarrow> P s \<Longrightarrow> P t"
    and "only S p"
  shows "P t"
  using assms(1,2,5)
proof (induction rule: runs_amid.induct)
  case (amid_Ret s t a)
  then show ?case using assms(3) by blast
next
  case (amid_Act s s1 x r s2 k a t)
  have "P s1" using amid_Act by (blast intro: assms(3))
  moreover have "S x" "only S (k r)" using amid_Act.prems by simp_all
  ultimately show ?case using amid_Act by (blast intro: assms(4))
qed

declare serve.simps(1) [simp del]

text \<open>A program that is left alone: the scene it ends in has the same reads.\<close>

lemma result_amid:
  "result (serve handle) p (sc_world s) = (a, w) \<Longrightarrow> \<exists>t. runs_amid handle p s a t \<and> sc_world t = w"
proof (induction p arbitrary: s)
  case (Ret b)
  then show ?case by (auto intro: amid_Ret disturbed_refl)
next
  case (Act x k)
  obtain r w1 where x: "serve handle x (sc_world s) = (r, w1)" by fastforce
  let ?s1 = "happened (Own x r) (sc_reads s) w1 s"
  have "result (serve handle) (k r) (sc_world ?s1) = (a, w)" using Act.prems x by (simp add: result_Act happened_def)
  from Act.IH [OF rangeI this] obtain t where "runs_amid handle (k r) ?s1 a t" "sc_world t = w" by blast
  moreover have "acts handle x s r ?s1" using x by (simp add: acts_def)
  ultimately show ?case by (blast intro: amid_Act disturbed_refl)
qed

end
