(* ===== verification/Utf8.thy ===== *)
theory Utf8
  imports Prelude
begin

text \<open>
  Go's \<^verbatim>\<open>unicode/utf8\<close>, which every string of the program goes through when it is ranged over,
  matched by a regular expression or written as JSON: encoding and decoding one rune, the runes
  of a string and whether it is valid. The lemmas say that decoding is the inverse of encoding
  on the Unicode scalar values, and that the valid strings are exactly the encodings.
\<close>

section \<open>One rune\<close>

text \<open>A rune is a number; \<open>rune_error\<close> is \<^verbatim>\<open>utf8.RuneError\<close>, U+FFFD.\<close>

type_synonym rune = nat

definition rune_error :: rune where
  "rune_error = 0xFFFD"

definition surrogate :: "rune \<Rightarrow> bool" where
  "surrogate r \<longleftrightarrow> 0xD800 \<le> r \<and> r \<le> 0xDFFF"

definition scalar :: "rune \<Rightarrow> bool" where
  "scalar r \<longleftrightarrow> r < 0x110000 \<and> \<not> surrogate r"

text \<open>\<^verbatim>\<open>utf8.AppendRune\<close>: what is no scalar value is written as U+FFFD.\<close>

definition encode_rune :: "rune \<Rightarrow> string" where
  "encode_rune r =
     (if r < 0x80 then [to_byte r]
      else if r < 0x800 then [to_byte (0xC0 + r div 64), to_byte (0x80 + r mod 64)]
      else if \<not> scalar r then map to_byte [0xEF, 0xBF, 0xBD]
      else if r < 0x10000 then
        [to_byte (0xE0 + r div 64 div 64), to_byte (0x80 + r div 64 mod 64), to_byte (0x80 + r mod 64)]
      else
        [to_byte (0xF0 + r div 64 div 64 div 64), to_byte (0x80 + r div 64 div 64 mod 64),
         to_byte (0x80 + r div 64 mod 64), to_byte (0x80 + r mod 64)])"

text \<open>Continuation bytes, and the second bytes that may follow a first byte (\<^verbatim>\<open>acceptRanges\<close>).\<close>

definition continues :: "char \<Rightarrow> bool" where
  "continues c \<longleftrightarrow> 0x80 \<le> byte c \<and> byte c < 0xC0"

definition second_ok :: "nat \<Rightarrow> char \<Rightarrow> bool" where
  "second_ok a c \<longleftrightarrow> continues c \<and> (a = 0xE0 \<longrightarrow> 0xA0 \<le> byte c) \<and> (a = 0xED \<longrightarrow> byte c < 0xA0) \<and>
     (a = 0xF0 \<longrightarrow> 0x90 \<le> byte c) \<and> (a = 0xF4 \<longrightarrow> byte c < 0x90)"

text \<open>\<^verbatim>\<open>utf8.DecodeRuneInString\<close>: the rune and its width; \<open>bad\<close> for an invalid encoding.\<close>

definition bad :: "rune \<times> nat" where
  "bad = (rune_error, 1)"

fun decode_rune :: "string \<Rightarrow> rune \<times> nat" where
  "decode_rune [] = (rune_error, 0)"
| "decode_rune (c0 # s) =
     (let a = byte c0 in
      if a < 0x80 then (a, 1)
      else if a < 0xC2 \<or> 0xF4 < a then bad
      else (case s of
          [] \<Rightarrow> bad
        | c1 # s1 \<Rightarrow>
          if \<not> second_ok a c1 then bad
          else if a < 0xE0 then (64 * (a - 0xC0) + (byte c1 - 0x80), 2)
          else (case s1 of
              [] \<Rightarrow> bad
            | c2 # s2 \<Rightarrow>
              if \<not> continues c2 then bad
              else if a < 0xF0 then (64 * (64 * (a - 0xE0) + (byte c1 - 0x80)) + (byte c2 - 0x80), 3)
              else (case s2 of
                  [] \<Rightarrow> bad
                | c3 # s3 \<Rightarrow>
                  if \<not> continues c3 then bad
                  else (64 * (64 * (64 * (a - 0xF0) + (byte c1 - 0x80)) + (byte c2 - 0x80)) + (byte c3 - 0x80), 4)))))"

declare decode_rune.simps [simp del]

lemma length_encode_rune: "1 \<le> length (encode_rune r)" "length (encode_rune r) \<le> 4"
  by (auto simp: encode_rune_def)

lemma encode_rune_not_Nil [simp]: "encode_rune r \<noteq> []"
  by (auto simp: encode_rune_def)

lemma decode_rune_width: "s \<noteq> [] \<Longrightarrow> decode_rune s = (r, n) \<Longrightarrow> 1 \<le> n \<and> n \<le> length s"
  by (cases s) (auto simp: decode_rune.simps bad_def Let_def split: if_splits list.splits)

lemma cont_byte: "continues (to_byte (0x80 + n mod 64))" "byte (to_byte (0x80 + n mod 64)) - 0x80 = n mod 64"
proof -
  have "0x80 + n mod 64 < 256" using mod_less_divisor [of 64 n] by linarith
  then have "byte (to_byte (0x80 + n mod 64)) = 0x80 + n mod 64" by simp
  then show "continues (to_byte (0x80 + n mod 64))" "byte (to_byte (0x80 + n mod 64)) - 0x80 = n mod 64"
    by (simp_all add: continues_def)
qed

lemma split64: "64 * (n div 64) + n mod 64 = (n :: nat)"
  by simp

text \<open>Decoding what was encoded.\<close>

lemma decode_two:
  assumes "0x80 \<le> r" "r < 0x800"
  shows "decode_rune (to_byte (0xC0 + r div 64) # to_byte (0x80 + r mod 64) # s) = (r, 2)"
proof -
  have a: "2 \<le> r div 64" "r div 64 < 32" using assms by (simp_all add: less_eq_div_iff_mult_less_eq div_less_iff_less_mult)
  then have "byte (to_byte (0xC0 + r div 64)) = 0xC0 + r div 64" by simp
  moreover have "second_ok (0xC0 + r div 64) (to_byte (0x80 + r mod 64))"
    using a cont_byte(1) [of r] by (auto simp: second_ok_def)
  ultimately show ?thesis using a by (simp add: decode_rune.simps cont_byte(2))
qed

lemma decode_three:
  assumes "0x800 \<le> r" "r < 0x10000" "\<not> surrogate r"
  shows "decode_rune (to_byte (0xE0 + r div 64 div 64) # to_byte (0x80 + r div 64 mod 64) # to_byte (0x80 + r mod 64) # s) = (r, 3)"
proof -
  let ?q = "r div 64"
  have a: "?q div 64 < 16" "32 \<le> ?q" using assms by (simp_all add: less_eq_div_iff_mult_less_eq div_less_iff_less_mult)
  have b1: "byte (to_byte (0x80 + ?q mod 64)) = 0x80 + ?q mod 64"
    using mod_less_divisor [of 64 ?q] by (intro byte_to_byte_small) linarith
  have "32 \<le> ?q mod 64" if "?q div 64 = 0"
    using a(2) split64 [of ?q] that by linarith
  moreover have "?q mod 64 < 32" if "?q div 64 = 13"
  proof (rule ccontr)
    assume "\<not> ?q mod 64 < 32"
    moreover have "?q = 832 + ?q mod 64" using split64 [of ?q] that by linarith
    moreover have "?q mod 64 < 64" by simp
    ultimately have "864 \<le> ?q" "?q < 896" by linarith+
    then have "0xD800 \<le> r" "r \<le> 0xDFFF" by (auto simp: less_eq_div_iff_mult_less_eq div_less_iff_less_mult)
    with assms(3) show False by (simp add: surrogate_def)
  qed
  ultimately have "second_ok (0xE0 + ?q div 64) (to_byte (0x80 + ?q mod 64))"
    using cont_byte(1) [of ?q] a by (auto simp: second_ok_def b1)
  moreover have "byte (to_byte (0xE0 + ?q div 64)) = 0xE0 + ?q div 64" using a by simp
  ultimately show ?thesis using a cont_byte(1) [of r]
    by (simp add: decode_rune.simps cont_byte(2) split64)
qed

lemma decode_four:
  assumes "0x10000 \<le> r" "r < 0x110000"
  shows "decode_rune (to_byte (0xF0 + r div 64 div 64 div 64) # to_byte (0x80 + r div 64 div 64 mod 64) #
    to_byte (0x80 + r div 64 mod 64) # to_byte (0x80 + r mod 64) # s) = (r, 4)"
proof -
  let ?q = "r div 64 div 64"
  have q: "16 \<le> ?q" "?q < 272" using assms by (simp_all add: less_eq_div_iff_mult_less_eq div_less_iff_less_mult)
  then have a: "?q div 64 < 5" by (simp add: div_less_iff_less_mult)
  have b1: "byte (to_byte (0x80 + ?q mod 64)) = 0x80 + ?q mod 64"
    using mod_less_divisor [of 64 ?q] by (intro byte_to_byte_small) linarith
  have "16 \<le> ?q mod 64" if "?q div 64 = 0" using q split64 [of ?q] that by linarith
  moreover have "?q mod 64 < 16" if "?q div 64 = 4" using q split64 [of ?q] that by linarith
  ultimately have "second_ok (0xF0 + ?q div 64) (to_byte (0x80 + ?q mod 64))"
    using cont_byte(1) [of ?q] a by (auto simp: second_ok_def b1)
  moreover have "byte (to_byte (0xF0 + ?q div 64)) = 0xF0 + ?q div 64" using a by simp
  ultimately show ?thesis using a cont_byte(1) [of r] cont_byte(1) [of "r div 64"]
    by (simp add: decode_rune.simps cont_byte(2) split64)
qed

lemma decode_encode:
  assumes "scalar r"
  shows "decode_rune (encode_rune r @ s) = (r, length (encode_rune r))"
proof -
  consider "r < 0x80" | "0x80 \<le> r" "r < 0x800" | "0x800 \<le> r" "r < 0x10000" | "0x10000 \<le> r" by linarith
  then show ?thesis
  proof cases
    case 1
    then show ?thesis by (simp add: encode_rune_def decode_rune.simps)
  next
    case 2
    then show ?thesis using decode_two [of r s] by (simp add: encode_rune_def)
  next
    case 3
    then show ?thesis using decode_three [of r s] assms by (simp add: encode_rune_def scalar_def)
  next
    case 4
    then show ?thesis using decode_four [of r s] assms by (simp add: encode_rune_def scalar_def)
  qed
qed

text \<open>Encoding what was decoded, unless it was invalid.\<close>

lemma join64: "b < 64 \<Longrightarrow> (64 * a + b) div 64 = a" "b < 64 \<Longrightarrow> (64 * a + b) mod 64 = (b :: nat)"
  by simp_all

lemma continues_byte: "continues c \<Longrightarrow> byte c - 0x80 < 64 \<and> to_byte (0x80 + (byte c - 0x80)) = c"
  by (auto simp: continues_def)

lemma encode_decode:
  assumes "s \<noteq> []" "decode_rune s = (r, n)" "(r, n) \<noteq> bad"
  shows "scalar r" "n = length (encode_rune r)" "s = encode_rune r @ drop n s"
proof -
  obtain c0 t where s: "s = c0 # t" using assms(1) by (cases s) auto
  let ?a = "byte c0"
  have "scalar r \<and> n = length (encode_rune r) \<and> s = encode_rune r @ drop n s"
  proof (cases "?a < 0x80")
    case True
    then show ?thesis using assms(2) by (auto simp: s decode_rune.simps encode_rune_def scalar_def surrogate_def)
  next
    case False
    then have a: "0xC2 \<le> ?a" "?a \<le> 0xF4"
      using assms by (auto simp: s decode_rune.simps Let_def split: if_splits)
    with False obtain c1 s1 where t: "t = c1 # s1" and c1: "second_ok ?a c1"
      using assms by (auto simp: s decode_rune.simps Let_def split: if_splits list.splits)
    have c: "continues c1" using c1 by (simp add: second_ok_def)
    note b1 = continues_byte [OF c]
    show ?thesis
    proof (cases "?a < 0xE0")
      case True
      then have r: "r = 64 * (?a - 0xC0) + (byte c1 - 0x80)" "n = 2"
        using assms(2) False a c1 by (simp_all add: s t decode_rune.simps)
      have "r div 64 = ?a - 0xC0" "r mod 64 = byte c1 - 0x80" "0x80 \<le> r" "r < 0x800"
        unfolding r(1) using b1 a True by (simp_all only: join64) linarith+
      then show ?thesis using b1 a True
        by (simp add: encode_rune_def s t r(2) scalar_def surrogate_def)
    next
      case not2: False
      then obtain c2 s2 where t1: "s1 = c2 # s2" and c2: "continues c2"
        using assms False a c1 by (auto simp: s t decode_rune.simps Let_def split: if_splits list.splits)
      note b2 = continues_byte [OF c2]
      show ?thesis
      proof (cases "?a < 0xF0")
        case True
        let ?q = "64 * (?a - 0xE0) + (byte c1 - 0x80)"
        have r: "r = 64 * ?q + (byte c2 - 0x80)" "n = 3"
          using assms(2) False not2 True a c1 c2 by (simp_all add: s t t1 decode_rune.simps)
        have q: "r div 64 = ?q" "r mod 64 = byte c2 - 0x80" "?q div 64 = ?a - 0xE0" "?q mod 64 = byte c1 - 0x80"
          unfolding r(1) using b1 b2 by (simp_all only: join64)
        have "32 \<le> ?q" using c1 not2 by (cases "?a = 0xE0") (auto simp: second_ok_def)
        moreover have "?q < 1024" using b1 True a by linarith
        moreover have "?q < 864 \<or> 896 \<le> ?q"
        proof (cases "?a = 0xED")
          case True
          then show ?thesis using c1 by (auto simp: second_ok_def)
        next
          case False
          then have "?a \<le> 0xEC \<or> 0xEE \<le> ?a" by linarith
          then show ?thesis using b1 not2 by auto
        qed
        ultimately have "0x800 \<le> r" "r < 0x10000" "\<not> surrogate r"
          unfolding r(1) surrogate_def using b2 by auto
        then show ?thesis using b1 b2 a not2 True q
          by (simp add: encode_rune_def s t t1 r(2) scalar_def)
      next
        case not3: False
        then obtain c3 s3 where t2: "s2 = c3 # s3" and c3: "continues c3"
          using assms False not2 a c1 c2 by (auto simp: s t t1 decode_rune.simps Let_def split: if_splits list.splits)
        note b3 = continues_byte [OF c3]
        let ?p = "64 * (?a - 0xF0) + (byte c1 - 0x80)"
        let ?q = "64 * ?p + (byte c2 - 0x80)"
        have r: "r = 64 * ?q + (byte c3 - 0x80)" "n = 4"
          using assms(2) False not2 not3 a c1 c2 c3 by (simp_all add: s t t1 t2 decode_rune.simps)
        have q: "r div 64 = ?q" "r mod 64 = byte c3 - 0x80" "?q div 64 = ?p" "?q mod 64 = byte c2 - 0x80"
          "?p div 64 = ?a - 0xF0" "?p mod 64 = byte c1 - 0x80"
          unfolding r(1) using b1 b2 b3 by (simp_all only: join64)
        have "16 \<le> ?p" using c1 not3 by (cases "?a = 0xF0") (auto simp: second_ok_def)
        moreover have "?p < 272" using c1 a b1 by (cases "?a = 0xF4") (auto simp: second_ok_def)
        moreover have "0x10000 \<le> 64 * (64 * p + b) + c \<and> 64 * (64 * p + b) + c < 0x110000"
          if "16 \<le> p" "p < 272" "b < 64" "c < 64" for p b c :: nat using that by simp
        ultimately have "0x10000 \<le> r \<and> r < 0x110000" unfolding r(1) using b2 b3 by blast
        then show ?thesis using b1 b2 b3 a not3 q
          by (simp add: encode_rune_def s t t1 t2 r(2) scalar_def surrogate_def)
      qed
    qed
  qed
  then show "scalar r" "n = length (encode_rune r)" "s = encode_rune r @ drop n s" by blast+
qed

section \<open>Strings\<close>

text \<open>The runes a \<^verbatim>\<open>for range\<close> over a string gives, with their widths.\<close>

function scan_runes :: "string \<Rightarrow> (rune \<times> nat) list" where
  "scan_runes s = (if s = [] then [] else (case decode_rune s of (r, n) \<Rightarrow> (r, n) # scan_runes (drop n s)))"
  by auto
termination
  by (relation "measure length") (auto dest: decode_rune_width [rotated, OF sym])

declare scan_runes.simps [simp del]

definition runes :: "string \<Rightarrow> rune list" where
  "runes s = map fst (scan_runes s)"

definition encode_runes :: "rune list \<Rightarrow> string" where
  "encode_runes rs = concat (map encode_rune rs)"

text \<open>\<^verbatim>\<open>utf8.ValidString\<close>.\<close>

definition valid_utf8 :: "string \<Rightarrow> bool" where
  "valid_utf8 s \<longleftrightarrow> bad \<notin> set (scan_runes s)"

lemma scan_runes_Nil [simp]: "scan_runes [] = []"
  by (simp add: scan_runes.simps)

lemma scan_runes_encode:
  "scalar r \<Longrightarrow> scan_runes (encode_rune r @ s) = (r, length (encode_rune r)) # scan_runes s"
  by (subst scan_runes.simps) (simp add: decode_encode)

lemma not_bad: "scalar r \<Longrightarrow> (r, length (encode_rune r)) \<noteq> bad"
  by (auto simp: bad_def encode_rune_def rune_error_def scalar_def surrogate_def)

lemma encode_runes_simps [simp]:
  "encode_runes [] = []" "encode_runes (r # rs) = encode_rune r @ encode_runes rs"
  "encode_runes (rs @ qs) = encode_runes rs @ encode_runes qs"
  by (simp_all add: encode_runes_def)

lemma runes_encode: "\<forall>r\<in>set rs. scalar r \<Longrightarrow> runes (encode_runes rs) = rs \<and> valid_utf8 (encode_runes rs)"
  by (induction rs) (auto simp: runes_def valid_utf8_def scan_runes_encode dest: not_bad)

lemma encode_runes_runes:
  assumes "valid_utf8 s"
  shows "encode_runes (runes s) = s \<and> (\<forall>r\<in>set (runes s). scalar r)"
  using assms
proof (induction s rule: scan_runes.induct)
  case (1 s)
  show ?case
  proof (cases "s = []")
    case True
    then show ?thesis by (simp add: runes_def)
  next
    case False
    obtain r n where d: "decode_rune s = (r, n)" by fastforce
    have sr: "scan_runes s = (r, n) # scan_runes (drop n s)" using False d by (simp add: scan_runes.simps [of s])
    have "(r, n) \<noteq> bad" "valid_utf8 (drop n s)" using "1.prems" by (auto simp: valid_utf8_def sr)
    then show ?thesis
      using "1.IH" [OF False d [symmetric]] encode_decode [OF False d] by (simp add: runes_def sr)
  qed
qed

lemma valid_utf8_iff: "valid_utf8 s \<longleftrightarrow> (\<exists>rs. (\<forall>r\<in>set rs. scalar r) \<and> s = encode_runes rs)"
  using encode_runes_runes [of s] runes_encode by metis

lemma runes_Nil [simp]: "runes [] = []"
  by (simp add: runes_def)

lemma ascii_encode: "byte c < 0x80 \<Longrightarrow> encode_rune (byte c) = [c]"
  by (simp add: encode_rune_def)

text \<open>An ASCII string's runes are its bytes.\<close>

lemma runes_ascii: "\<forall>c\<in>set s. byte c < 0x80 \<Longrightarrow> runes s = map byte s"
proof (induction s)
  case (Cons c s)
  then have "encode_rune (byte c) @ s = c # s" "scalar (byte c)"
    by (auto simp: ascii_encode scalar_def surrogate_def)
  with Cons scan_runes_encode [of "byte c" s] show ?case by (simp add: runes_def)
qed simp

section \<open>Package strings: TrimSpace\<close>

text \<open>\<^verbatim>\<open>unicode.IsSpace\<close>.\<close>

definition space_runes :: "rune list" where
  "space_runes = [9, 10, 11, 12, 13, 32, 0x85, 0xA0, 0x1680] @ [0x2000..<0x200B] @ [0x2028, 0x2029, 0x202F, 0x205F, 0x3000]"

definition spaces :: "string list" where
  "spaces = map encode_rune space_runes"

text \<open>Strips prefixes in \<open>ps\<close>; at most one of them matches, and each has a byte at least.\<close>

fun strip_fuel :: "nat \<Rightarrow> string list \<Rightarrow> string \<Rightarrow> string" where
  "strip_fuel 0 ps s = s"
| "strip_fuel (Suc n) ps s =
     (case find (has_prefix s) ps of None \<Rightarrow> s | Some p \<Rightarrow> strip_fuel n ps (drop (length p) s))"

definition TrimSpace :: "string \<Rightarrow> string" where
  "TrimSpace s = (let t = strip_fuel (length s) spaces s in rev (strip_fuel (length t) (map rev spaces) (rev t)))"

section \<open>Bytes and runes of a string\<close>

lemma encode_ascii_iff: "c \<in> set (encode_rune r) \<Longrightarrow> byte c < 0x80 \<Longrightarrow> r < 0x80 \<and> encode_rune r = [c] \<and> r = byte c"
proof -
  assume c: "c \<in> set (encode_rune r)" "byte c < 0x80"
  show "r < 0x80 \<and> encode_rune r = [c] \<and> r = byte c"
  proof (cases "r < 0x80")
    case True
    then have "encode_rune r = [to_byte r]" by (simp add: encode_rune_def)
    with c True show ?thesis by simp
  next
    case False
    have "0x80 \<le> byte (to_byte (0x80 + n mod 64))" for n
      using cont_byte(1) [of n] by (simp add: continues_def)
    moreover have "0x80 \<le> byte (to_byte (0xC0 + r div 64))" if "r < 0x800"
      using that by (simp add: div_less_iff_less_mult)
    moreover have "0x80 \<le> byte (to_byte (0xE0 + r div 64 div 64))" if "r < 0x10000"
      using that by (simp add: div_less_iff_less_mult)
    moreover have "0x80 \<le> byte (to_byte (0xF0 + r div 64 div 64 div 64))" if "r < 0x110000"
      using that by (simp add: div_less_iff_less_mult)
    ultimately show ?thesis using c False by (auto simp: encode_rune_def scalar_def not_less [symmetric] split: if_splits)
  qed
qed

lemma bad_first: "s \<noteq> [] \<Longrightarrow> decode_rune s = bad \<Longrightarrow> 0x80 \<le> byte (hd s)"
  by (cases s) (auto simp: decode_rune.simps bad_def rune_error_def Let_def split: if_splits)

lemma runes_step:
  assumes "s \<noteq> []" "decode_rune s = (r, n)"
  shows "runes s = r # runes (drop n s)" "1 \<le> n"
    "(r, n) = bad \<and> 0x80 \<le> byte (hd s) \<or> s = encode_rune r @ drop n s"
proof -
  show "runes s = r # runes (drop n s)" using assms by (simp add: runes_def scan_runes.simps [of s])
  show "1 \<le> n" using decode_rune_width [OF assms] by simp
  show "(r, n) = bad \<and> 0x80 \<le> byte (hd s) \<or> s = encode_rune r @ drop n s"
    using bad_first [OF assms(1)] encode_decode(3) [OF assms] assms(2) by metis
qed

lemma ascii_in_runes: "c \<in> set s \<Longrightarrow> byte c < 0x80 \<Longrightarrow> byte c \<in> set (runes s)"
proof (induction s rule: scan_runes.induct)
  case (1 s)
  then have "s \<noteq> []" by auto
  obtain r n where d: "decode_rune s = (r, n)" by fastforce
  note step = runes_step [OF \<open>s \<noteq> []\<close> d]
  show ?case
  proof (cases "c \<in> set (drop n s)")
    case True
    then have "byte c \<in> set (runes (drop n s))" using "1.IH" [OF \<open>s \<noteq> []\<close> d [symmetric]] "1.prems" by simp
    then show ?thesis by (simp add: step(1))
  next
    case False
    from step(3) show ?thesis
    proof
      assume b: "(r, n) = bad \<and> 0x80 \<le> byte (hd s)"
      then have "drop n s = tl s" by (simp add: bad_def drop_Suc)
      with False "1.prems" \<open>s \<noteq> []\<close> have "c = hd s" by (cases s) auto
      with b "1.prems" show ?thesis by simp
    next
      assume "s = encode_rune r @ drop n s"
      then have "c \<in> set (encode_rune r)" using False "1.prems"(1) by (metis Un_iff set_append)
      with encode_ascii_iff "1.prems"(2) have "r = byte c" by blast
      then show ?thesis by (simp add: step(1))
    qed
  qed
qed

lemma runes_eq_Nil [simp]: "runes s = [] \<longleftrightarrow> s = []"
  using runes_step(1) [of s] by (cases "decode_rune s") (cases "s = []"; auto)

lemma last_rune: "s \<noteq> [] \<Longrightarrow> last (runes s) < 0x80 \<Longrightarrow> byte (last s) = last (runes s)"
proof (induction s rule: scan_runes.induct)
  case (1 s)
  obtain r n where d: "decode_rune s = (r, n)" by fastforce
  note step = runes_step [OF "1.prems"(1) d]
  show ?case
  proof (cases "drop n s = []")
    case True
    then have "runes s = [r]" by (simp add: step(1))
    with "1.prems" have "r < 0x80" by simp
    then have "(r, n) \<noteq> bad" "encode_rune r = [to_byte r]" by (auto simp: bad_def rune_error_def encode_rune_def)
    with step(3) True have "s = [to_byte r]" by (metis append_Nil2)
    with \<open>runes s = [r]\<close> \<open>r < 0x80\<close> show ?thesis by simp
  next
    case False
    then have "last (runes s) = last (runes (drop n s))" by (simp add: step(1) del: drop_eq_Nil)
    moreover have "last s = last (drop n s)" using False by (metis append_take_drop_id last_appendR)
    ultimately show ?thesis using "1.IH" [OF "1.prems"(1) d [symmetric] False] "1.prems"(2) by simp
  qed
qed

lemma length_runes: "length (runes s) \<le> length s"
proof (induction s rule: scan_runes.induct)
  case (1 s)
  show ?case
  proof (cases "s = []")
    case False
    obtain r n where d: "decode_rune s = (r, n)" by fastforce
    note step = runes_step [OF False d]
    have "length (runes (drop n s)) \<le> length (drop n s)" using "1.IH" [OF False d [symmetric]] by simp
    then show ?thesis using step(2) decode_rune_width [OF False d] unfolding step(1) length_drop by auto
  qed simp
qed

section \<open>What TrimSpace leaves\<close>

lemma strip_done:
  assumes "length s \<le> n" "\<forall>p\<in>set ps. p \<noteq> []"
  shows "(\<forall>p\<in>set ps. \<not> has_prefix (strip_fuel n ps s) p) \<and> (\<exists>u. s = u @ strip_fuel n ps s)"
  using assms(1)
proof (induction n arbitrary: s)
  case 0
  with assms(2) show ?case by (auto simp: has_prefix_iff)
next
  case (Suc n)
  show ?case
  proof (cases "find (has_prefix s) ps")
    case None
    then have "\<forall>p\<in>set ps. \<not> has_prefix s p" by (simp add: find_None_iff)
    with None show ?thesis by simp
  next
    case (Some p)
    then have p: "p \<in> set ps" "has_prefix s p" by (auto simp: find_Some_iff)
    then have "p \<noteq> []" using assms(2) by blast
    moreover obtain v where "s = p @ v" using p(2) by (auto simp: has_prefix_iff)
    ultimately have "length (drop (length p) s) \<le> n" using Suc.prems by (cases p) auto
    from Suc.IH [OF this] obtain u where
      "\<forall>q\<in>set ps. \<not> has_prefix (strip_fuel n ps (drop (length p) s)) q" "drop (length p) s = u @ strip_fuel n ps (drop (length p) s)"
      by blast
    with \<open>s = p @ v\<close> Some show ?thesis by (auto intro!: exI [of _ "p @ u"])
  qed
qed


lemma prefixes_nonempty: "\<forall>p\<in>set spaces. p \<noteq> []" "\<forall>p\<in>set (map rev spaces). p \<noteq> []"
  by (auto simp: spaces_def)

lemma TrimSpace_ends: "p \<in> set spaces \<Longrightarrow> \<not> has_prefix (rev (TrimSpace s)) (rev p)"
  unfolding TrimSpace_def Let_def rev_rev_ident
  using strip_done [OF _ prefixes_nonempty(2), of "rev (strip_fuel (length s) spaces s)"] by simp

lemma TrimSpace_infix: "\<exists>u v. s = u @ TrimSpace s @ v"
proof -
  define t where "t = strip_fuel (length s) spaces s"
  have "TrimSpace s = rev (strip_fuel (length t) (map rev spaces) (rev t))" by (simp only: TrimSpace_def t_def Let_def)
  moreover obtain v where "rev t = v @ strip_fuel (length t) (map rev spaces) (rev t)"
    using strip_done [OF _ prefixes_nonempty(2), of "rev t" "length t"] by auto
  moreover obtain u where "s = u @ t" using strip_done [OF order_refl prefixes_nonempty(1), of s] by (auto simp: t_def)
  ultimately show ?thesis by (metis append.assoc rev_append rev_rev_ident)
qed

lemma TrimSpace_last: "TrimSpace s \<noteq> [] \<Longrightarrow> byte (last (TrimSpace s)) \<notin> {9, 10, 11, 12, 13, 32}"
proof
  assume t: "TrimSpace s \<noteq> []" "byte (last (TrimSpace s)) \<in> {9, 10, 11, 12, 13, 32}"
  then have "byte (last (TrimSpace s)) \<in> set space_runes" by (auto simp: space_runes_def)
  then have "encode_rune (byte (last (TrimSpace s))) \<in> set spaces" by (simp add: spaces_def)
  moreover have "encode_rune (byte (last (TrimSpace s))) = [last (TrimSpace s)]" using t(2) by (auto intro!: ascii_encode)
  ultimately have "[last (TrimSpace s)] \<in> set spaces" by simp
  from TrimSpace_ends [OF this, of s] show False using t(1) by (cases "TrimSpace s" rule: rev_cases) (auto simp: has_prefix_iff)
qed

lemma TrimSpace_first: "TrimSpace s \<noteq> [] \<Longrightarrow> byte (hd (TrimSpace s)) \<notin> {9, 10, 11, 12, 13, 32}"
proof
  define t where "t = strip_fuel (length s) spaces s"
  assume t: "TrimSpace s \<noteq> []" "byte (hd (TrimSpace s)) \<in> {9, 10, 11, 12, 13, 32}"
  have "TrimSpace s = rev (strip_fuel (length t) (map rev spaces) (rev t))" by (simp only: TrimSpace_def t_def Let_def)
  moreover obtain v where "rev t = v @ strip_fuel (length t) (map rev spaces) (rev t)"
    using strip_done [OF _ prefixes_nonempty(2), of "rev t" "length t"] by auto
  ultimately have tv: "t = TrimSpace s @ rev v" by (metis rev_append rev_rev_ident)
  have "byte (hd (TrimSpace s)) \<in> set space_runes" using t(2) by (auto simp: space_runes_def)
  then have "encode_rune (byte (hd (TrimSpace s))) \<in> set spaces" by (simp add: spaces_def)
  moreover have "encode_rune (byte (hd (TrimSpace s))) = [hd (TrimSpace s)]" using t(2) by (auto intro!: ascii_encode)
  ultimately have "\<not> has_prefix t [hd (TrimSpace s)]"
    using strip_done [OF order_refl prefixes_nonempty(1), of s] by (simp add: t_def)
  moreover have "t = [hd (TrimSpace s)] @ tl (TrimSpace s) @ rev v" using tv t(1) by simp
  ultimately show False by (metis has_prefix_append)
qed

lemma first_rune: "s \<noteq> [] \<Longrightarrow> hd (runes s) < 0x80 \<Longrightarrow> byte (hd s) = hd (runes s)"
proof -
  assume s: "s \<noteq> []" "hd (runes s) < 0x80"
  obtain r n where d: "decode_rune s = (r, n)" by fastforce
  note step = runes_step [OF s(1) d]
  have r: "r < 0x80" using s(2) by (simp add: step(1))
  then have "(r, n) \<noteq> bad" "encode_rune r = [to_byte r]" by (auto simp: bad_def rune_error_def encode_rune_def)
  with step(3) have "s = [to_byte r] @ drop n s" by simp
  then have "hd s = to_byte r" by (metis append_Cons list.sel(1))
  with r show ?thesis by (simp add: step(1))
qed

lemma valid_ascii: "\<forall>c\<in>set s. byte c < 0x80 \<Longrightarrow> valid_utf8 s"
proof -
  assume a: "\<forall>c\<in>set s. byte c < 0x80"
  then have "encode_runes (map byte s) = s" by (induction s) (simp_all add: ascii_encode)
  moreover have "\<forall>r\<in>set (map byte s). scalar r" using a by (fastforce simp: scalar_def surrogate_def)
  ultimately show ?thesis unfolding valid_utf8_iff by (metis (no_types))
qed

end
