(* ===== verification/Lctl.thy ===== *)
theory Lctl
  imports Liercd Utf8
begin

text \<open>
  What the admin commands share (\<^verbatim>\<open>internal/lctl/lctl.go\<close>, and the liercd calls of
  \<^verbatim>\<open>reconnect.go\<close>, \<^verbatim>\<open>check_connections.go\<close> and \<^verbatim>\<open>move_connection.go\<close>): the environment, reading ids,
  running a command and its exit code, and destroying and creating one connection.

  A command takes the values of its flags and its remaining arguments, what \<^verbatim>\<open>Parse\<close> leaves
  in the flag variables; parsing the command line is the library's \<^verbatim>\<open>flag\<close> package.
\<close>

section \<open>Package time: Duration.String\<close>

definition pad_digits :: "nat \<Rightarrow> nat \<Rightarrow> string" where
  "pad_digits w n = (let s = show_nat n in replicate (w - length s) (CHR ''0'') @ s)"

definition frac :: "nat \<Rightarrow> nat \<Rightarrow> string" where
  "frac v prec = (let f = rev (dropWhile (\<lambda>c. c = CHR ''0'') (rev (pad_digits prec (v mod 10 ^ prec))))
     in if f = '''' then '''' else CHR ''.'' # f)"

definition dur_nat :: "nat \<Rightarrow> string" where
  "dur_nat u =
     (if u = 0 then ''0s''
      else if u < 1000 then show_nat u @ ''ns''
      else if u < 1000000 then show_nat (u div 1000) @ frac u 3 @ [CHR 0xC2, CHR 0xB5] @ ''s''
      else if u < 1000000000 then show_nat (u div 1000000) @ frac u 6 @ ''ms''
      else (let s = u div 1000000000; m = s div 60; h = m div 60 in
        (if h > 0 then show_nat h @ ''h'' else '''') @
        (if m > 0 then show_nat (m mod 60) @ ''m'' else '''') @
        show_nat (s mod 60) @ frac u 9 @ ''s''))"

definition show_duration :: "int \<Rightarrow> string" where
  "show_duration d = (if d < 0 then CHR ''-'' # dur_nat (nat (- d)) else dur_nat (nat d))"

section \<open>The environment\<close>

text \<open>
  \<^verbatim>\<open>Env\<close>: \<open>LiercdNextHost\<close> is of its \<^verbatim>\<open>Config\<close>; \<open>Stdin\<close> is what stdin holds, \<open>None\<close> for nil;
  \<open>Now\<close> is the time in nanoseconds.
\<close>

record env =
  LiercdNextHost :: string
  Liercd :: client
  Stdin :: "string option"
  StdinIsTerminal :: bool
  Now :: int

text \<open>The liercd part of \<^verbatim>\<open>OpenEnv\<close>.\<close>

definition OpenEnv :: "instances \<Rightarrow> string option \<Rightarrow> bool \<Rightarrow> int \<Rightarrow> env" where
  "OpenEnv hosts stdin terminal now =
     \<lparr>LiercdNextHost = Next hosts, Liercd = NewRouted hosts LookupLiercd, Stdin = stdin,
      StdinIsTerminal = terminal, Now = now\<rparr>"

text \<open>\<^verbatim>\<open>Fprintf\<close> and \<^verbatim>\<open>Fprintln\<close> of a line.\<close>

definition line :: "string \<Rightarrow> string" where
  "line s = s @ [CHR 0x0A]"

section \<open>Reading ids\<close>

text \<open>
  The lines \<^verbatim>\<open>bufio.Scanner\<close> gives: cut at newlines, without a carriage return at the end, no
  last line when the input ends with a newline; \<open>None\<close> is its error, a line (with its newline)
  that does not fit in a buffer of 65536 bytes.
\<close>

definition drop_cr :: "string \<Rightarrow> string" where
  "drop_cr s = (if s \<noteq> '''' \<and> last s = CHR 0x0D then butlast s else s)"

definition scan_lines :: "string \<Rightarrow> string list option" where
  "scan_lines s = (let ls = split_on (CHR 0x0A) s;
       ls = (if last ls = '''' then butlast ls else ls)
     in if \<exists>l\<in>set ls. length l \<ge> 65536 then None else Some (map drop_cr ls))"

definition ReadIDs :: "env \<Rightarrow> string list \<Rightarrow> goerr + string list" where
  "ReadIDs env args =
     (if args \<noteq> [] then Inr args
      else if StdinIsTerminal env \<or> Stdin env = None then Inr []
      else (case scan_lines (the (Stdin env)) of
          None \<Rightarrow> Inl (Err ''reading ids from stdin: bufio.Scanner: token too long'')
        | Some ls \<Rightarrow>
            (case filter (\<lambda>l. l \<noteq> '''') (map TrimSpace ls) of
               [] \<Rightarrow> Inl ErrNoIDsOnStdin
             | ids \<Rightarrow> Inr ids)))"

section \<open>Running a command\<close>

record command =
  Name :: string
  Summary :: string
  Run :: "env \<Rightarrow> string list \<Rightarrow> (goerr + unit) prog"

text \<open>\<^verbatim>\<open>%-*s\<close>.\<close>

definition pad_right :: "nat \<Rightarrow> string \<Rightarrow> string" where
  "pad_right w s = s @ replicate (w - length s) (CHR '' '')"

definition help_lines :: "command list \<Rightarrow> string list" where
  "help_lines cmds =
     [line ''usage: lctl COMMAND [options] [args]   (lctl COMMAND -h for a command's usage)'',
      line ''over ssh, use ssh -t unless you pipe ids in: ssh -t relaychat sudo lctl COMMAND'',
      line ''''] @
     (let width = fold (\<lambda>c w. max w (length (Name c))) cmds 0 in
      map (\<lambda>c. line (''  '' @ pad_right width (Name c) @ ''  '' @ Summary c)) cmds)"

fun print_all :: "(string \<Rightarrow> unit prog) \<Rightarrow> string list \<Rightarrow> unit prog" where
  "print_all p [] = Ret ()"
| "print_all p (l # ls) = bind (p l) (\<lambda>_. print_all p ls)"

definition mainWith :: "string list \<Rightarrow> command list \<Rightarrow> (goerr + env) prog \<Rightarrow> nat prog" where
  "mainWith args cmds open_env =
     (if args = [] \<or> hd args = ''help'' \<or> hd args = ''-h'' \<or> hd args = ''--help''
      then bind (print_all print (help_lines cmds)) (\<lambda>_. Ret 0)
      else (case filter (\<lambda>c. Name c = hd args) cmds of
          [] \<Rightarrow> say_err (line (''lctl: unknown command '' @ hd args))
            (bind (print_all eprint (help_lines cmds)) (\<lambda>_. Ret 2))
        | found \<Rightarrow> (let cmd = last found in
            bind open_env (\<lambda>r. case r of
              Inl err \<Rightarrow> say_err (line (''lctl '' @ Name cmd @ '': '' @ err_text err)) (Ret 1)
            | Inr env \<Rightarrow> bind (Run cmd env (tl args)) (\<lambda>r. case r of
                Inr _ \<Rightarrow> Ret 0
              | Inl ErrHelp \<Rightarrow> Ret 0
              | Inl (UsageError msg) \<Rightarrow>
                  (if msg \<noteq> '''' then say_err (line (''lctl '' @ Name cmd @ '': '' @ msg)) else (\<lambda>p. p))
                  (say_err (line (''run 'lctl '' @ Name cmd @ '' -h' for usage'')) (Ret 2))
              | Inl err \<Rightarrow> say_err (line (''lctl '' @ Name cmd @ '': '' @ err_text err)) (Ret 1))))))"

section \<open>Destroying and creating a connection\<close>

text \<open>
  \<^verbatim>\<open>destroy\<close>: the problem, empty for 200 and 404. \<open>destroyOn\<close> also tells whether it was running.
\<close>

definition destroy :: "env \<Rightarrow> string \<Rightarrow> string prog" where
  "destroy env cid = bind (Do (Liercd env) POST (cid @ ''/destroy'') None) (\<lambda>r. case r of
     Inl err \<Rightarrow> Ret (err_text err)
   | Inr res \<Rightarrow> if Status res = 200 \<or> Status res = 404 then Ret '''' else Ret (statusLine (Status res)))"

definition destroyOn :: "client \<Rightarrow> string \<Rightarrow> (string \<times> bool) prog" where
  "destroyOn c cid = bind (Do c POST (cid @ ''/destroy'') None) (\<lambda>r. case r of
     Inl err \<Rightarrow> Ret (err_text err, False)
   | Inr res \<Rightarrow>
       if Status res = 200 then Ret ('''', True)
       else if Status res = 404 then Ret ('''', False)
       else Ret (statusLine (Status res), False))"

definition createOn :: "client \<Rightarrow> string \<Rightarrow> string \<Rightarrow> (goerr + unit) prog" where
  "createOn c cid config = bind (Do c POST (cid @ ''/create'') (Some config)) (\<lambda>r. case r of
     Inl err \<Rightarrow> raise (Err (''creating '' @ cid @ '': '' @ err_text err))
   | Inr res \<Rightarrow>
       if Status res \<noteq> 200
       then raise (Err (''creating '' @ cid @ '': liercd said '' @ statusLine (Status res) @ '': '' @ TrimSpace (Body res)))
       else return ())"

definition create :: "env \<Rightarrow> string \<Rightarrow> string \<Rightarrow> (goerr + unit) prog" where
  "create env cid config = createOn (Liercd env) cid config"

text \<open>\<^verbatim>\<open>reconnectOne\<close>, \<^verbatim>\<open>reconnect\<close>.\<close>

definition reconnectOne :: "env \<Rightarrow> string \<Rightarrow> (goerr + unit) prog" where
  "reconnectOne env cid = bind (LookupConfig cid) (\<lambda>r. case r of
     Inl err \<Rightarrow> raise (Err (''looking up '' @ cid @ '': '' @ err_text err))
   | Inr None \<Rightarrow> raise (Err (''unknown connection '' @ cid))
   | Inr (Some config) \<Rightarrow> bind (destroy env cid) (\<lambda>problem.
       if problem \<noteq> '''' then raise (Err (''destroying '' @ cid @ '': liercd said '' @ problem))
       else create env cid config))"

fun reconnect_loop :: "env \<Rightarrow> string list \<Rightarrow> nat \<Rightarrow> nat \<Rightarrow> (goerr + nat \<times> nat) prog" where
  "reconnect_loop env [] done failed = return (done, failed)"
| "reconnect_loop env (i # is) done failed = attempt ctx_err (\<lambda>_.
     bind (reconnectOne env i) (\<lambda>r. case r of
       Inl err \<Rightarrow> say (line (err_text err)) (reconnect_loop env is done (failed + 1))
     | Inr _ \<Rightarrow> say (line (''reconnected '' @ i)) (reconnect_loop env is (done + 1) failed)))"

definition reconnect :: "env \<Rightarrow> string list \<Rightarrow> (goerr + unit) prog" where
  "reconnect env args =
     (let ids = ReadIDs env args in
      case ids of
        Inl err \<Rightarrow> if err \<noteq> ErrNoIDsOnStdin then raise err
          else raise (UsageError ''give connection ids as arguments or on stdin'')
      | Inr ids \<Rightarrow>
          if ids = [] then raise (UsageError ''give connection ids as arguments or on stdin'')
          else attempt (reconnect_loop env ids 0 0) (\<lambda>(done, failed).
            say (line (''reconnected '' @ show_nat done @ '', failed '' @ show_nat failed))
              (if failed > 0
               then raise (Err (show_nat failed @ '' of '' @ show_nat (length ids) @ '' connection(s) failed''))
               else return ())))"

end
