(* ===== verification/Move.thy ===== *)
theory Move
  imports Lctl World
begin

text \<open>
  \<^verbatim>\<open>move_connection.go\<close> and \<^verbatim>\<open>move_connections.go\<close>: moving a connection from one liercd instance
  to the other, and moving all of an instance's connections in paced batches. The properties
  say in which order a move changes things whatever the services answer, what it leaves in a
  world whose services work, and what a concurrent recreate can do to it.
\<close>

section \<open>One connection\<close>

text \<open>\<^verbatim>\<open>moveOne\<close>, from the second destroy on.\<close>

definition finish_move :: "client \<Rightarrow> client \<Rightarrow> string \<Rightarrow> string \<Rightarrow> string \<Rightarrow> string \<Rightarrow> bool \<Rightarrow> (goerr + bool) prog" where
  "finish_move src dst cid source target config wasRunning =
     bind (destroyOn src cid) (\<lambda>(problem, slippedIn).
       if problem \<noteq> '''' then
         say (line (cid @ '' is now on '' @ target @ '', but destroying it again on '' @ source @
               '' failed: liercd said '' @ problem @ ''; check it isn't running there, then run lctl reconnect '' @ cid))
           (raise (Err (''destroying '' @ cid @ '' on '' @ source @ '' again: liercd said '' @ problem)))
       else
         (if slippedIn then say (line (''a recreate on '' @ source @ '' slipped in during the move; destroyed it there''))
          else (\<lambda>p. p))
         (if \<not> wasRunning \<and> \<not> slippedIn then
            say (line (''moved '' @ cid @ '' from '' @ source @ '' to '' @ target @
                  ''; it wasn't running, so it will start there when its user's stream next opens''))
              (return False)
          else bind (createOn dst cid config) (\<lambda>r. case r of
              Inl err \<Rightarrow>
                say (line (cid @ '' is now on '' @ target @ '', but creating it there failed: '' @ err_text err @
                      ''; it will be created when its user's stream next opens, or run lctl reconnect '' @ cid))
                  (raise err)
            | Inr _ \<Rightarrow> say (line (''moved '' @ cid @ '' from '' @ source @ '' to '' @ target)) (return True))))"

definition stored_name :: "string \<Rightarrow> string" where
  "stored_name target = (if target = ''main'' then '''' else target)"

text \<open>\<^verbatim>\<open>moveOne\<close> in three parts: from the status request to the target on, from the source's name
  on, and as a whole.\<close>

definition move_between :: "client \<Rightarrow> client \<Rightarrow> string \<Rightarrow> string \<Rightarrow> string \<Rightarrow> string \<Rightarrow> (goerr + bool) prog" where
  "move_between src dst cid source target config =
     bind (Do dst GET (cid @ ''/status'') None) (\<lambda>r. case r of
       Inl err \<Rightarrow> raise (Err (''liercd instance '' @ target @ '' isn't reachable: '' @ err_text err))
     | Inr res \<Rightarrow>
         if Status res = 200 then raise (Err (cid @ '' is already running on '' @ target))
         else if Status res \<noteq> 404 then
           raise (Err (''liercd instance '' @ target @ '' isn't reachable: liercd said '' @ statusLine (Status res)))
         else bind (destroyOn src cid) (\<lambda>(problem, wasRunning).
           if problem \<noteq> '''' then
             raise (Err (''destroying '' @ cid @ '' on '' @ source @ '': liercd said '' @ problem))
           else attempt (SetLiercd cid (stored_name target)) (\<lambda>_.
             finish_move src dst cid source target config wasRunning)))"

definition move_from :: "env \<Rightarrow> string \<Rightarrow> string \<Rightarrow> string \<Rightarrow> string \<Rightarrow> (goerr + bool) prog" where
  "move_from env cid target config source =
     (if source = target then raise (Err (cid @ '' is already on '' @ target))
      else if target = ''next'' \<and> LiercdNextHost env = '''' then
        raise (Err (''can't move '' @ cid @ '' to next: LIERCD_NEXT_HOST is not set''))
      else (case For (Liercd env) source of
          Inl err \<Rightarrow> raise err
        | Inr src \<Rightarrow> (case For (Liercd env) target of
            Inl err \<Rightarrow> raise err
          | Inr dst \<Rightarrow> move_between src dst cid source target config)))"

definition moveOne :: "env \<Rightarrow> string \<Rightarrow> string \<Rightarrow> (goerr + bool) prog" where
  "moveOne env cid target =
     attempt (LookupConfig cid) (\<lambda>c. case c of
       None \<Rightarrow> raise (Err (''unknown connection '' @ cid))
     | Some config \<Rightarrow> attempt (LookupLiercd cid) (\<lambda>source.
         move_from env cid target config (if source = '''' then ''main'' else source)))"

text \<open>\<^verbatim>\<open>moveConnection\<close>, given its arguments.\<close>

definition moveConnection :: "env \<Rightarrow> string list \<Rightarrow> (goerr + unit) prog" where
  "moveConnection env args = (case args of
     [cid, target] \<Rightarrow>
       if target \<noteq> ''main'' \<and> target \<noteq> ''next'' then
         raise (UsageError (''target must be main or next, not '' @ quote target))
       else attempt (moveOne env cid target) (\<lambda>_. return ())
   | _ \<Rightarrow> raise (UsageError ''give a connection id and main or next''))"

section \<open>All connections of an instance\<close>

text \<open>\<^verbatim>\<open>connectionsOn\<close>, \<^verbatim>\<open>dormantOn\<close>; a connection with its owner's name.\<close>

definition connectionsOn :: "string \<Rightarrow> (goerr + (string \<times> string) list) prog" where
  "connectionsOn inst = query_all (SelectConnectionsOn (stored_name inst)) (scan2 scan_string scan_string)"

fun dormant_loop :: "client \<Rightarrow> string \<Rightarrow> (string \<times> string) list \<Rightarrow> (string \<times> string) list \<Rightarrow> nat \<Rightarrow>
    (goerr + (string \<times> string) list \<times> nat) prog" where
  "dormant_loop c inst [] dormant running = return (dormant, running)"
| "dormant_loop c inst (conn # conns) dormant running =
     bind (Do c GET (fst conn @ ''/status'') None) (\<lambda>r. case r of
       Inl err \<Rightarrow> raise (Err (''asking '' @ inst @ '' whether '' @ fst conn @ '' is running: '' @ err_text err))
     | Inr res \<Rightarrow>
         if Status res = 200 then dormant_loop c inst conns dormant (running + 1)
         else if Status res = 404 then dormant_loop c inst conns (dormant @ [conn]) running
         else raise (Err (''asking '' @ inst @ '' whether '' @ fst conn @ '' is running: liercd said '' @
                statusLine (Status res))))"

definition dormantOn :: "env \<Rightarrow> string \<Rightarrow> (string \<times> string) list \<Rightarrow> (goerr + (string \<times> string) list \<times> nat) prog" where
  "dormantOn env inst conns = (case For (Liercd env) inst of
     Inl err \<Rightarrow> raise err
   | Inr c \<Rightarrow> dormant_loop c inst conns [] 0)"

text \<open>The values of \<open>move-connections\<close>' flags.\<close>

record move_flags =
  m_move :: bool
  m_dormant :: bool
  m_batch :: int
  m_pause :: int
  m_limit :: int

text \<open>
  The loop of \<^verbatim>\<open>moveConnections\<close>: \<open>n\<close> connections in all, \<open>i\<close> handled, \<open>started\<close> of them
  started.
\<close>

definition stopped_after :: "nat \<Rightarrow> nat \<Rightarrow> string" where
  "stopped_after i n = ''stopped after moving '' @ show_nat i @ '' of '' @ show_nat n @ '' connection(s)''"

fun move_loop :: "env \<Rightarrow> string \<Rightarrow> move_flags \<Rightarrow> nat \<Rightarrow> nat \<Rightarrow> nat \<Rightarrow> (string \<times> string) list \<Rightarrow> (goerr + nat) prog" where
  "move_loop env to fl n i started [] = return started"
| "move_loop env to fl n i started (c # cs) =
     bind ctx_err (\<lambda>r. case r of
       Inl err \<Rightarrow> say (line (stopped_after i n)) (raise err)
     | Inr _ \<Rightarrow>
     bind (moveOne env (fst c) to) (\<lambda>r. case r of
       Inl err \<Rightarrow> say (line (stopped_after i n @ '': '' @ fst c @ '': '' @ err_text err)) (raise err)
     | Inr s \<Rightarrow>
       if \<not> s then move_loop env to fl n (i + 1) started cs
       else if int (started + 1) mod m_batch fl = 0 \<and> int i < int n - 1 then
         say (line (''started '' @ show_nat (started + 1) @ '', pausing '' @ show_duration (m_pause fl)))
           (bind (sleep (m_pause fl)) (\<lambda>r. case r of
              Inl err \<Rightarrow> say (line (stopped_after (i + 1) n)) (raise err)
            | Inr _ \<Rightarrow> move_loop env to fl n (i + 1) (started + 1) cs))
       else move_loop env to fl n (i + 1) (started + 1) cs))"

fun say_all :: "string list \<Rightarrow> 'a prog \<Rightarrow> 'a prog" where
  "say_all [] p = p"
| "say_all (l # ls) p = say l (say_all ls p)"

text \<open>What \<open>moveConnections\<close> does with the connections it selected.\<close>

definition move_selected :: "env \<Rightarrow> move_flags \<Rightarrow> string \<Rightarrow> string \<Rightarrow> string \<Rightarrow> string \<Rightarrow> nat \<Rightarrow>
    (string \<times> string) list \<Rightarrow> (goerr + unit) prog" where
  "move_selected env fl from to kind aside running conns =
    (let todo = (if m_limit fl > 0 \<and> m_limit fl < int (length conns) then take (nat (m_limit fl)) conns else conns)
     in if \<not> m_move fl then
       say (line (''would move '' @ show_nat (length todo) @
           (if length todo < length conns then '' of '' @ show_nat (length conns) else '''') @
           '' '' @ kind @ ''connection(s) from '' @ from @ '' to '' @ to @ aside @ '':''))
         (say_all (map (\<lambda>c. line (''  '' @ fst c @ '' ('' @ snd c @ '')'')) todo)
           (say (line ''run again with --move to move them'') (return ())))
     else if to = ''next'' \<and> LiercdNextHost env = '''' then
       raise (Err ''can't move to next: LIERCD_NEXT_HOST is not set'')
     else attempt (move_loop env to fl (length todo) 0 0 todo) (\<lambda>started.
       say (line (''moved '' @ show_nat (length todo) @ '' connection(s) from '' @ from @ '' to '' @ to @
           (if length conns > length todo
            then '' ('' @ show_nat (length conns - length todo) @ '' '' @ kind @ ''left on '' @ from @ '')'' else '''')))
         ((if running > 0 then say (line (''left '' @ show_nat running @ '' running connection(s) on '' @ from))
           else (\<lambda>p. p))
          ((if length todo > started
            then say (line (''started '' @ show_nat started @ '' on '' @ to @ ''; '' @ show_nat (length todo - started) @
                '' weren't running and will start when their users' streams next open''))
            else (\<lambda>p. p)) (return ())))))"

definition moveConnections :: "env \<Rightarrow> move_flags \<Rightarrow> string list \<Rightarrow> (goerr + unit) prog" where
  "moveConnections env fl args = (case args of
     [from, to] \<Rightarrow>
       (case filter (\<lambda>inst. inst \<noteq> ''main'' \<and> inst \<noteq> ''next'') [from, to] of
          inst # _ \<Rightarrow> raise (UsageError (''instances are main or next, not '' @ quote inst))
        | [] \<Rightarrow>
          if from = to then raise (UsageError ''the instances must differ'')
          else if m_batch fl < 1 then raise (UsageError ''--batch must be at least 1'')
          else if m_limit fl < 0 then raise (UsageError ''--limit can't be negative'')
          else if m_pause fl < 0 then raise (UsageError ''--pause can't be negative'')
          else attempt (connectionsOn from) (\<lambda>conns.
            if conns = [] then say (line (''no connections on '' @ from)) (return ())
            else if m_dormant fl then
              attempt (dormantOn env from conns) (\<lambda>(conns, running).
                let aside = '' ('' @ show_nat running @ '' running left alone)'' in
                if conns = [] then say (line (''no dormant connections on '' @ from @ aside)) (return ())
                else move_selected env fl from to ''dormant '' aside running conns)
            else move_selected env fl from to '''' '''' 0 conns))
   | _ \<Rightarrow> raise (UsageError ''give the instance to move from and the one to move to''))"

section \<open>The order of a move's changes\<close>

lemma wp_destroyOn [wp_simps]:
  assumes "instanceOf c = None"
  shows "wp (destroyOn c i) Q h \<longleftrightarrow>
    (\<forall>e. described e \<longrightarrow>
       Q (h @ [(Http (BaseURL c) POST (trimSlash (i @ ''/destroy'')) None, Failed e)]) (err_text e, False)) \<and>
    (\<forall>x. Q (h @ [(Http (BaseURL c) POST (trimSlash (i @ ''/destroy'')) None, Responded x)])
       (if Status x = 200 then ('''', True) else if Status x = 404 then ('''', False)
        else (statusLine (Status x), False)))"
  unfolding destroyOn_def by (auto simp: assms wp_simps)

lemma wp_createOn [wp_simps]:
  assumes "instanceOf c = None"
  shows "wp (createOn c i cfg) Q h \<longleftrightarrow>
    (\<forall>e. described e \<longrightarrow> Q (h @ [(Http (BaseURL c) POST (trimSlash (i @ ''/create'')) (Some cfg), Failed e)])
       (Inl (Err (''creating '' @ i @ '': '' @ err_text e)))) \<and>
    (\<forall>x. Q (h @ [(Http (BaseURL c) POST (trimSlash (i @ ''/create'')) (Some cfg), Responded x)])
       (if Status x = 200 then Inr ()
        else Inl (Err (''creating '' @ i @ '': liercd said '' @ statusLine (Status x) @ '': '' @ TrimSpace (Body x)))))"
  unfolding createOn_def by (auto simp: assms wp_simps)

lemma statusLine_not_Nil [simp]: "statusLine n \<noteq> []"
  by (simp add: statusLine_def)

text \<open>
  The changes a move of \<open>i\<close> from the instance at \<open>sb\<close> to \<open>target\<close> at \<open>tb\<close> makes, and what it
  returns: by how many changes were made.
\<close>

definition gone :: "event \<Rightarrow> bool" where
  "gone e \<longleftrightarrow> answered (\<lambda>s. s = 200 \<or> s = 404) e"

fun affected :: "event \<Rightarrow> bool" where
  "affected (x, Affected _) = True"
| "affected _ = False"

fun move_log :: "string \<Rightarrow> string \<Rightarrow> string \<Rightarrow> string \<Rightarrow> string \<Rightarrow> event list \<Rightarrow> goerr + bool \<Rightarrow> bool" where
  "move_log sb tb i target config log r =
     (let d = Http sb POST (trimSlash (i @ ''/destroy'')) None;
          u = Exec (UpdateLiercd i (if target = ''main'' then None else Some target));
          c = Http tb POST (trimSlash (i @ ''/create'')) (Some config)
      in case log of
         [] \<Rightarrow> isl r
       | [e1] \<Rightarrow> fst e1 = d \<and> \<not> gone e1 \<and> isl r
       | [e1, e2] \<Rightarrow> fst e1 = d \<and> gone e1 \<and> fst e2 = u \<and> \<not> affected e2 \<and> isl r
       | [e1, e2, e3] \<Rightarrow> fst e1 = d \<and> gone e1 \<and> fst e2 = u \<and> affected e2 \<and> fst e3 = d \<and>
           (if gone e3 then \<not> answered (\<lambda>s. s = 200) e1 \<and> \<not> answered (\<lambda>s. s = 200) e3 \<and> r = Inr False else isl r)
       | [e1, e2, e3, e4] \<Rightarrow> fst e1 = d \<and> gone e1 \<and> fst e2 = u \<and> affected e2 \<and> fst e3 = d \<and> gone e3 \<and>
           (answered (\<lambda>s. s = 200) e1 \<or> answered (\<lambda>s. s = 200) e3) \<and> fst e4 = c \<and>
           (if answered (\<lambda>s. s = 200) e4 then r = Inr True else isl r)
       | _ \<Rightarrow> False)"

definition move_ok :: "instances \<Rightarrow> string \<Rightarrow> string \<Rightarrow> event list \<Rightarrow> goerr + bool \<Rightarrow> bool" where
  "move_ok hosts i target es r \<longleftrightarrow>
     guarded (\<lambda>e. (\<exists>rep. e = (Http (address hosts target) GET (trimSlash (i @ ''/status'')) None, rep)) \<and>
                  answered (\<lambda>s. s = 404) e) (\<lambda>e. changes (fst e)) es \<and>
     (changing es = [] \<and> isl r \<or>
      target \<in> {''main'', ''next''} \<and> (Next hosts = '''' \<longrightarrow> changing es = []) \<and>
      (\<exists>config. config_read i es = Some config \<and>
         move_log (address hosts (other target)) (address hosts target) i target config (changing es) r))"

lemma move_ok_unchanged:
  "changing es = [] \<Longrightarrow> move_ok hosts i target es (Inl e)"
proof -
  assume c: "changing es = []"
  then have "guarded P (\<lambda>e. changes (fst e)) es" for P
    by (intro guarded_none) (auto simp: changing_def filter_empty_conv)
  with c show ?thesis by (simp add: move_ok_def)
qed

lemma config_read_append: "config_read i h = Some c \<Longrightarrow> config_read i (h @ es) = Some c"
  by (cases "(i, h)" rule: config_read.cases) auto

lemma changing_simps [simp]:
  "changes (Http b POST p b1)" "\<not> changes (Http b GET p b1)" "changes (Exec s)" "\<not> changes (Query s)"
  "\<not> changes (Print x)" "\<not> changes (EPrint x)" "\<not> changes CtxErr" "\<not> changes (Sleep d)"
  by simp_all

definition status_404 :: "instances \<Rightarrow> string \<Rightarrow> string \<Rightarrow> event \<Rightarrow> bool" where
  "status_404 hosts i target e \<longleftrightarrow>
     (\<exists>rep. e = (Http (address hosts target) GET (trimSlash (i @ ''/status'')) None, rep)) \<and> answered (\<lambda>s. s = 404) e"

lemma move_okI:
  assumes "\<exists>e\<in>set h. status_404 hosts i target e" "guarded (status_404 hosts i target) (\<lambda>e. changes (fst e)) h"
    "config_read i h = Some config" "target \<in> {''main'', ''next''}" "Next hosts \<noteq> ''''"
    "move_log (address hosts (other target)) (address hosts target) i target config (changing (h @ es)) r"
  shows "move_ok hosts i target (h @ es) r"
proof -
  have "guarded (status_404 hosts i target) (\<lambda>e. changes (fst e)) (h @ es)"
    using assms(1,2) by (simp add: guarded_append)
  moreover note config_read_append [OF assms(3)]
  ultimately show ?thesis using assms(4-6) unfolding move_ok_def status_404_def by blast
qed

lemma finish_ok:
  assumes src: "instanceOf src = None" "BaseURL src = address hosts (other target)"
    and dst: "instanceOf dst = None" "BaseURL dst = address hosts target"
    and target: "target \<in> {''main'', ''next''}" and next_host: "Next hosts \<noteq> []"
    and seen: "\<exists>e\<in>set h. status_404 hosts i target e"
    and before: "guarded (status_404 hosts i target) (\<lambda>e. changes (fst e)) h"
    and config: "config_read i h = Some config"
    and log: "changing h = [e1, e2]" "fst e1 = Http (address hosts (other target)) POST (trimSlash (i @ ''/destroy'')) None"
    "gone e1" "fst e2 = Exec (UpdateLiercd i (if target = ''main'' then None else Some target))" "affected e2"
    and was: "wasRunning = answered (\<lambda>s. s = 200) e1"
  shows "wp (finish_move src dst i source target config wasRunning) (move_ok hosts i target) h"
proof -
  note ok = move_okI [OF seen before config target next_host]
  show ?thesis
    unfolding finish_move_def wp_bind wp_destroyOn [OF src(1)]
    by (auto simp: wp_simps wp_createOn [OF dst(1)] described_def src(2) dst(2) intro!: ok)
      (auto simp: log was gone_def log(3) [unfolded gone_def])
qed

lemma For_OpenEnv:
  "For (Liercd (OpenEnv hosts stdin tty now)) inst = Inr c \<longleftrightarrow>
     c = \<lparr>BaseURL = address hosts inst, nextURL = '''', instanceOf = None\<rparr> \<and>
     (inst = ''main'' \<or> inst = ''next'' \<and> Next hosts \<noteq> '''')"
  by (auto simp: For_def OpenEnv_def address_def)

lemma move_between_ok:
  assumes src: "instanceOf src = None" "BaseURL src = address hosts (other target)"
    and dst: "instanceOf dst = None" "BaseURL dst = address hosts target"
    and target: "target \<in> {''main'', ''next''}" and next_host: "Next hosts \<noteq> []"
    and h: "queries h" and config: "config_read i h = Some config"
  shows "wp (move_between src dst i source target config) (move_ok hosts i target) h"
proof -
  have q: "guarded P (\<lambda>e. changes (fst e)) (h @ es)" if "guarded P (\<lambda>e. changes (fst e)) es" for P es
    using h that by (induction h) (auto simp: queries_def is_query_changes)
  note ok = move_okI [OF _ _ config_read_append [OF config] target next_host, where es = "[]", unfolded append_Nil2]
  let ?d = "Http (address hosts (other target)) POST (trimSlash (i @ ''/destroy'')) None"
  let ?s = "\<lambda>x. (Http (address hosts target) GET (trimSlash (i @ ''/status'')) None, Responded x)"
  have seen: "\<exists>e\<in>set (h @ ?s x # es). status_404 hosts i target e"
    and before: "guarded (status_404 hosts i target) (\<lambda>e. changes (fst e)) (h @ ?s x # es)"
    if "Status x = 404" for x es
    using that by (auto simp: status_404_def intro: q)
  have not_destroyed: "move_ok hosts i target (h @ [?s x, (?d, rep)]) (Inl err)"
    if "Status x = 404" "\<not> gone (?d, rep)" for x rep err
    by (rule ok [OF seen before]) (use that h in simp_all)
  have update: "(if stored_name target \<noteq> [] then Some (stored_name target) else None) =
      (if target = ''main'' then None else Some target)"
    using target by (auto simp: stored_name_def)
  have destroyed: "wp (attempt (SetLiercd i (stored_name target)) (\<lambda>_. finish_move src dst i source target config was))
      (move_ok hosts i target) (h @ [?s x, (?d, Responded y)])"
    if "Status x = 404" "gone (?d, Responded y)" "was \<longleftrightarrow> Status y = 200" for x y was
  proof -
    have "move_ok hosts i target (h @ [?s x, (?d, Responded y), (Exec (UpdateLiercd i
        (if target = ''main'' then None else Some target)), Failed e)]) (Inl e)" for e
      by (rule ok [OF seen before]) (use that h in simp_all)
    moreover have "wp (finish_move src dst i source target config was) (move_ok hosts i target)
        (h @ [?s x, (?d, Responded y), (Exec (UpdateLiercd i
          (if target = ''main'' then None else Some target)), Affected n)])" for n
      by (rule finish_ok [where ?e1.0 = "(?d, Responded y)" and ?e2.0 = "(Exec (UpdateLiercd i
          (if target = ''main'' then None else Some target)), Affected n)",
          OF src dst target next_host seen before config_read_append [OF config]])
        (use that h in simp_all)
    ultimately show ?thesis unfolding wp_attempt wp_SetLiercd update by simp
  qed
  show ?thesis
    unfolding move_between_def wp_bind Do_pinned [OF dst(1)] wp_http dst(2) sum.case wp_if wp_destroyOn [OF src(1)] src(2)
    by (auto simp: h wp_if gone_def described_def intro!: destroyed not_destroyed intro: move_ok_unchanged)
qed

lemma moveOne_ok: "wp (moveOne (OpenEnv hosts stdin tty now) i target) (move_ok hosts i target) []"
  unfolding moveOne_def wp_attempt
proof (rule wp_LookupConfig; simp add: move_ok_unchanged)
  fix row rows config
  assume scan: "scan1 scan_bytes row = Inr config"
  then have config: "config_read i ((Query (SelectConfig i), Rows (row # rows)) # es) = Some config" for es
    by simp
  have from_ok: "wp (move_from (OpenEnv hosts stdin tty now) i target config source) (move_ok hosts i target)
      [(Query (SelectConfig i), Rows (row # rows)), (Query (SelectLiercd i), rep)]" for source rep
    unfolding move_from_def
    by (auto simp: For_OpenEnv other_def scan queries_def intro!: move_ok_unchanged move_between_ok split: sum.split)
  show "wp (attempt (LookupLiercd i) (\<lambda>source.
         move_from (OpenEnv hosts stdin tty now) i target config (if source = [] then ''main'' else source)))
      (move_ok hosts i target) [(Query (SelectConfig i), Rows (row # rows))]"
    unfolding wp_attempt
    by (rule wp_LookupLiercd) (auto intro: from_ok intro!: move_ok_unchanged split: sum.split)
qed

section \<open>A move in a world that works\<close>

lemma trimSlash_plain: "plain_id i \<Longrightarrow> trimSlash (i @ s) = i @ s"
  by (rule trimSlash_id) (cases i; auto simp: plain_id_def)

lemma other_next: "target \<in> {''main'', ''next''} \<Longrightarrow> (other target = ''next'') = (target \<noteq> ''next'')"
  by (auto simp: other_def)

context liercd_instance
begin

lemma result_status:
  assumes "plain_id i" "reachable w" "well (on inst w)" "instanceOf c = None" "BaseURL c = address (w_hosts w) inst"
  obtains l x where "result (serve handle) (Do c GET (i @ ''/status'') None) w = (Inr x, put inst l w)"
    "well l" "running l = running (on inst w)" "Status x = (if i \<in> running (on inst w) then 200 else 404)"
proof -
  obtain x l where h: "handle GET (CHR ''/'' # i @ ''/status'') '''' (on inst w) = (x, l)" by fastforce
  show thesis
    by (rule that [of x l]) (use status [OF assms(1,3) h] h in
      \<open>simp_all add: assms(4,5) result_http [OF assms(2)] trimSlash_plain [OF assms(1)]\<close>)
qed

lemma result_destroyOn:
  assumes "plain_id i" "reachable w" "well (on inst w)" "instanceOf c = None" "BaseURL c = address (w_hosts w) inst"
  obtains l where "result (serve handle) (destroyOn c i) w = (('''', i \<in> running (on inst w)), put inst l w)"
    "well l" "running l = running (on inst w) - {i}"
proof -
  obtain x l where h: "handle POST (CHR ''/'' # i @ ''/destroy'') '''' (on inst w) = (x, l)" by fastforce
  show thesis
    by (rule that [of l]) (use destroy [OF assms(1,3) h] h in
      \<open>simp_all add: destroyOn_def result_simps assms(4,5) result_http [OF assms(2)] trimSlash_plain [OF assms(1)]\<close>)
qed

lemma result_createOn:
  assumes "plain_id i" "reachable w" "well (on inst w)" "instanceOf c = None" "BaseURL c = address (w_hosts w) inst"
  obtains l where "result (serve handle) (createOn c i cfg) w = (Inr (), put inst l w)"
    "well l" "running l = insert i (running (on inst w))"
proof -
  obtain x l where h: "handle POST (CHR ''/'' # i @ ''/create'') cfg (on inst w) = (x, l)" by fastforce
  show thesis
    by (rule that [of l]) (use create [OF assms(1,3) h] h in
      \<open>simp_all add: createOn_def result_simps assms(4,5) result_http [OF assms(2)] trimSlash_plain [OF assms(1)]\<close>)
qed

lemma result_finish_move:
  assumes "plain_id i" "reachable w" "well (on source w)" "well (on target w)"
    "target \<in> {''main'', ''next''}" "source = other target"
    "instanceOf src = None" "BaseURL src = address (w_hosts w) source"
    "instanceOf dst = None" "BaseURL dst = address (w_hosts w) target"
    "i \<notin> running (on source w)"
  obtains w' where "result (serve handle) (finish_move src dst i source target config was) w = (Inr was, w')"
    "running (on source w') = running (on source w)"
    "running (on target w') = (if was then insert i (running (on target w)) else running (on target w))"
    "db w' = db w"
proof -
  obtain l where l0: "result (serve handle) (destroyOn src i) w = (('''', i \<in> running (on source w)), put source l w)"
    "well l" "running l = running (on source w) - {i}"
    by (rule result_destroyOn [OF assms(1-3,7,8)])
  then have l: "result (serve handle) (destroyOn src i) w = (('''', False), put source l w)"
    "well l" "running l = running (on source w)"
    using assms(11) by simp_all
  let ?w = "put source l w"
  have neq: "(target = ''next'') = (source \<noteq> ''next'')" using assms(5,6) by (auto simp: other_def)
  then have on: "on target ?w = on target w" "on source ?w = l" by simp_all
  show thesis
  proof (cases was)
    case False
    obtain r w' where "result (serve handle) (finish_move src dst i source target config was) w = (r, w')" by fastforce
    with False show thesis
      by (intro that [of w']) (auto simp: finish_move_def result_simps l neq)
  next
    case True
    obtain m where m: "result (serve handle) (createOn dst i config) ?w = (Inr (), put target m ?w)"
      "running m = insert i (running (on target w))"
      using result_createOn [of i ?w target dst config] assms on by auto
    then have "\<exists>s. result (serve handle) (finish_move src dst i source target config was) w =
        (Inr True, (put target m ?w)\<lparr>stdout := s\<rparr>)"
      by (intro exI) (simp add: finish_move_def result_simps l True)
    then obtain s where "result (serve handle) (finish_move src dst i source target config was) w =
        (Inr True, (put target m ?w)\<lparr>stdout := s\<rparr>)" by blast
    then show thesis
      using True m(2) by (intro that [of "(put target m ?w)\<lparr>stdout := s\<rparr>"]) (simp_all add: l neq)
  qed
qed

lemma move_completes:
  assumes i: "plain_id i" and w: "reachable w" "well (main_liercd w)" "well (next_liercd w)"
    and row: "stored (db w) i = Some row" "instance_of row = other target"
    and target: "target \<in> {''main'', ''next''}" and idle: "i \<notin> running (on target w)"
  shows "\<exists>w'. result (serve handle) (moveOne (OpenEnv (w_hosts w) stdin tty now) i target) w =
        (Inr (i \<in> running (on (other target) w)), w') \<and>
      running (on (other target) w') = running (on (other target) w) - {i} \<and>
      running (on target w') =
        (if i \<in> running (on (other target) w) then insert i (running (on target w)) else running (on target w)) \<and>
      db w' = snd (execute (UpdateLiercd i (if target = ''main'' then None else Some target)) (db w))"
proof -
  let ?env = "OpenEnv (w_hosts w) stdin tty now"
  let ?c = "\<lambda>inst. \<lparr>BaseURL = address (w_hosts w) inst, nextURL = '''', instanceOf = None\<rparr>"
  have well: "well (on inst w)" for inst using w by (simp add: on_def)
  have names: "other target \<in> {''main'', ''next''}" "other target \<noteq> target" "(other target = ''next'') \<noteq> (target = ''next'')"
    using target by (auto simp: other_def)
  have For: "For (Liercd ?env) inst = Inr (?c inst)" if "inst \<in> {''main'', ''next''}" for inst
    using that w(1) by (auto simp: For_OpenEnv reachable_def)
  obtain l x where status0: "result (serve handle) (Do (?c target) GET (i @ ''/status'') None) w = (Inr x, put target l w)"
    "well l" "running l = running (on target w)" "Status x = (if i \<in> running (on target w) then 200 else 404)"
    by (rule result_status [OF i w(1) well [of target], of "?c target"]) simp_all
  then have status: "result (serve handle) (Do (?c target) GET (i @ ''/status'') None) w = (Inr x, put target l w)"
    "well l" "running l = running (on target w)" "Status x = 404"
    using idle by simp_all
  let ?w1 = "put target l w"
  have on1: "on (other target) ?w1 = on (other target) w" "on target ?w1 = l" using names by auto
  obtain m where destroy: "result (serve handle) (destroyOn (?c (other target)) i) ?w1 =
      (('''', i \<in> running (on (other target) w)), put (other target) m ?w1)"
    "well m" "running m = running (on (other target) w) - {i}"
    using result_destroyOn [of i ?w1 "other target" "?c (other target)"] i w(1) well on1 by auto
  let ?w2 = "(put (other target) m ?w1)\<lparr>db := snd (execute (UpdateLiercd i
      (if target = ''main'' then None else Some target)) (db w))\<rparr>"

  have on2': "on (other target) ?w2 = m" "on target ?w2 = l" "reachable ?w2" "w_hosts ?w2 = w_hosts w"
    using names w(1) by (auto simp: reachable_def)
  obtain w3 where finish0: "result (serve handle) (finish_move (?c (other target)) (?c target) i (other target) target
        (c_config row) (i \<in> running (on (other target) w))) ?w2 = (Inr (i \<in> running (on (other target) w)), w3)"
    "running (on (other target) w3) = running (on (other target) ?w2)"
    "running (on target w3) = (if i \<in> running (on (other target) w) then insert i (running (on target ?w2))
       else running (on target ?w2))"
    "db w3 = db ?w2"
    by (rule result_finish_move [of i ?w2 "other target" target "?c (other target)" "?c target"])
      (simp_all only: on2' i client.simps destroy(2,3) status(2) target, simp)
  then have finish: "result (serve handle) (finish_move (?c (other target)) (?c target) i (other target) target
        (c_config row) (i \<in> running (on (other target) w))) ?w2 = (Inr (i \<in> running (on (other target) w)), w3)"
    "running (on (other target) w3) = running m"
    "running (on target w3) = (if i \<in> running (on (other target) w) then insert i (running l) else running l)"
    "db w3 = db ?w2"
    by (simp_all only: on2')
  have upd: "(if stored_name target \<noteq> [] then Some (stored_name target) else None) =
      (if target = ''main'' then None else Some target)"
    using target by (auto simp: stored_name_def)
  have source: "(if coalesce (c_liercd row) = [] then ''main'' else coalesce (c_liercd row)) = other target"
    using row(2) by (simp add: instance_of_def)
  have next_host: "LiercdNextHost ?env \<noteq> []" using w(1) by (simp add: OpenEnv_def reachable_def)
  have "result (serve handle) (move_between (?c (other target)) (?c target) i (other target) target (c_config row)) w =
      (Inr (i \<in> running (on (other target) w)), w3)"
    using finish(1)
    by (simp add: move_between_def result_simps status destroy upd del: Do_pinned execute.simps)
  then have "result (serve handle) (move_from ?env i target (c_config row) (other target)) w =
      (Inr (i \<in> running (on (other target) w)), w3)"
    using names(2) next_host by (simp add: move_from_def For [OF names(1)] For [OF target])
  moreover have "result (serve handle) (moveOne ?env i target) w = result (serve handle) (move_from ?env i target (c_config row)
      (if coalesce (c_liercd row) = [] then ''main'' else coalesce (c_liercd row))) w"
    by (simp add: moveOne_def result_simps row(1))
  ultimately have "result (serve handle) (moveOne ?env i target) w = (Inr (i \<in> running (on (other target) w)), w3)"
    by (simp only: source)
  with finish status destroy show ?thesis by auto
qed

end

section \<open>A move beside other processes\<close>

lemma serve_http_at:
  "reachable w \<Longrightarrow> serve handle (Http (address (w_hosts w) inst) m path body) w =
    (case handle m (CHR ''/'' # path) (case body of None \<Rightarrow> '''' | Some s \<Rightarrow> s) (on inst w) of
       (r, l) \<Rightarrow> (Responded r, put inst l w))"
  by (auto simp: serve.simps(1) reachable_def address_def on_def put_def Let_def split: prod.splits)

lemma stored_UpdateConfigStmt:
  "stored (snd (execute (UpdateConfigStmt cfg i) t)) j =
     (if i = j then map_option (\<lambda>r. r\<lparr>c_config := cfg\<rparr>) (stored t j) else stored t j)"
proof (cases "stored t j")
  case None
  then show ?thesis by (simp add: stored_def find_map_update)
next
  case (Some r)
  then have "c_id r = j" by (auto simp: stored_def find_Some_iff)
  with Some show ?thesis by (simp add: stored_def find_map_update)
qed

text \<open>The instance a connection's column names.\<close>

definition column :: "'l world \<Rightarrow> string \<Rightarrow> string option" where
  "column w i = map_option instance_of (stored (db w) i)"

lemma column_simps [simp]:
  "column (put inst l w) i = column w i" "column (w\<lparr>stdout := s\<rparr>) i = column w i"
  "column (w\<lparr>db := snd (execute (UpdateConfigStmt cfg j) (db w))\<rparr>) i = column w i"
  by (cases "stored (db w) i"; simp add: column_def stored_UpdateConfigStmt instance_of_def del: execute.simps)+

text \<open>
  Who read that connection \<open>i\<close> is on \<open>inst\<close>: one of those before the run, or one in the past \<open>es\<close>.
  \<open>known_before xs\<close>: before the program's actions \<open>xs\<close>, done in that order. \<open>late_create xs\<close>: such
  a one then created it on \<open>inst\<close> after them.
\<close>

definition known :: "(string \<times> string) list \<Rightarrow> string \<Rightarrow> string \<Rightarrow> happening list \<Rightarrow> bool" where
  "known rs i inst es \<longleftrightarrow> (i, inst) \<in> set rs \<or> Reads i inst \<in> set es"

fun done_in :: "action list \<Rightarrow> happening list \<Rightarrow> bool" where
  "done_in [] es = True"
| "done_in (x # xs) es = (\<exists>as r bs. es = as @ Own x r # bs \<and> done_in xs bs)"

fun known_before :: "(string \<times> string) list \<Rightarrow> string \<Rightarrow> string \<Rightarrow> action list \<Rightarrow> happening list \<Rightarrow> bool" where
  "known_before rs i inst [] es = known rs i inst es"
| "known_before rs i inst (x # xs) es = (\<exists>as r bs. es = as @ Own x r # bs \<and> known rs i inst as \<and> done_in xs bs)"

definition late_create :: "(string \<times> string) list \<Rightarrow> string \<Rightarrow> string \<Rightarrow> action list \<Rightarrow> happening list \<Rightarrow> bool" where
  "late_create rs i inst xs es \<longleftrightarrow> (\<exists>as bs. es = as @ Creates i inst # bs \<and> known_before rs i inst xs as)"

definition column_change :: "string \<Rightarrow> string \<Rightarrow> action" where
  "column_change i target = Exec (UpdateLiercd i (if target = ''main'' then None else Some target))"

definition destroy_on :: "instances \<Rightarrow> string \<Rightarrow> string \<Rightarrow> action" where
  "destroy_on hosts inst i = Http (address hosts inst) POST (i @ ''/destroy'') None"

lemma done_in_append: "done_in xs es \<Longrightarrow> done_in xs (es @ fs)"
  by (induction xs arbitrary: es) fastforce+

lemma done_in_snoc: "done_in xs es \<Longrightarrow> done_in (xs @ [x]) (es @ [Own x r])"
  by (induction xs arbitrary: es) fastforce+

lemma known_append: "known rs i inst es \<Longrightarrow> known rs i inst (es @ fs)"
  by (auto simp: known_def)

lemma known_before_append: "known_before rs i inst xs es \<Longrightarrow> known_before rs i inst xs (es @ fs)"
  by (cases xs) (fastforce intro: known_append done_in_append)+

lemma known_before_snoc: "known_before rs i inst xs es \<Longrightarrow> known_before rs i inst (xs @ [x]) (es @ [Own x r])"
  by (cases xs) (fastforce intro: done_in_snoc)+

lemma known_before_first: "known rs i inst es \<Longrightarrow> known_before rs i inst [x] (es @ [Own x r])"
  using known_before_snoc [of rs i inst "[]" es x r] by simp

lemma late_create_append: "late_create rs i inst xs es \<Longrightarrow> late_create rs i inst xs (es @ fs)"
  unfolding late_create_def by fastforce

lemma late_create_snoc: "known_before rs i inst xs es \<Longrightarrow> late_create rs i inst xs (es @ [Creates i inst])"
  unfolding late_create_def by blast

declare known_before.simps [simp del] done_in.simps [simp del]

lemmas past_append = known_append known_before_append late_create_append

lemma happened_simps [simp]:
  "sc_world (happened e rs w s) = w" "sc_reads (happened e rs w s) = rs" "sc_past (happened e rs w s) = sc_past s @ [e]"
  by (simp_all add: happened_def)

context liercd_instance
begin

text \<open>
  The states of a move. Before the column is changed: everything in order, and what was read is known
  from the past. After it: the column names the target, and who read the source did so before. And
  after the second destroy: if the connection runs on the source, then by a create that came late.
\<close>

definition ready :: "instances \<Rightarrow> 'l world \<Rightarrow> bool" where
  "ready hosts w \<longleftrightarrow> reachable w \<and> well (main_liercd w) \<and> well (next_liercd w) \<and> w_hosts w = hosts"

definition moved :: "instances \<Rightarrow> string \<Rightarrow> string \<Rightarrow> 'l world \<Rightarrow> bool" where
  "moved hosts i target w \<longleftrightarrow> ready hosts w \<and> column w i = Some target"

definition unchanged :: "(string \<times> string) list \<Rightarrow> instances \<Rightarrow> string \<Rightarrow> string option \<Rightarrow> 'l scene \<Rightarrow> bool" where
  "unchanged rs hosts i c s \<longleftrightarrow> ready hosts (sc_world s) \<and> column (sc_world s) i = c \<and>
     (\<forall>inst. (i, inst) \<in> set (sc_reads s) \<longrightarrow> known rs i inst (sc_past s))"

definition changed :: "(string \<times> string) list \<Rightarrow> instances \<Rightarrow> string \<Rightarrow> string \<Rightarrow> 'l scene \<Rightarrow> bool" where
  "changed rs hosts i target s \<longleftrightarrow> moved hosts i target (sc_world s) \<and>
     ((i, other target) \<in> set (sc_reads s) \<longrightarrow> known_before rs i (other target) [column_change i target] (sc_past s))"

definition cleared :: "(string \<times> string) list \<Rightarrow> instances \<Rightarrow> string \<Rightarrow> string \<Rightarrow> 'l scene \<Rightarrow> bool" where
  "cleared rs hosts i target s \<longleftrightarrow> moved hosts i target (sc_world s) \<and>
     ((i, other target) \<in> set (sc_reads s) \<longrightarrow>
        known_before rs i (other target) [column_change i target, destroy_on hosts (other target) i] (sc_past s)) \<and>
     (i \<in> running (on (other target) (sc_world s)) \<longrightarrow>
        late_create rs i (other target) [column_change i target, destroy_on hosts (other target) i] (sc_past s))"

lemma ready_well: "ready hosts w \<Longrightarrow> well (on inst w)"
  by (simp add: ready_def on_def)

lemma ready_put: "ready hosts w \<Longrightarrow> well l \<Longrightarrow> ready hosts (put inst l w)"
  by (auto simp: ready_def put_def reachable_def)

lemma served_create:
  assumes "ready hosts w" "plain_id i" "serve handle (Http (address hosts inst) POST (i @ ''/create'') (Some cfg)) w = (r, w')"
  obtains l where "w' = put inst l w" "well l" "running l = insert i (running (on inst w))"
proof -
  obtain x l where h: "handle POST (CHR ''/'' # i @ ''/create'') cfg (on inst w) = (x, l)" by fastforce
  have "w_hosts w = hosts" "reachable w" using assms(1) by (simp_all add: ready_def)
  with h assms(3) serve_http_at [of w handle inst POST "i @ ''/create''" "Some cfg"] have "w' = put inst l w"
    by simp
  then show thesis using create [OF assms(2) ready_well [OF assms(1)] h] that by blast
qed


lemma served_destroy:
  assumes "ready hosts w" "plain_id i" "serve handle (Http (address hosts inst) POST (i @ ''/destroy'') None) w = (r, w')"
  obtains l where "w' = put inst l w" "well l" "running l = running (on inst w) - {i}"
proof -
  obtain x l where h: "handle POST (CHR ''/'' # i @ ''/destroy'') '''' (on inst w) = (x, l)" by fastforce
  have "w_hosts w = hosts" "reachable w" using assms(1) by (simp_all add: ready_def)
  with h assms(3) serve_http_at [of w handle inst POST "i @ ''/destroy''" None] have "w' = put inst l w"
    by simp
  then show thesis using destroy [OF assms(2) ready_well [OF assms(1)] h] that by blast
qed

lemma served_status:
  assumes "ready hosts w" "plain_id i" "serve handle (Http (address hosts inst) GET (i @ ''/status'') None) w = (r, w')"
  shows "ready hosts w' \<and> db w' = db w \<and> running (on inst' w') = running (on inst' w)"
proof -
  obtain x l where h: "handle GET (CHR ''/'' # i @ ''/status'') '''' (on inst w) = (x, l)" by fastforce
  have "w_hosts w = hosts" "reachable w" using assms(1) by (simp_all add: ready_def)
  with h assms(3) serve_http_at [of w handle inst GET "i @ ''/status''" None] have "w' = put inst l w"
    by simp
  then show ?thesis using status [OF assms(2) ready_well [OF assms(1)] h] ready_put [OF assms(1)] by (simp add: on_def put_def)
qed

text \<open>The other processes keep each of these states.\<close>

lemma disturbed_unchanged: "disturbed handle s t \<Longrightarrow> unchanged rs hosts i c s \<Longrightarrow> unchanged rs hosts i c t"
proof (induction rule: disturbed.induct)
  case (disturbed_read s t j row inst)
  then show ?case by (auto simp: unchanged_def known_def)
next
  case (disturbed_create s t j inst cfg rep w)
  from disturbed_create have t: "unchanged rs hosts i c t" by simp
  then have "ready hosts (sc_world t)" "w_hosts (sc_world t) = hosts" by (simp_all add: unchanged_def ready_def)
  with served_create disturbed_create(3,5) obtain l where "w = put inst l (sc_world t)" "well l" by metis
  with t show ?case using ready_put by (auto simp: unchanged_def past_append dest!: set_mp [OF set_remove1_subset])
next
  case (disturbed_ask s t j inst rep w)
  from disturbed_ask have t: "unchanged rs hosts i c t" by simp
  then have "ready hosts (sc_world t)" "w_hosts (sc_world t) = hosts" by (simp_all add: unchanged_def ready_def)
  with served_status disturbed_ask(2,4) have "ready hosts w \<and> db w = db (sc_world t)" by metis
  with t show ?case by (simp add: unchanged_def past_append column_def)
next
  case (disturbed_save s t w cfg j)
  then show ?case by (auto simp: unchanged_def ready_def past_append simp del: execute.simps)
qed

lemma disturbed_cleared:
  assumes "disturbed handle s t" "target \<in> {''main'', ''next''}"
  shows "(changed rs hosts i target s \<longrightarrow> changed rs hosts i target t) \<and> (cleared rs hosts i target s \<longrightarrow> cleared rs hosts i target t)"
  using assms(1)
proof (induction rule: disturbed.induct)
  case (disturbed_refl s)
  show ?case by simp
next
  case (disturbed_read s t j row inst)
  have "inst = target" if "moved hosts i target (sc_world t)" "j = i"
    using that disturbed_read(2,3) by (simp add: moved_def column_def)
  moreover have "other target \<noteq> target" using assms(2) by (auto simp: other_def)
  ultimately show ?case using disturbed_read.IH
    by (auto simp: changed_def cleared_def intro: past_append)
next
  case (disturbed_create s t j inst cfg rep w)
  have w: "\<exists>l. w = put inst l (sc_world t) \<and> well l \<and> running l = insert j (running (on inst (sc_world t)))" "moved hosts i target w"
    if "moved hosts i target (sc_world t)"
  proof -
    have r: "ready hosts (sc_world t)" "w_hosts (sc_world t) = hosts" using that by (simp_all add: moved_def ready_def)
    with served_create disturbed_create(3,5) obtain l where
      l: "w = put inst l (sc_world t)" "well l" "running l = insert j (running (on inst (sc_world t)))" by metis
    then show "\<exists>l. w = put inst l (sc_world t) \<and> well l \<and> running l = insert j (running (on inst (sc_world t)))" by blast
    show "moved hosts i target w" using l that ready_put [OF r(1)] by (simp add: moved_def)
  qed
  have kept: "known_before rs i (other target) xs (sc_past t)"
    if "(i, other target) \<in> set (sc_reads t) \<longrightarrow> known_before rs i (other target) xs (sc_past t)"
      "(i, other target) \<in> set (remove1 (j, inst) (sc_reads t)) \<or> (j, inst) = (i, other target)" for xs
    using that disturbed_create(2) by (auto dest: set_mp [OF set_remove1_subset])
  have same: "running (on (other target) w) = running (on (other target) (sc_world t))"
    if "moved hosts i target (sc_world t)" "inst \<noteq> other target"
  proof -
    have "(other target = ''next'') \<noteq> (inst = ''next'')" using that(2) disturbed_create(4) assms(2) by (auto simp: other_def)
    then show ?thesis using w(1) [OF that(1)] by auto
  qed
  have "i \<in> running (on (other target) (sc_world t)) \<or> (j, inst) = (i, other target)"
    if "moved hosts i target (sc_world t)" "i \<in> running (on (other target) w)"
    using same [OF that(1)] w(1) [OF that(1)] that(2) by (cases "inst = other target") auto
  then show ?case using disturbed_create.IH w(2) kept
    by (auto simp: changed_def cleared_def intro: past_append late_create_snoc)
next
  case (disturbed_ask s t j inst rep w)
  have "moved hosts i target w \<and> running (on (other target) w) = running (on (other target) (sc_world t))"
    if "moved hosts i target (sc_world t)"
  proof -
    have r: "ready hosts (sc_world t)" "w_hosts (sc_world t) = hosts" using that by (simp_all add: moved_def ready_def)
    with served_status [of hosts "sc_world t" j inst rep w] disturbed_ask(2-4) that show ?thesis
      by (auto simp: moved_def column_def)
  qed
  then show ?case using disturbed_ask.IH by (auto simp: changed_def cleared_def intro: past_append)
next
  case (disturbed_save s t w cfg j)
  have "moved hosts i target w \<and> running (on (other target) w) = running (on (other target) (sc_world t))"
    if "moved hosts i target (sc_world t)"
    using that disturbed_save(2) by (auto simp: moved_def ready_def simp del: execute.simps)
  then show ?case using disturbed_save.IH by (auto simp: changed_def cleared_def intro: past_append)
qed

end

lemma only_actions_simps:
  "only S (http b m p body) \<longleftrightarrow> S (Http b m p body)"
  "only S (say s q) \<longleftrightarrow> S (Print s) \<and> only S q"
  "only S (query q') \<longleftrightarrow> S (Query q')"
  "only S (attempt q1 k) \<longleftrightarrow> only S (bind q1 (\<lambda>r. case r of Inl e \<Rightarrow> Ret (Inl e) | Inr a \<Rightarrow> k a))"
  "only S (query_row q' scan) \<longleftrightarrow> S (Query q')"
  by (auto simp: http_def say_def print_def query_def attempt_def query_row_def split: reply.splits sum.splits)

lemma finish_move_only:
  assumes "instanceOf dst = None" "BaseURL dst = address hosts target" "plain_id i"
  shows "\<exists>f. finish_move src dst i source target config was = bind (destroyOn src i) f \<and>
    (\<forall>a. only (\<lambda>x. (\<exists>s. x = Print s) \<or> x = Http (address hosts target) POST (i @ ''/create'') (Some config)) (f a))"
  unfolding finish_move_def
  by (rule exI, rule conjI, rule refl)
    (auto simp: only_actions_simps createOn_def Do_pinned [OF assms(1)] assms(2) trimSlash_plain [OF assms(3)] split: sum.splits prod.splits)

context liercd_instance
begin

lemma amid_unchanged:
  assumes "runs_amid handle p s a t" "unchanged rs hosts i c s"
    and "only (\<lambda>x. (\<exists>s. x = Print s) \<or> is_query x) p"
  shows "unchanged rs hosts i c t"
proof (rule amid_invariant [where P = "unchanged rs hosts i c", OF assms(1,2) disturbed_unchanged _ assms(3)])
  show "(\<exists>s. x = Print s) \<or> is_query x \<Longrightarrow> acts handle x s r t \<Longrightarrow>
      unchanged rs hosts i c s \<Longrightarrow> unchanged rs hosts i c t" for x r s t
    by (cases x) (auto simp: acts_def unchanged_def ready_def reachable_def past_append column_def)
qed

text \<open>A destroy: what it does to each state, the others before and after it.\<close>

lemma amid_destroyOn:
  assumes "runs_amid handle (destroyOn c i) s r t" "instanceOf c = None" "BaseURL c = address hosts inst" "plain_id i"
  obtains s1 rep s2 where "disturbed handle s s1" "acts handle (destroy_on hosts inst i) s1 rep s2" "disturbed handle s2 t"
  using assms(1) unfolding destroyOn_def Do_pinned [OF assms(2)] http_def assms(3) trimSlash_plain [OF assms(4)] destroy_on_def
  by (auto elim!: amid_ActE amid_RetE simp: bind.simps split: reply.splits if_splits)

lemma acts_destroy:
  assumes "acts handle (destroy_on hosts inst i) s rep t" "plain_id i" "ready hosts (sc_world s)"
  obtains l where "t = happened (Own (destroy_on hosts inst i) rep) (sc_reads s) (put inst l (sc_world s)) s" "well l"
    "running l = running (on inst (sc_world s)) - {i}"
  using assms(1) served_destroy [OF assms(3,2)] unfolding acts_def destroy_on_def by metis

lemma amid_destroy_unchanged:
  assumes "runs_amid handle (destroyOn c i) s r t" "instanceOf c = None" "BaseURL c = address hosts inst" "plain_id i"
    "unchanged rs hosts i col s"
  shows "unchanged rs hosts i col t"
proof -
  obtain s1 rep s2 where d: "disturbed handle s s1" "acts handle (destroy_on hosts inst i) s1 rep s2" "disturbed handle s2 t"
    using assms(1-4) by (rule amid_destroyOn)
  have s1: "unchanged rs hosts i col s1" by (rule disturbed_unchanged [OF d(1) assms(5)])
  then have ready: "ready hosts (sc_world s1)" by (simp add: unchanged_def)
  with d(2) assms(4) obtain l where
    "s2 = happened (Own (destroy_on hosts inst i) rep) (sc_reads s1) (put inst l (sc_world s1)) s1" "well l"
    by (rule acts_destroy)
  then have "unchanged rs hosts i col s2" using s1 ready_put [OF ready] by (auto simp: unchanged_def past_append)
  then show ?thesis by (rule disturbed_unchanged [OF d(3)])
qed

lemma amid_destroy_changed:
  assumes "runs_amid handle (destroyOn c i) s r t" "instanceOf c = None" "BaseURL c = address hosts (other target)" "plain_id i"
    "target \<in> {''main'', ''next''}" "changed rs hosts i target s"
  shows "cleared rs hosts i target t"
proof -
  let ?x = "destroy_on hosts (other target) i"
  obtain s1 rep s2 where d: "disturbed handle s s1" "acts handle ?x s1 rep s2" "disturbed handle s2 t"
    using assms(1-4) by (rule amid_destroyOn)
  have s1: "changed rs hosts i target s1" using disturbed_cleared [OF d(1) assms(5)] assms(6) by blast
  then have ready: "ready hosts (sc_world s1)" by (simp add: changed_def moved_def)
  with d(2) assms(4) obtain l where
    l: "s2 = happened (Own ?x rep) (sc_reads s1) (put (other target) l (sc_world s1)) s1" "well l"
      "running l = running (on (other target) (sc_world s1)) - {i}"
    by (rule acts_destroy)
  have "known_before rs i (other target) ([column_change i target] @ [?x]) (sc_past s1 @ [Own ?x rep])"
    if "(i, other target) \<in> set (sc_reads s1)"
    using that s1 by (intro known_before_snoc) (simp add: changed_def)
  then have "cleared rs hosts i target s2" using l s1 ready_put [OF ready] by (simp add: cleared_def changed_def moved_def)
  then show ?thesis using disturbed_cleared [OF d(3) assms(5)] by blast
qed

lemma amid_finish_move:
  assumes "runs_amid handle (finish_move src dst i source target config was) s (Inr r) t"
    "instanceOf src = None" "BaseURL src = address hosts (other target)"
    "instanceOf dst = None" "BaseURL dst = address hosts target"
    "plain_id i" "target \<in> {''main'', ''next''}" "changed rs hosts i target s"
  shows "cleared rs hosts i target t"
proof -
  let ?S = "\<lambda>x. (\<exists>s. x = Print s) \<or> x = Http (address hosts target) POST (i @ ''/create'') (Some config)"
  obtain f where f: "finish_move src dst i source target config was = bind (destroyOn src i) f" "\<And>a. only ?S (f a)"
    using finish_move_only [OF assms(4-6)] by blast
  obtain a s1 where a: "runs_amid handle (destroyOn src i) s a s1" and rest: "runs_amid handle (f a) s1 (Inr r) t"
    using amid_bind [OF assms(1) [unfolded f(1)]] by blast
  have "cleared rs hosts i target s1" by (rule amid_destroy_changed [OF a assms(2,3,6,7,8)])
  then show ?thesis
  proof (rule amid_invariant [where P = "cleared rs hosts i target" and S = ?S, OF rest])
    show "disturbed handle s t \<Longrightarrow> cleared rs hosts i target s \<Longrightarrow> cleared rs hosts i target t" for s t
      using disturbed_cleared [OF _ assms(7)] by blast
    show "?S x \<Longrightarrow> acts handle x s r t \<Longrightarrow> cleared rs hosts i target s \<Longrightarrow> cleared rs hosts i target t" for x r s t
    proof (elim disjE exE)
      fix l assume "x = Print l" "acts handle x s r t" "cleared rs hosts i target s"
      then show ?thesis by (auto simp: acts_def cleared_def moved_def ready_def reachable_def intro: past_append)
    next
      assume *: "x = Http (address hosts target) POST (i @ ''/create'') (Some config)" "acts handle x s r t"
        "cleared rs hosts i target s"
      then have ready: "ready hosts (sc_world s)" by (simp add: cleared_def moved_def)
      with *(1,2) obtain l where "t = happened (Own x r) (sc_reads s) (put target l (sc_world s)) s" "well l"
        unfolding acts_def using served_create [OF ready assms(6)] by metis
      moreover have "(other target = ''next'') \<noteq> (target = ''next'')" using assms(7) by (auto simp: other_def)
      ultimately show ?thesis
        using *(3) ready_put [OF ready] by (auto simp: cleared_def moved_def intro: past_append)
    qed
    show "only ?S (f a)" by (rule f(2))
  qed
qed

lemma amid_SetLiercd:
  assumes "runs_amid handle (SetLiercd i (stored_name target)) s (Inr r) t" "unchanged rs hosts i c s"
    "target \<in> {''main'', ''next''}" "c \<noteq> None"
  shows "changed rs hosts i target t"
proof -
  let ?q = "UpdateLiercd i (if target = ''main'' then None else Some target)"
  have name: "Exec (UpdateLiercd i (if stored_name target \<noteq> [] then Some (stored_name target) else None)) = Exec ?q"
    using assms(3) by (auto simp: stored_name_def)
  obtain s1 rep s2 where d: "disturbed handle s s1" "acts handle (Exec ?q) s1 rep s2" "disturbed handle s2 t"
    using assms(1) unfolding SetLiercd_def exec_sql_def attempt_def name
    by (auto elim!: amid_ActE amid_RetE simp: bind.simps split: reply.splits sum.splits)
  from d(2) have s2: "s2 = happened (Own (column_change i target) rep) (sc_reads s1)
      ((sc_world s1)\<lparr>db := snd (execute ?q (db (sc_world s1)))\<rparr>) s1"
    by (auto simp: acts_def column_change_def split: prod.splits simp del: execute.simps)
  have s1: "unchanged rs hosts i c s1" by (rule disturbed_unchanged [OF d(1) assms(2)])
  then obtain row where "stored (db (sc_world s1)) i = Some row" using assms(4) by (auto simp: unchanged_def column_def)
  then have "column (sc_world s2) i = Some target"
    using assms(3) unfolding s2 column_def
    by (cases "target = ''main''")
      (simp_all add: stored_UpdateLiercd instance_of_def coalesce_def del: execute.simps)
  then have "changed rs hosts i target s2"
    using s1 by (auto simp: changed_def moved_def unchanged_def ready_def reachable_def s2 known_before_first simp del: execute.simps)
  then show ?thesis using disturbed_cleared [OF d(3) assms(3)] by blast
qed

lemma amid_move_between:
  assumes "runs_amid handle (move_between src dst i source target config) s (Inr r) t"
    "instanceOf src = None" "BaseURL src = address hosts (other target)"
    "instanceOf dst = None" "BaseURL dst = address hosts target"
    "plain_id i" "target \<in> {''main'', ''next''}" "unchanged rs hosts i c s" "c \<noteq> None"
  shows "cleared rs hosts i target t"
proof -
  let ?x = "Http (address hosts target) GET (i @ ''/status'') None"
  let ?rest = "bind (destroyOn src i) (\<lambda>(problem, wasRunning).
           if problem \<noteq> '''' then
             raise (Err (''destroying '' @ i @ '' on '' @ source @ '': liercd said '' @ problem))
           else attempt (SetLiercd i (stored_name target)) (\<lambda>_.
             finish_move src dst i source target config wasRunning))"
  obtain s1 rep s2 where d: "disturbed handle s s1" "acts handle ?x s1 rep s2"
    and rest: "runs_amid handle ?rest s2 (Inr r) t"
    using assms(1) unfolding move_between_def Do_pinned [OF assms(4)] http_def assms(5) trimSlash_plain [OF assms(6)]
    by (auto elim!: amid_ActE elim: amid_RetE simp: bind.simps split: reply.splits if_splits)
  have s1: "unchanged rs hosts i c s1" by (rule disturbed_unchanged [OF d(1) assms(8)])
  obtain w where w: "serve handle ?x (sc_world s1) = (rep, w)" "s2 = happened (Own ?x rep) (sc_reads s1) w s1"
    using d(2) by (auto simp: acts_def)
  have "ready hosts w \<and> db w = db (sc_world s1)"
    using served_status [OF _ assms(6) w(1)] s1 by (simp add: unchanged_def)
  then have s2: "unchanged rs hosts i c s2" using s1 w(2) by (simp add: unchanged_def column_def past_append)
  obtain a s3 where a: "runs_amid handle (destroyOn src i) s2 a s3"
    and rest: "runs_amid handle (case a of (problem, wasRunning) \<Rightarrow>
           if problem \<noteq> '''' then
             raise (Err (''destroying '' @ i @ '' on '' @ source @ '': liercd said '' @ problem))
           else attempt (SetLiercd i (stored_name target)) (\<lambda>_.
             finish_move src dst i source target config wasRunning)) s3 (Inr r) t"
    using amid_bind [OF rest] by blast
  then obtain was b s4 where set: "runs_amid handle (SetLiercd i (stored_name target)) s3 (Inr b) s4"
    and fin: "runs_amid handle (finish_move src dst i source target config was) s4 (Inr r) t"
    by (auto split: prod.splits if_splits elim: amid_RetE dest!: amid_attempt)
  have "unchanged rs hosts i c s3" by (rule amid_destroy_unchanged [OF a assms(2,3,6) s2])
  then have "changed rs hosts i target s4" by (rule amid_SetLiercd [OF set _ assms(7,9)])
  then show ?thesis by (rule amid_finish_move [OF fin assms(2-7)])
qed

lemma amid_moveOne:
  assumes "runs_amid handle (moveOne (OpenEnv hosts stdin tty now) i target) s (Inr r) t"
    "plain_id i" "unchanged rs hosts i c s" "c \<noteq> None"
  shows "cleared rs hosts i target t"
proof -
  let ?env = "OpenEnv hosts stdin tty now"
  obtain config s1 where c: "runs_amid handle (LookupConfig i) s (Inr (Some config)) s1"
    and rest: "runs_amid handle (attempt (LookupLiercd i) (\<lambda>source.
         move_from ?env i target config (if source = '''' then ''main'' else source))) s1 (Inr r) t"
    using amid_attempt [OF assms(1) [unfolded moveOne_def]] by (auto split: option.splits elim: amid_RetE)
  obtain source s2 where l: "runs_amid handle (LookupLiercd i) s1 (Inr source) s2"
    and rest: "runs_amid handle (move_from ?env i target config (if source = '''' then ''main'' else source)) s2 (Inr r) t"
    using amid_attempt [OF rest] by auto
  then obtain src dst where For: "For (Liercd ?env) (if source = '''' then ''main'' else source) = Inr src"
      "For (Liercd ?env) target = Inr dst"
    and neq: "(if source = '''' then ''main'' else source) \<noteq> target"
    and rest: "runs_amid handle (move_between src dst i (if source = '''' then ''main'' else source) target config) s2 (Inr r) t"
    by (auto simp: move_from_def split: sum.splits if_splits elim: amid_RetE)
  then have target: "target \<in> {''main'', ''next''}" and source: "(if source = '''' then ''main'' else source) = other target"
    by (auto simp: For_OpenEnv other_def split: if_splits)
  have "unchanged rs hosts i c s1"
    by (rule amid_unchanged [OF c assms(3)]) (auto simp: only_actions_simps LookupConfig_def split: sum.splits)
  then have "unchanged rs hosts i c s2"
    by (rule amid_unchanged [OF l]) (auto simp: only_actions_simps LookupLiercd_def split: sum.splits option.splits)
  with amid_move_between [OF rest _ _ _ _ assms(2) target _ assms(4)] show ?thesis
    using For by (auto simp: For_OpenEnv source)
qed

end

section \<open>Properties\<close>

text \<open>A small world: one user, one connection on main, running on the given instances.\<close>

definition demo_tables :: tables where
  "demo_tables = \<lparr>users = [\<lparr>u_id = ''u1'', u_email = ''a@b.c'', u_username = ''ann'', u_verified = Some True,
        u_last_login = Some 0\<rparr>],
      connections = [\<lparr>c_id = ''abc'', c_user = ''u1'', c_config = ''{}'', c_liercd = None\<rparr>],
      logs = [], seens = [], privates = [], prefs = [], web_pushes = [], clock = 0\<rparr>"

definition demo_world :: "string set \<Rightarrow> string set \<Rightarrow> LiercdServer world" where
  "demo_world on_main on_next = \<lparr>db = demo_tables, pending = None, w_hosts = two_hosts,
      main_liercd = NewLiercd\<lparr>created := on_main\<rparr>, next_liercd = NewLiercd\<lparr>created := on_next\<rparr>,
      down = {}, dns = (\<lambda>_. []), stdout = '''', stderr = ''''\<rparr>"

definition demo_env :: env where
  "demo_env = OpenEnv two_hosts None True 0"

text \<open>
  C1. The order of a move's changes. In every run of \<open>moveOne\<close>, whatever the services answer
  and wherever it stops, nothing is changed before the target instance answered 404 for the
  connection's status; and then the changes are, in this order and no others: a destroy on the
  source, only after it was answered 200 or 404 the column, only after that was stored a
  second destroy on the source, and only after that was answered 200 or 404 and one of the
  two was 200, a create on the target with the config that was read. It returns true only
  when that create was answered 200, false only when both destroys were answered 404, and an
  error in every other case.
\<close>

theorem moveOne_order:
  assumes "runs (moveOne (OpenEnv hosts stdin tty now) i target) es r"
  shows "move_ok hosts i target es r"
  by (rule wp_runs [OF moveOne_ok assms])

lemma demo_move_run:
  "exec scripted (moveOne demo_env ''abc'' ''next'')
     [Rows [[Text ''{}'']], Rows [[Null]], Responded not_found, Responded (ok_response ''{}''), Affected 1,
      Responded not_found, Responded (ok_response ''{}'')] =
   ([(Query (SelectConfig ''abc''), Rows [[Text ''{}'']]), (Query (SelectLiercd ''abc''), Rows [[Null]]),
     (Http ''http://127.0.0.1:5006'' GET ''abc/status'' None, Responded not_found),
     (Http ''http://liercd:5005'' POST ''abc/destroy'' None, Responded (ok_response ''{}'')),
     (Exec (UpdateLiercd ''abc'' (Some ''next'')), Affected 1),
     (Http ''http://liercd:5005'' POST ''abc/destroy'' None, Responded not_found),
     (Http ''http://127.0.0.1:5006'' POST ''abc/create'' (Some ''{}''), Responded (ok_response ''{}'')),
     (Print (line ''moved abc from main to next''), Done)], Inr True, [])"
  by code_simp

lemma moveOne_order_witness:
  "move_ok two_hosts ''abc'' ''next''
    [(Query (SelectConfig ''abc''), Rows [[Text ''{}'']]), (Query (SelectLiercd ''abc''), Rows [[Null]]),
     (Http ''http://127.0.0.1:5006'' GET ''abc/status'' None, Responded not_found),
     (Http ''http://liercd:5005'' POST ''abc/destroy'' None, Responded (ok_response ''{}'')),
     (Exec (UpdateLiercd ''abc'' (Some ''next'')), Affected 1),
     (Http ''http://liercd:5005'' POST ''abc/destroy'' None, Responded not_found),
     (Http ''http://127.0.0.1:5006'' POST ''abc/create'' (Some ''{}''), Responded (ok_response ''{}'')),
     (Print (line ''moved abc from main to next''), Done)] (Inr True)"
  by (rule moveOne_order [OF scripted.exec_runs [OF demo_move_run [unfolded demo_env_def]]])

text \<open>
  C2. A move completes. With both instances up, a connection whose column names one of them
  and which does not run on the other is moved there: \<open>moveOne\<close> returns whether it was running,
  the source no longer runs it and is otherwise unchanged, the target runs it exactly when
  the source did and is otherwise unchanged, and in the database only its column changes.
\<close>

theorem moveOne_completes:
  assumes "plain_id i" "reachable w" "overrides (main_liercd w) = Map.empty" "overrides (next_liercd w) = Map.empty"
    "stored (db w) i = Some row" "instance_of row = other target" "target \<in> {''main'', ''next''}"
    "i \<notin> created (on target w)"
  shows "\<exists>w'. result (serve ServeHTTP) (moveOne (OpenEnv (w_hosts w) stdin tty now) i target) w =
        (Inr (i \<in> created (on (other target) w)), w') \<and>
      created (on (other target) w') = created (on (other target) w) - {i} \<and>
      created (on target w') =
        (if i \<in> created (on (other target) w) then insert i (created (on target w)) else created (on target w)) \<and>
      db w' = snd (execute (UpdateLiercd i (if target = ''main'' then None else Some target)) (db w))"
  by (rule fake.move_completes [OF assms])

lemma demo_world_ok:
  "plain_id ''abc''" "reachable (demo_world a b)" "overrides (main_liercd (demo_world a b)) = Map.empty"
  "overrides (next_liercd (demo_world a b)) = Map.empty" "column (demo_world a b) ''abc'' = Some ''main''"
  "w_hosts (demo_world a b) = two_hosts"
  "stored (db (demo_world a b)) ''abc'' = Some \<lparr>c_id = ''abc'', c_user = ''u1'', c_config = ''{}'', c_liercd = None\<rparr>"
  "on ''main'' (demo_world a b) = NewLiercd\<lparr>created := a\<rparr>" "on ''next'' (demo_world a b) = NewLiercd\<lparr>created := b\<rparr>"
  "other ''next'' = ''main''"
  by (simp_all add: demo_world_def demo_tables_def plain_id_def reachable_def two_hosts_def NewLiercd_def
      column_def stored_def instance_of_def coalesce_def baseURL_def SplitHostPort_def last_colon_def on_def other_def)

lemma moveOne_completes_witness:
  "\<exists>w'. result (serve ServeHTTP) (moveOne (OpenEnv two_hosts None True 0) ''abc'' ''next'') (demo_world {''abc''} {}) =
        (Inr True, w') \<and> created (on ''main'' w') = {} \<and> created (on ''next'' w') = {''abc''}"
  using moveOne_completes [of "''abc''" "demo_world {''abc''} {}" _ "''next''" None True 0]
  by (auto simp: demo_world_ok instance_of_def coalesce_def)

text \<open>
  C3. A move beside stream servers. Between any two actions of a move other processes may read the
  column of any connection, later create it on the instance they read, ask for statuses and save
  configs. If the move succeeds, then the column names the target; and if the connection runs on the
  source then, somebody had read the source from its column before the move changed it, and created
  it there after the move's second destroy, which came after the change. So a recreate that is over
  by the second destroy does no harm, and none that begins after the change does.
\<close>

theorem moveOne_leaves_source:
  assumes "runs_amid ServeHTTP (moveOne (OpenEnv hosts stdin tty now) i target) \<lparr>sc_world = w, sc_reads = rs, sc_past = []\<rparr> (Inr started) t"
    "plain_id i" "reachable w" "w_hosts w = hosts" "overrides (main_liercd w) = Map.empty" "overrides (next_liercd w) = Map.empty"
    "column w i \<noteq> None"
  shows "column (sc_world t) i = Some target \<and>
    (i \<in> created (on (other target) (sc_world t)) \<longrightarrow>
      (\<exists>before r between r' after. sc_past t = before @ Own (column_change i target) r # between @
          Own (destroy_on hosts (other target) i) r' # after \<and>
        ((i, other target) \<in> set rs \<or> Reads i (other target) \<in> set before) \<and> Creates i (other target) \<in> set after))"
proof -
  have "fake.unchanged rs hosts i (column w i) \<lparr>sc_world = w, sc_reads = rs, sc_past = []\<rparr>"
    using assms(3-6) by (simp add: fake.unchanged_def fake.ready_def known_def)
  from fake.amid_moveOne [OF assms(1,2) this assms(7)] have c: "fake.cleared rs hosts i target t" .
  moreover have "\<exists>before r between r' after. sc_past t = before @ Own (column_change i target) r # between @
          Own (destroy_on hosts (other target) i) r' # after \<and>
        ((i, other target) \<in> set rs \<or> Reads i (other target) \<in> set before) \<and> Creates i (other target) \<in> set after"
    if late: "late_create rs i (other target) [column_change i target, destroy_on hosts (other target) i] (sc_past t)"
  proof -
    from late obtain as bs cs ds r r' where past: "sc_past t = as @ Own (column_change i target) r # (bs @
          Own (destroy_on hosts (other target) i) r' # ds) @ Creates i (other target) # cs" "known rs i (other target) as"
      by (auto simp: late_create_def known_before.simps done_in.simps)
    have "sc_past t = as @ Own (column_change i target) r # bs @ Own (destroy_on hosts (other target) i) r' #
        (ds @ Creates i (other target) # cs)" unfolding past(1) by simp
    moreover have "Creates i (other target) \<in> set (ds @ Creates i (other target) # cs)" by simp
    ultimately show ?thesis using past(2) unfolding known_def by blast
  qed
  ultimately show ?thesis by (auto simp: fake.cleared_def fake.moved_def)
qed

lemma moveOne_leaves_source_witness:
  "\<exists>t. runs_amid ServeHTTP (moveOne demo_env ''abc'' ''next'') \<lparr>sc_world = demo_world {''abc''} {}, sc_reads = [], sc_past = []\<rparr> (Inr True) t \<and>
     column (sc_world t) ''abc'' = Some ''next'' \<and> created (on ''main'' (sc_world t)) = {}"
proof -
  let ?s = "\<lparr>sc_world = demo_world {''abc''} {}, sc_reads = [], sc_past = []\<rparr>"
  obtain w where w: "result (serve ServeHTTP) (moveOne demo_env ''abc'' ''next'') (sc_world ?s) = (Inr True, w)" "created (on ''main'' w) = {}"
    using fake.move_completes [of "''abc''" "demo_world {''abc''} {}" _ "''next''" None True 0]
    by (auto simp: demo_env_def demo_world_ok instance_of_def coalesce_def)
  from result_amid [OF w(1)] obtain t where t: "runs_amid ServeHTTP (moveOne demo_env ''abc'' ''next'') ?s (Inr True) t" "sc_world t = w"
    by blast
  from moveOne_leaves_source [OF t(1) [unfolded demo_env_def]]
  have "column (sc_world t) ''abc'' = Some ''next''" by (simp add: demo_world_ok)
  with t w(2) show ?thesis by blast
qed

text \<open>
  A move of \<open>abc\<close> to next, and two streams that open: program 1 has been answered that \<open>abc\<close>
  does not run and has read its column when the move (program 0) begins, and goes on when it
  is over; program 2 runs last.
\<close>

definition forget :: "(goerr + 'a) prog \<Rightarrow> (goerr + unit) prog" where
  "forget p = bind p (\<lambda>r. Ret (case r of Inl e \<Rightarrow> Inl e | Inr _ \<Rightarrow> Inr ()))"

definition race :: "LiercdServer world \<times> (goerr + unit) prog list" where
  "race = interleave (serve ServeHTTP) ([1, 1, 1, 1] @ [0, 0, 0, 0, 0, 0, 0] @ [1, 1, 1] @ [2, 2, 2, 2, 2, 2, 2])
     (demo_world {} {}, [forget (moveOne demo_env ''abc'' ''next''),
        forget (FindOrRecreate (Liercd demo_env) ''abc''), forget (FindOrRecreate (Liercd demo_env) ''abc'')])"

definition finished :: "'a prog \<Rightarrow> 'a option" where
  "finished p = (case p of Ret a \<Rightarrow> Some a | Act _ _ \<Rightarrow> None)"

text \<open>
  That this happens: the second destroy does not catch every recreate. Reading the column and creating are two
  steps: a stream server that has read the column of a connection, and is about to create it,
  when a move begins, creates it on the source after the move's last destroy. The move has
  succeeded, and the connection runs on the source while its column names the target; when a
  stream is opened again, it is created on the target too, and runs on both.
\<close>

lemma moveOne_races:
  "case race of (w, ps) \<Rightarrow>
     map finished ps = [Some (Inr ()), Some (Inl (Err ''Unable to create new connection: 404 Not Found'')), Some (Inr ())] \<and>
     column w ''abc'' = Some ''next'' \<and>
     ''abc'' \<in> created (main_liercd w) \<and> ''abc'' \<in> created (next_liercd w)"
  by code_simp

end
