(* ===== verification/Registry.thy ===== *)
theory Registry
  imports Prelude
begin

text \<open>
  Package \<^verbatim>\<open>internal/stream\<close>: the registry of open event streams. The state is \<^verbatim>\<open>Server\<close>'s
  (\<open>server\<close>) with the \<^verbatim>\<open>stream\<close> objects behind its pointers; each method that holds the lock is
  one function of it. The handler of a stream (\<^verbatim>\<open>serveStream\<close>), the ping timer, the NSQ consumer
  and shutdown interleave between these: \<open>step\<close> is what can happen next, and the invariants
  hold in every state it reaches.
\<close>

section \<open>Events\<close>

text \<open>\<^verbatim>\<open>sseEvent\<close>, \<^verbatim>\<open>pingEvent\<close> with the time \<^verbatim>\<open>hiresTime\<close> gives, \<^verbatim>\<open>streamEvent\<close> (an id has no
  character that JSON escapes).\<close>

definition sseEvent :: "string \<Rightarrow> string \<Rightarrow> string \<Rightarrow> string" where
  "sseEvent typ data i =
     ''event: '' @ typ @ [CHR 0x0A] @ ''data: '' @ data @
     (if i \<noteq> '''' then [CHR 0x0A] @ ''id: '' @ i else '''') @ [CHR 0x0A, CHR 0x0A]"

definition dquote :: string where
  "dquote = [CHR 0x22]"

definition pingEvent :: "string \<Rightarrow> int \<Rightarrow> string" where
  "pingEvent time lastID = sseEvent ''ping''
     (''{'' @ dquote @ ''time'' @ dquote @ '':'' @ time @ '','' @ dquote @ ''last_id'' @ dquote @ '':'' @
      show_int lastID @ ''}'') ''''"

definition streamEvent :: "string \<Rightarrow> string" where
  "streamEvent i = sseEvent ''stream'' (''{'' @ dquote @ ''id'' @ dquote @ '':'' @ dquote @ i @ dquote @ ''}'') ''''"

definition padding :: string where
  "padding = CHR '':'' # replicate 2048 (CHR '' '') @ [CHR 0x0A]"

section \<open>Streams and the server\<close>

text \<open>A \<^verbatim>\<open>stream\<close>: \<open>outq\<close> is what its channel \<^verbatim>\<open>out\<close> holds, \<open>stopped\<close> whether \<^verbatim>\<open>done\<close> is closed.\<close>

record stream =
  sid :: string
  suser :: string
  remote :: string
  agent :: "string option"
  created_at :: int
  outq :: "string list"
  stopped :: bool

definition bufferSize :: nat where
  "bufferSize = 1024"

text \<open>
  \<^verbatim>\<open>Server\<close>: \<open>heap\<close> is the stream behind each pointer, \<open>streams\<close> the map of maps from user and
  stream id to a pointer, kept as association lists (Go's iteration order is not specified).
\<close>

type_synonym ptr = nat

record server =
  heap :: "ptr \<Rightarrow> stream"
  streams :: "(string \<times> (string \<times> ptr) list) list"
  latest :: "string \<rightharpoonup> int"
  closed :: bool

text \<open>Reading and writing Go maps kept as association lists; a missing key reads as empty.\<close>

fun put_key :: "'k \<Rightarrow> 'v \<Rightarrow> ('k \<times> 'v) list \<Rightarrow> ('k \<times> 'v) list" where
  "put_key k v [] = [(k, v)]"
| "put_key k v (e # es) = (if fst e = k then (k, v) # es else e # put_key k v es)"

definition del_key :: "'k \<Rightarrow> ('k \<times> 'v) list \<Rightarrow> ('k \<times> 'v) list" where
  "del_key k es = filter (\<lambda>e. fst e \<noteq> k) es"

definition user_streams :: "server \<Rightarrow> string \<Rightarrow> (string \<times> ptr) list" where
  "user_streams s u = (case map_of (streams s) u of None \<Rightarrow> [] | Some m \<Rightarrow> m)"

definition latest_of :: "server \<Rightarrow> string \<Rightarrow> int" where
  "latest_of s u = (case latest s u of None \<Rightarrow> 0 | Some n \<Rightarrow> n)"

definition stop :: "ptr \<Rightarrow> server \<Rightarrow> server" where
  "stop p s = s\<lparr>heap := (heap s)(p := (heap s p)\<lparr>stopped := True\<rparr>)\<rparr>"

text \<open>\<^verbatim>\<open>offer\<close>: false when the buffer was full.\<close>

definition offer :: "ptr \<Rightarrow> string \<Rightarrow> server \<Rightarrow> bool \<times> server" where
  "offer p b s =
     (if stopped (heap s p) then (True, s)
      else if length (outq (heap s p)) < bufferSize
      then (True, s\<lparr>heap := (heap s)(p := (heap s p)\<lparr>outq := outq (heap s p) @ [b]\<rparr>)\<rparr>)
      else (False, stop p s))"

definition deregisterLocked :: "ptr \<Rightarrow> server \<Rightarrow> server" where
  "deregisterLocked p s =
     (let u = suser (heap s p);
          m = del_key (sid (heap s p)) (user_streams s u)
      in if m = [] then s\<lparr>streams := del_key u (streams s), latest := (latest s)(u := None)\<rparr>
         else s\<lparr>streams := put_key u m (streams s)\<rparr>)"

definition offerLocked :: "ptr \<Rightarrow> string \<Rightarrow> server \<Rightarrow> server" where
  "offerLocked p b s = (case offer p b s of (ok, s) \<Rightarrow> if ok then s else deregisterLocked p s)"

definition raiseLatestLocked :: "string \<Rightarrow> int \<Rightarrow> server \<Rightarrow> server" where
  "raiseLatestLocked u n s = (if n > latest_of s u then s\<lparr>latest := (latest s)(u \<mapsto> n)\<rparr> else s)"

definition pingLocked :: "string \<Rightarrow> ptr \<Rightarrow> server \<Rightarrow> server" where
  "pingLocked time p s = offerLocked p (pingEvent time (latest_of s (suser (heap s p)))) s"

definition registered :: "server \<Rightarrow> ptr list" where
  "registered s = concat (map (\<lambda>(u, m). map snd m) (streams s))"

text \<open>A loop over the registry: a ping or a drop only removes the entry it is at.\<close>

definition pingAll :: "string \<Rightarrow> server \<Rightarrow> server" where
  "pingAll time s = fold (pingLocked time) (registered s) s"

text \<open>\<^verbatim>\<open>servePing\<close>: whether the stream was found (204), else 404.\<close>

definition servePing :: "string \<Rightarrow> string \<Rightarrow> string \<Rightarrow> server \<Rightarrow> bool \<times> server" where
  "servePing time u i s = (case map_of (user_streams s u) i of
     None \<Rightarrow> (False, s)
   | Some p \<Rightarrow> (True, pingLocked time p s))"

definition CloseStreams :: "server \<Rightarrow> server" where
  "CloseStreams s = fold stop (registered s) (s\<lparr>closed := True\<rparr>)"

definition register :: "ptr \<Rightarrow> server \<Rightarrow> server" where
  "register p s0 =
     (let s = (if closed s0 then stop p s0 else s0);
          u = suser (heap s p)
      in s\<lparr>streams := put_key u (put_key (sid (heap s p)) p (user_streams s u)) (streams s)\<rparr>)"

definition deregister :: "ptr \<Rightarrow> server \<Rightarrow> server" where
  "deregister p s = deregisterLocked p s"

text \<open>\<^verbatim>\<open>strconv.ParseInt(s, 10, 64)\<close>.\<close>

definition digits_value :: "string \<Rightarrow> int option" where
  "digits_value s =
     (if s = '''' \<or> (\<exists>c\<in>set s. byte c < 48 \<or> byte c > 57) then None
      else Some (foldl (\<lambda>n c. 10 * n + (int (byte c) - 48)) 0 s))"

definition ParseInt :: "string \<Rightarrow> int option" where
  "ParseInt s =
     (let neg = (s \<noteq> '''' \<and> hd s = CHR ''-'');
          ds = (if s \<noteq> '''' \<and> (hd s = CHR ''-'' \<or> hd s = CHR ''+'') then tl s else s)
      in case digits_value ds of
           None \<Rightarrow> None
         | Some n \<Rightarrow> (let v = (if neg then - n else n) in if - (2 ^ 63) \<le> v \<and> v < 2 ^ 63 then Some v else None))"

text \<open>\<^verbatim>\<open>Deliver\<close> from the owner's lookup on: the message's body and its id, empty for none.\<close>

definition deliver :: "string \<Rightarrow> string \<Rightarrow> string \<Rightarrow> server \<Rightarrow> server" where
  "deliver owner body i s0 =
     (let s = (case ParseInt i of
                 Some n \<Rightarrow> if user_streams s0 owner \<noteq> [] then raiseLatestLocked owner n s0 else s0
               | None \<Rightarrow> s0)
      in fold (\<lambda>p. offerLocked p (sseEvent ''irc'' body i)) (map snd (user_streams s owner)) s)"

text \<open>\<^verbatim>\<open>stats\<close>: the streams per user, and one user's streams.\<close>

definition stats_counts :: "server \<Rightarrow> (string \<times> nat) list" where
  "stats_counts s = map (\<lambda>(u, m). (u, length m)) (filter (\<lambda>(u, m). m \<noteq> []) (streams s))"

definition stats_user :: "server \<Rightarrow> string \<Rightarrow> (string \<times> string option \<times> int) list" where
  "stats_user s u = map (\<lambda>(i, p). (remote (heap s p), agent (heap s p), created_at (heap s p))) (user_streams s u)"

section \<open>Maps kept as lists\<close>

lemma map_of_put_key [simp]: "map_of (put_key k v es) = (map_of es)(k \<mapsto> v)"
  by (induction es) (auto simp: fun_eq_iff)

lemma map_of_del_key [simp]: "map_of (del_key k es) = (map_of es)(k := None)"
  by (induction es) (auto simp: del_key_def fun_eq_iff)

lemma fst_put_key: "fst ` set (put_key k v es) = insert k (fst ` set es)"
  by (induction es) auto

lemma fst_del_key: "fst ` set (del_key k es) = fst ` set es - {k}"
  by (auto simp: del_key_def)

lemma distinct_put_key: "distinct (map fst es) \<Longrightarrow> distinct (map fst (put_key k v es))"
  by (induction es) (auto simp: fst_put_key)

lemma distinct_del_key: "distinct (map fst es) \<Longrightarrow> distinct (map fst (del_key k es))"
  by (simp add: del_key_def distinct_map_filter)

lemma set_put_key: "distinct (map fst es) \<Longrightarrow> set (put_key k v es) = insert (k, v) {e \<in> set es. fst e \<noteq> k}"
  by (induction es) force+

lemma set_del_key: "set (del_key k es) = {e \<in> set es. fst e \<noteq> k}"
  by (auto simp: del_key_def)

lemma put_key_not_Nil [simp]: "put_key k v es \<noteq> []"
  by (cases es) auto

section \<open>The registry's invariant\<close>

text \<open>
  Users and, per user, ids are distinct; no user has an empty map; a stream is registered
  under its own user and id; only users with streams have a newest message id; and no queue
  is longer than its channel.
\<close>

definition entry_ok :: "(ptr \<Rightarrow> stream) \<Rightarrow> string \<Rightarrow> (string \<times> ptr) list \<Rightarrow> bool" where
  "entry_ok h u m \<longleftrightarrow> m \<noteq> [] \<and> distinct (map fst m) \<and> (\<forall>(i, p)\<in>set m. suser (h p) = u \<and> sid (h p) = i)"

definition registry_ok :: "server \<Rightarrow> bool" where
  "registry_ok s \<longleftrightarrow> distinct (map fst (streams s)) \<and> (\<forall>(u, m)\<in>set (streams s). entry_ok (heap s) u m) \<and>
     dom (latest s) \<subseteq> fst ` set (streams s) \<and> (\<forall>p. length (outq (heap s p)) \<le> bufferSize)"

lemma user_streams_in:
  "distinct (map fst (streams s)) \<Longrightarrow> (u, m) \<in> set (streams s) \<Longrightarrow> user_streams s u = m"
  by (simp add: user_streams_def)

lemma user_streams_cases: "user_streams s u = [] \<or> (u, user_streams s u) \<in> set (streams s)"
  by (auto simp: user_streams_def split: option.split dest: map_of_SomeD)

lemma registered_iff:
  assumes "registry_ok s"
  shows "p \<in> set (registered s) \<longleftrightarrow> (sid (heap s p), p) \<in> set (user_streams s (suser (heap s p)))"
proof -
  have d: "distinct (map fst (streams s))" and ok: "\<And>u m. (u, m) \<in> set (streams s) \<Longrightarrow> entry_ok (heap s) u m"
    using assms by (auto simp: registry_ok_def)
  show ?thesis
  proof
    assume "p \<in> set (registered s)"
    then obtain u m i where m: "(u, m) \<in> set (streams s)" "(i, p) \<in> set m"
      by (auto simp: registered_def)
    with ok [OF m(1)] user_streams_in [OF d m(1)] show "(sid (heap s p), p) \<in> set (user_streams s (suser (heap s p)))"
      by (auto simp: entry_ok_def)
  next
    assume a: "(sid (heap s p), p) \<in> set (user_streams s (suser (heap s p)))"
    then have "(suser (heap s p), user_streams s (suser (heap s p))) \<in> set (streams s)"
      using user_streams_cases [of s "suser (heap s p)"] by auto
    with a show "p \<in> set (registered s)" by (force simp: registered_def)
  qed
qed

text \<open>Changing a stream's queue or stopping it, nothing else.\<close>

definition same_name :: "stream \<Rightarrow> stream \<Rightarrow> bool" where
  "same_name a b \<longleftrightarrow> suser a = suser b \<and> sid a = sid b"

lemma registry_ok_heap:
  assumes "registry_ok s" "\<And>q. same_name (h q) (heap s q)" "\<And>q. length (outq (h q)) \<le> bufferSize"
  shows "registry_ok (s\<lparr>heap := h\<rparr>)"
  using assms by (fastforce simp: registry_ok_def entry_ok_def same_name_def)

lemma stop_ok: "registry_ok s \<Longrightarrow> registry_ok (stop p s)"
  unfolding stop_def by (rule registry_ok_heap) (auto simp: same_name_def registry_ok_def)

lemma offer_ok: "registry_ok s \<Longrightarrow> offer p b s = (r, s') \<Longrightarrow> registry_ok s'"
proof -
  assume s: "registry_ok s" and o: "offer p b s = (r, s')"
  have "registry_ok (s\<lparr>heap := (heap s)(p := (heap s p)\<lparr>outq := outq (heap s p) @ [b]\<rparr>)\<rparr>)"
    if "length (outq (heap s p)) < bufferSize"
    by (rule registry_ok_heap [OF s]) (use s that in \<open>auto simp: same_name_def registry_ok_def\<close>)
  with s o show ?thesis by (auto simp: offer_def stop_ok split: if_splits)
qed

lemma deregisterLocked_ok:
  assumes "registry_ok s"
  shows "registry_ok (deregisterLocked p s)"
proof -
  let ?u = "suser (heap s p)" and ?i = "sid (heap s p)"
  let ?m = "del_key ?i (user_streams s ?u)"
  have d: "distinct (map fst (streams s))" and ok: "\<And>u m. (u, m) \<in> set (streams s) \<Longrightarrow> entry_ok (heap s) u m"
    and l: "dom (latest s) \<subseteq> fst ` set (streams s)" and q: "\<And>p. length (outq (heap s p)) \<le> bufferSize"
    using assms by (auto simp: registry_ok_def)
  show ?thesis
  proof (cases "?m = []")
    case True
    then show ?thesis using d ok l q
      by (auto simp: deregisterLocked_def Let_def registry_ok_def distinct_del_key set_del_key fst_del_key)
  next
    case False
    then have "(?u, user_streams s ?u) \<in> set (streams s)"
      using user_streams_cases [of s ?u] by (auto simp: del_key_def)
    then have "entry_ok (heap s) ?u ?m"
      using ok False by (auto simp: entry_ok_def distinct_del_key set_del_key)
    then show ?thesis using False d ok l q
      by (auto simp: deregisterLocked_def registry_ok_def distinct_put_key set_put_key fst_put_key Let_def)
  qed
qed

lemma offerLocked_ok: "registry_ok s \<Longrightarrow> registry_ok (offerLocked p b s)"
  unfolding offerLocked_def by (cases "offer p b s") (auto intro: offer_ok deregisterLocked_ok)

lemma pingLocked_ok: "registry_ok s \<Longrightarrow> registry_ok (pingLocked time p s)"
  unfolding pingLocked_def by (rule offerLocked_ok)

lemma fold_ok: "(\<And>x s. registry_ok s \<Longrightarrow> registry_ok (f x s)) \<Longrightarrow> registry_ok s \<Longrightarrow> registry_ok (fold f xs s)"
  by (induction xs arbitrary: s) auto

lemma pingAll_ok: "registry_ok s \<Longrightarrow> registry_ok (pingAll time s)"
  unfolding pingAll_def by (intro fold_ok pingLocked_ok)

lemma servePing_ok: "registry_ok s \<Longrightarrow> servePing time u i s = (r, s') \<Longrightarrow> registry_ok s'"
  by (auto simp: servePing_def split: option.splits intro: pingLocked_ok)

lemma CloseStreams_ok: "registry_ok s \<Longrightarrow> registry_ok (CloseStreams s)"
  unfolding CloseStreams_def by (intro fold_ok stop_ok) (auto simp: registry_ok_def)

lemma raiseLatestLocked_ok: "registry_ok s \<Longrightarrow> user_streams s u \<noteq> [] \<Longrightarrow> registry_ok (raiseLatestLocked u n s)"
  using user_streams_cases [of s u] by (force simp: raiseLatestLocked_def registry_ok_def)

lemma deliver_ok: "registry_ok s \<Longrightarrow> registry_ok (deliver owner body i s)"
  unfolding deliver_def Let_def
  by (intro fold_ok offerLocked_ok) (auto intro: raiseLatestLocked_ok split: option.split)

lemma register_ok:
  assumes "registry_ok s"
  shows "registry_ok (register p s)"
proof -
  have main: "registry_ok (t\<lparr>streams := put_key u (put_key (sid (heap t p)) p (user_streams t u)) (streams t)\<rparr>)"
    if t: "registry_ok t" and u: "u = suser (heap t p)" for t u
  proof -
    have d: "distinct (map fst (streams t))" and ok: "\<And>u m. (u, m) \<in> set (streams t) \<Longrightarrow> entry_ok (heap t) u m"
      using t by (auto simp: registry_ok_def)
    have "user_streams t u = [] \<or> entry_ok (heap t) u (user_streams t u)"
      using user_streams_cases [of t u] ok by blast
    then have "entry_ok (heap t) u (put_key (sid (heap t p)) p (user_streams t u))"
      using u by (auto simp: entry_ok_def distinct_put_key set_put_key)
    with t d ok show ?thesis
      by (auto simp: registry_ok_def distinct_put_key set_put_key fst_put_key)
  qed
  show ?thesis using main assms stop_ok [OF assms] by (simp add: register_def Let_def)
qed

section \<open>The handler of a stream\<close>

text \<open>
  Where \<^verbatim>\<open>serveStream\<close> is: the stream is registered (\<open>Opening\<close>), has asked whether the newest
  message id is known and found it is not (\<open>Querying\<close>), is about to write the handshake
  (\<open>Greeting\<close>), is in the loop (\<open>Serving\<close>), has left it (\<open>Leaving\<close>), has run \<^verbatim>\<open>st.stop()\<close> of its
  close work (\<open>Closing\<close>), and has deregistered (\<open>Ended\<close>).
\<close>

datatype phase = Unused | Opening | Querying | Greeting | Serving | Leaving | Closing | Ended

text \<open>What a client did or a message brought about, newest first in \<open>hist\<close>.\<close>

datatype label = Opened ptr string | Delivered string string string

text \<open>\<open>taken\<close> is what the handler received from \<open>out\<close>, \<open>wrote\<close> what it wrote to its client.\<close>

record system =
  srv :: server
  phase :: "ptr \<Rightarrow> phase"
  taken :: "ptr \<Rightarrow> string list"
  wrote :: "ptr \<Rightarrow> string list"
  hist :: "label list"

definition new_stream :: "string \<Rightarrow> string \<Rightarrow> string \<Rightarrow> string option \<Rightarrow> int \<Rightarrow> stream" where
  "new_stream i u rem ag now = \<lparr>sid = i, suser = u, remote = rem, agent = ag, created_at = now, outq = [], stopped = False\<rparr>"

definition open_stream :: "ptr \<Rightarrow> stream \<Rightarrow> server \<Rightarrow> server" where
  "open_stream p st s = register p (s\<lparr>heap := (heap s)(p := st)\<rparr>)"

text \<open>After the query: raised only if the user still has streams.\<close>

definition learn_latest :: "string \<Rightarrow> int \<Rightarrow> server \<Rightarrow> server" where
  "learn_latest u n s = (if user_streams s u \<noteq> [] then raiseLatestLocked u n s else s)"

definition handshake :: "string \<Rightarrow> ptr \<Rightarrow> server \<Rightarrow> string" where
  "handshake time p s = padding @ streamEvent (sid (heap s p)) @ pingEvent time (latest_of s (suser (heap s p)))"

definition receive :: "ptr \<Rightarrow> server \<Rightarrow> server" where
  "receive p s = s\<lparr>heap := (heap s)(p := (heap s p)\<lparr>outq := tl (outq (heap s p))\<rparr>)\<rparr>"

definition init :: "(ptr \<Rightarrow> stream) \<Rightarrow> system" where
  "init h = \<lparr>srv = \<lparr>heap = (\<lambda>p. (h p)\<lparr>outq := [], stopped := False\<rparr>), streams = [], latest = Map.empty, closed = False\<rparr>,
     phase = (\<lambda>_. Unused), taken = (\<lambda>_. []), wrote = (\<lambda>_. []), hist = []\<rparr>"

text \<open>
  One step of the process. The ids that \<^verbatim>\<open>ids.New\<close> gives are not given twice (they hold 16
  random bytes). \<open>ok\<close> says whether a write succeeded.
\<close>

inductive step :: "system \<Rightarrow> system \<Rightarrow> bool" where
  open_step: "phase y p = Unused \<Longrightarrow> (\<forall>q. phase y q \<noteq> Unused \<longrightarrow> sid (heap (srv y) q) \<noteq> i) \<Longrightarrow>
    step y (y\<lparr>srv := open_stream p (new_stream i u rem ag now) (srv y), phase := (phase y)(p := Opening),
              hist := Opened p u # hist y\<rparr>)"
| known_step: "phase y p = Opening \<Longrightarrow> latest (srv y) (suser (heap (srv y) p)) \<noteq> None \<Longrightarrow>
    step y (y\<lparr>phase := (phase y)(p := Greeting)\<rparr>)"
| unknown_step: "phase y p = Opening \<Longrightarrow> latest (srv y) (suser (heap (srv y) p)) = None \<Longrightarrow>
    step y (y\<lparr>phase := (phase y)(p := Querying)\<rparr>)"
| learn_step: "phase y p = Querying \<Longrightarrow>
    step y (y\<lparr>srv := learn_latest (suser (heap (srv y) p)) n (srv y), phase := (phase y)(p := Greeting)\<rparr>)"
| greet_step: "phase y p = Greeting \<Longrightarrow>
    step y (y\<lparr>phase := (phase y)(p := if ok then Serving else Leaving),
              wrote := (wrote y)(p := wrote y p @ (if ok then [handshake time p (srv y)] else []))\<rparr>)"
| take_step: "phase y p = Serving \<Longrightarrow> outq (heap (srv y) p) = b # rest \<Longrightarrow>
    step y (y\<lparr>srv := receive p (srv y), phase := (phase y)(p := if ok then Serving else Leaving),
              taken := (taken y)(p := taken y p @ [b]),
              wrote := (wrote y)(p := wrote y p @ (if ok then [b] else []))\<rparr>)"
| replay_step: "phase y p = Serving \<Longrightarrow>
    step y (y\<lparr>phase := (phase y)(p := if ok then Serving else Leaving),
              wrote := (wrote y)(p := wrote y p @ (if ok then [b] else []))\<rparr>)"
| leave_step: "phase y p = Serving \<Longrightarrow> step y (y\<lparr>phase := (phase y)(p := Leaving)\<rparr>)"
| stop_step: "phase y p = Leaving \<Longrightarrow> step y (y\<lparr>srv := stop p (srv y), phase := (phase y)(p := Closing)\<rparr>)"
| close_step: "phase y p = Closing \<Longrightarrow> step y (y\<lparr>srv := deregister p (srv y), phase := (phase y)(p := Ended)\<rparr>)"
| ping_all_step: "step y (y\<lparr>srv := pingAll time (srv y)\<rparr>)"
| ping_step: "step y (y\<lparr>srv := snd (servePing time u i (srv y))\<rparr>)"
| deliver_step: "step y (y\<lparr>srv := deliver owner body i (srv y), hist := Delivered owner body i # hist y\<rparr>)"
| shutdown_step: "step y (y\<lparr>srv := CloseStreams (srv y)\<rparr>)"

inductive reachable_from :: "system \<Rightarrow> system \<Rightarrow> bool" for y0 :: system where
  reach_init: "reachable_from y0 y0"
| reach_step: "reachable_from y0 y \<Longrightarrow> step y y' \<Longrightarrow> reachable_from y0 y'"

inductive_cases stepE: "step y y'"

text \<open>The server's invariant is kept by every step.\<close>

lemma receive_ok: "registry_ok s \<Longrightarrow> registry_ok (receive p s)"
  unfolding receive_def
  by (rule registry_ok_heap) (auto simp: same_name_def registry_ok_def dest: spec [of _ p] intro: order_trans)

lemma set_registered: "set (registered s) = (\<Union>(u, m)\<in>set (streams s). snd ` set m)"
  by (auto simp: registered_def)

lemma new_heap_ok:
  assumes "registry_ok s" "p \<notin> set (registered s)" "outq st = []"
  shows "registry_ok (s\<lparr>heap := (heap s)(p := st)\<rparr>)"
proof -
  have "q \<noteq> p" if "(u, m) \<in> set (streams s)" "(i, q) \<in> set m" for u m i q
    using assms(2) that by (force simp: set_registered)
  then have "entry_ok ((heap s)(p := st)) u m" if "(u, m) \<in> set (streams s)" for u m
    using assms(1) that by (fastforce simp: registry_ok_def entry_ok_def)
  then show ?thesis using assms by (auto simp: registry_ok_def)
qed

lemma open_stream_ok:
  "registry_ok s \<Longrightarrow> p \<notin> set (registered s) \<Longrightarrow> outq st = [] \<Longrightarrow> registry_ok (open_stream p st s)"
  unfolding open_stream_def by (intro register_ok new_heap_ok)

text \<open>Which pointers an operation can register.\<close>

lemma registered_put:
  "distinct (map fst (streams s)) \<Longrightarrow>
   set (registered (s\<lparr>streams := put_key u m (streams s)\<rparr>)) \<subseteq> snd ` set m \<union> set (registered s)"
  by (auto simp: set_registered set_put_key)

lemma registered_deregisterLocked:
  assumes "registry_ok s"
  shows "set (registered (deregisterLocked p s)) \<subseteq> set (registered s)"
proof -
  have d: "distinct (map fst (streams s))" using assms by (simp add: registry_ok_def)
  have m: "snd ` set (user_streams s u) \<subseteq> set (registered s)" for u
    using user_streams_cases [of s u] by (auto simp: set_registered)
  show ?thesis
  proof (cases "del_key (sid (heap s p)) (user_streams s (suser (heap s p))) = []")
    case True
    then show ?thesis by (auto simp: deregisterLocked_def Let_def set_registered set_del_key)
  next
    case False
    let ?m = "del_key (sid (heap s p)) (user_streams s (suser (heap s p)))"
    have "snd ` set ?m \<subseteq> set (registered s)" using m unfolding set_del_key by blast
    with registered_put [OF d, of "suser (heap s p)" ?m] show ?thesis
      unfolding deregisterLocked_def Let_def if_not_P [OF False] by blast
  qed
qed

section \<open>What an operation hands to each stream\<close>

definition is_irc :: "string \<Rightarrow> bool" where
  "is_irc b \<longleftrightarrow> has_prefix b ''event: irc''"

abbreviation irc :: "string list \<Rightarrow> string list" where
  "irc bs \<equiv> filter is_irc bs"

lemma is_irc_sse [simp]: "is_irc (sseEvent ''irc'' b i)"
  by (simp add: is_irc_def sseEvent_def)

lemma is_irc_ping [simp]: "\<not> is_irc (pingEvent time n)"
  by (simp add: is_irc_def pingEvent_def sseEvent_def)

text \<open>
  \<open>serves U D s s'\<close>: from \<open>s\<close> to \<open>s'\<close> every stream keeps its name, one that was stopped stays so,
  one that is not stopped at the end was handed the messages \<open>D\<close> and stays registered; nobody
  else is handed a message or registered. \<open>U\<close> are the pointers in use, whose ids differ.
\<close>

definition serves :: "(ptr \<Rightarrow> string list) \<Rightarrow> server \<Rightarrow> server \<Rightarrow> bool" where
  "serves D s s' \<longleftrightarrow> set (registered s') \<subseteq> set (registered s) \<and>
     (\<forall>q\<in>set (registered s). \<not> stopped (heap s' q) \<longrightarrow> q \<in> set (registered s')) \<and>
     (\<forall>q. same_name (heap s' q) (heap s q) \<and> (stopped (heap s q) \<longrightarrow> stopped (heap s' q)) \<and>
        (\<not> stopped (heap s' q) \<longrightarrow> irc (outq (heap s' q)) = irc (outq (heap s q)) @ D q) \<and>
        set (irc (outq (heap s' q))) \<subseteq> set (irc (outq (heap s q))) \<union> set (D q))"

lemma serves_refl: "serves (\<lambda>_. []) s s"
  by (simp add: serves_def same_name_def)

lemma serves_trans: "serves D s s' \<Longrightarrow> serves E s' s'' \<Longrightarrow> serves (\<lambda>q. D q @ E q) s s''"
  unfolding serves_def same_name_def by (simp; blast)

lemma serves_cong: "serves D s s' \<Longrightarrow> (\<And>q. D q = E q) \<Longrightarrow> serves E s s'"
  by (simp add: serves_def)

text \<open>Pointers in use: their ids differ, and the registered ones are among them.\<close>

definition in_use :: "ptr set \<Rightarrow> server \<Rightarrow> bool" where
  "in_use U s \<longleftrightarrow> inj_on (\<lambda>p. sid (heap s p)) U \<and> set (registered s) \<subseteq> U"

lemma serves_in_use: "serves D s s' \<Longrightarrow> in_use U s \<Longrightarrow> in_use U s'"
  by (auto simp: serves_def in_use_def same_name_def inj_on_def)

lemma heap_deregisterLocked [simp]: "heap (deregisterLocked p s) = heap s"
  by (simp add: deregisterLocked_def Let_def)

lemma registered_kept:
  assumes ok: "registry_ok s" and U: "in_use U s" "p \<in> U" and q: "q \<in> set (registered s)" "q \<noteq> p"
  shows "q \<in> set (registered (deregisterLocked p s))"
proof -
  let ?u = "suser (heap s p)" and ?m = "del_key (sid (heap s p)) (user_streams s (suser (heap s p)))"
  have sid: "sid (heap s q) \<noteq> sid (heap s p)" using U q by (auto simp: in_use_def inj_on_def)
  have d: "distinct (map fst (streams s))" using ok by (simp add: registry_ok_def)
  have "(sid (heap s q), q) \<in> set (user_streams s (suser (heap s q)))"
    using q(1) registered_iff [OF ok] by simp
  then have "(sid (heap (deregisterLocked p s) q), q) \<in>
      set (user_streams (deregisterLocked p s) (suser (heap (deregisterLocked p s) q)))"
    using sid by (auto simp: deregisterLocked_def Let_def user_streams_def set_del_key split: option.splits)
      (auto simp: del_key_def filter_empty_conv)
  then show ?thesis using registered_iff [OF deregisterLocked_ok [OF ok]] by blast
qed

lemma serves_deregister:
  assumes "registry_ok s" "in_use U s" "p \<in> U" "stopped (heap s p)"
  shows "serves (\<lambda>_. []) s (deregisterLocked p s)"
  using registered_deregisterLocked [OF assms(1)] registered_kept [OF assms(1-3)] assms(4)
  by (auto simp: serves_def same_name_def)

lemma registered_heap [simp]: "registered (s\<lparr>heap := h\<rparr>) = registered s"
  by (simp add: registered_def)

lemma serves_stop: "serves (\<lambda>_. []) s (stop p s)"
  by (auto simp: serves_def same_name_def stop_def)

lemma stopped_stop [simp]: "stopped (heap (stop p s) p)"
  by (simp add: stop_def)

lemma serves_offerLocked:
  assumes "registry_ok s" "in_use U s" "p \<in> U"
  shows "serves (\<lambda>q. if q = p then irc [b] else []) s (offerLocked p b s)"
proof -
  let ?D = "\<lambda>q. if q = p then irc [b] else []"
  consider "stopped (heap s p)" | "\<not> stopped (heap s p)" "length (outq (heap s p)) < bufferSize"
    | "\<not> stopped (heap s p)" "\<not> length (outq (heap s p)) < bufferSize" by blast
  then show ?thesis
  proof cases
    case 1
    then show ?thesis by (auto simp: offerLocked_def offer_def serves_def same_name_def)
  next
    case 2
    then show ?thesis by (auto simp: offerLocked_def offer_def serves_def same_name_def)
  next
    case 3
    have "serves ?D s (stop p s)"
      using serves_stop [of s p] by (auto simp: serves_def)
    moreover have "serves (\<lambda>_. []) (stop p s) (deregisterLocked p (stop p s))"
      by (rule serves_deregister [OF stop_ok [OF assms(1)] serves_in_use [OF serves_stop assms(2)] assms(3)]) simp
    ultimately show ?thesis using 3 serves_trans by (fastforce simp: offerLocked_def offer_def)
  qed
qed

lemma serves_fold:
  assumes "\<And>p s. p \<in> set ps \<Longrightarrow> registry_ok s \<Longrightarrow> in_use U s \<Longrightarrow>
      registry_ok (f p s) \<and> serves (\<lambda>q. if q = p then E else []) s (f p s)"
    "distinct ps \<or> E = []" "registry_ok s" "in_use U s"
  shows "serves (\<lambda>q. if q \<in> set ps then E else []) s (fold f ps s)"
  using assms
proof (induction ps arbitrary: s)
  case (Cons p ps)
  have p: "registry_ok (f p s)" "serves (\<lambda>q. if q = p then E else []) s (f p s)"
    using Cons.prems by auto
  have "serves (\<lambda>q. if q \<in> set ps then E else []) (f p s) (fold f ps (f p s))"
    by (rule Cons.IH) (use Cons.prems p(1) serves_in_use [OF p(2) Cons.prems(4)] in auto)
  from serves_trans [OF p(2) this] have "serves (\<lambda>q. if q \<in> set (p # ps) then E else []) s (fold f ps (f p s))"
    by (rule serves_cong) (use Cons.prems(2) in auto)
  then show ?case by simp
qed (simp add: serves_refl)

lemma serves_pingLocked:
  assumes "registry_ok s" "in_use U s" "p \<in> U"
  shows "serves (\<lambda>_. []) s (pingLocked time p s)"
  unfolding pingLocked_def
  by (rule serves_cong [OF serves_offerLocked [OF assms]]) simp

lemma serves_pingAll:
  assumes "registry_ok s" "in_use U s"
  shows "serves (\<lambda>_. []) s (pingAll time s)"
proof -
  have "serves (\<lambda>q. if q \<in> set (registered s) then [] else []) s (fold (pingLocked time) (registered s) s)"
  proof (rule serves_fold [where U = U])
    fix p t assume "p \<in> set (registered s)" "registry_ok t" "in_use U t"
    then show "registry_ok (pingLocked time p t) \<and> serves (\<lambda>q. if q = p then [] else []) t (pingLocked time p t)"
      using assms(2) serves_pingLocked [of t U p time] pingLocked_ok by (auto simp: in_use_def)
  qed (use assms in auto)
  then show ?thesis by (simp add: pingAll_def)
qed

lemma serves_CloseStreams:
  assumes "registry_ok s" "in_use U s"
  shows "serves (\<lambda>_. []) s (CloseStreams s)"
proof -
  let ?s = "s\<lparr>closed := True\<rparr>"
  have ok: "registry_ok ?s" "in_use U ?s" using assms by (auto simp: registry_ok_def in_use_def registered_def)
  have "serves (\<lambda>q. if q \<in> set (registered s) then [] else []) ?s (fold stop (registered s) ?s)"
    by (rule serves_fold [where U = U]) (use ok stop_ok serves_stop in auto)
  moreover have "serves (\<lambda>_. []) s ?s" by (auto simp: serves_def same_name_def registered_def)
  ultimately show ?thesis using serves_trans by (fastforce simp: CloseStreams_def)
qed

lemma user_entry:
  assumes "registry_ok s"
  shows "distinct (map fst (user_streams s u))"
    "(i, q) \<in> set (user_streams s u) \<Longrightarrow> suser (heap s q) = u \<and> sid (heap s q) = i \<and> q \<in> set (registered s)"
proof -
  have e: "user_streams s u = [] \<or> entry_ok (heap s) u (user_streams s u) \<and> (u, user_streams s u) \<in> set (streams s)"
    using user_streams_cases [of s u] assms by (auto simp: registry_ok_def)
  then show "distinct (map fst (user_streams s u))" by (auto simp: entry_ok_def)
  assume q: "(i, q) \<in> set (user_streams s u)"
  with e have e': "entry_ok (heap s) u (user_streams s u)" "(u, user_streams s u) \<in> set (streams s)" by auto
  then have "q \<in> set (registered s)" using q unfolding set_registered by force
  with e'(1) q show "suser (heap s q) = u \<and> sid (heap s q) = i \<and> q \<in> set (registered s)"
    by (auto simp: entry_ok_def)
qed

lemma user_pointers:
  assumes "registry_ok s"
  shows "distinct (map snd (user_streams s u))"
    "p \<in> set (map snd (user_streams s u)) \<longleftrightarrow> p \<in> set (registered s) \<and> suser (heap s p) = u"
proof -
  note m = user_entry [OF assms]
  show "distinct (map snd (user_streams s u))"
  proof -
    have "inj_on snd (set (user_streams s u))"
      by (rule inj_on_inverseI [where g = "\<lambda>p. (sid (heap s p), p)"]) (use m(2) in force)
    then show ?thesis using m(1) [of u] by (simp add: distinct_map)
  qed
  show "p \<in> set (map snd (user_streams s u)) \<longleftrightarrow> p \<in> set (registered s) \<and> suser (heap s p) = u"
  proof
    assume "p \<in> set (map snd (user_streams s u))"
    then obtain i where "(i, p) \<in> set (user_streams s u)" by auto
    from m(2) [OF this] show "p \<in> set (registered s) \<and> suser (heap s p) = u" by simp
  next
    assume "p \<in> set (registered s) \<and> suser (heap s p) = u"
    then have "(sid (heap s p), p) \<in> set (user_streams s u)" using registered_iff [OF assms, of p] by metis
    then show "p \<in> set (map snd (user_streams s u))" by (simp add: rev_image_eqI)
  qed
qed

lemma serves_raise: "serves (\<lambda>_. []) s (raiseLatestLocked u n s)"
  by (auto simp: serves_def same_name_def raiseLatestLocked_def registered_def)

lemma serves_learn: "serves (\<lambda>_. []) s (learn_latest u n s)"
  unfolding learn_latest_def using serves_raise serves_refl by auto

lemma learn_latest_ok: "registry_ok s \<Longrightarrow> registry_ok (learn_latest u n s)"
  unfolding learn_latest_def by (auto intro: raiseLatestLocked_ok)

lemma serves_deliver:
  assumes "registry_ok s" "in_use U s"
  shows "serves (\<lambda>q. if q \<in> set (registered s) \<and> suser (heap s q) = owner then [sseEvent ''irc'' body i] else []) s
    (deliver owner body i s)"
proof -
  let ?ev = "sseEvent ''irc'' body i"
  have ev: "irc [?ev] = [?ev]" by simp
  let ?t = "case ParseInt i of Some n \<Rightarrow> if user_streams s owner \<noteq> [] then raiseLatestLocked owner n s else s | None \<Rightarrow> s"
  have t: "registry_ok ?t" "serves (\<lambda>_. []) s ?t"
    using assms(1) raiseLatestLocked_ok [OF assms(1)] serves_raise [of s] serves_refl [of s] by (auto split: option.split)
  have same: "user_streams ?t owner = user_streams s owner" "heap ?t = heap s" "registered ?t = registered s"
    by (auto simp: raiseLatestLocked_def user_streams_def registered_def split: option.split)
  have "serves (\<lambda>q. if q \<in> set (map snd (user_streams s owner)) then [?ev] else []) ?t
      (fold (\<lambda>p. offerLocked p ?ev) (map snd (user_streams s owner)) ?t)"
  proof (rule serves_fold [where U = U])
    fix p v assume "p \<in> set (map snd (user_streams s owner))" "registry_ok v" "in_use U v"
    moreover from this have "p \<in> U" using user_pointers(2) [OF assms(1)] assms(2) by (auto simp: in_use_def)
    ultimately show "registry_ok (offerLocked p ?ev v) \<and>
        serves (\<lambda>q. if q = p then [?ev] else []) v (offerLocked p ?ev v)"
      using serves_offerLocked [of v U p ?ev, unfolded ev] offerLocked_ok [of v p ?ev] by blast
  qed (use user_pointers(1) [OF assms(1)] t(1) serves_in_use [OF t(2) assms(2)] in auto)
  from serves_trans [OF t(2) this] show ?thesis
    unfolding deliver_def Let_def same(1) by (rule serves_cong) (simp only: user_pointers(2) [OF assms(1)] append_Nil)
qed

lemma serves_servePing:
  assumes "registry_ok s" "in_use U s"
  shows "serves (\<lambda>_. []) s (snd (servePing time u i s))"
proof (cases "map_of (user_streams s u) i")
  case (Some p)
  then have "p \<in> U"
    using assms user_pointers(2) [OF assms(1), of p u] by (auto simp: in_use_def dest!: map_of_SomeD intro: rev_image_eqI)
  with Some assms show ?thesis by (simp add: servePing_def serves_pingLocked)
qed (simp add: servePing_def serves_refl)

text \<open>Opening a stream: it is registered, the others stay so.\<close>

lemma registered_put_key:
  assumes "registry_ok s" "\<And>q. q \<in> set (registered s) \<Longrightarrow> sid (heap s q) \<noteq> i"
  shows "set (registered (s\<lparr>streams := put_key u (put_key i p (user_streams s u)) (streams s)\<rparr>)) =
    insert p (set (registered s))"
proof -
  have d: "distinct (map fst (streams s))" using assms(1) by (simp add: registry_ok_def)
  have "j \<noteq> i" if "(j, q) \<in> set (user_streams s u)" for j q
    using user_entry(2) [OF assms(1) that] assms(2) by blast
  then have "{e \<in> set (user_streams s u). fst e \<noteq> i} = set (user_streams s u)" by fastforce
  then have "snd ` set (put_key i p (user_streams s u)) = insert p (snd ` set (user_streams s u))"
    by (simp add: set_put_key [OF user_entry(1) [OF assms(1)]])
  moreover have "set (registered s) = snd ` set (user_streams s u) \<union> (\<Union>(v, m)\<in>{e \<in> set (streams s). fst e \<noteq> u}. snd ` set m)"
  proof -
    have "snd ` set (user_streams s u) \<subseteq> set (registered s)" using user_entry(2) [OF assms(1)] by force
    moreover have "snd ` set m = snd ` set (user_streams s u)" if "(u, m) \<in> set (streams s)" for m
      using user_streams_in [OF d that] by simp
    ultimately show ?thesis
    proof (intro equalityI subsetI)
      fix q assume "q \<in> set (registered s)"
      then obtain v m where vm: "(v, m) \<in> set (streams s)" "q \<in> snd ` set m" by (auto simp: set_registered)
      then show "q \<in> snd ` set (user_streams s u) \<union> (\<Union>(v, m)\<in>{e \<in> set (streams s). fst e \<noteq> u}. snd ` set m)"
        using user_streams_in [OF d vm(1)] by (cases "v = u") auto
    next
      fix q assume "q \<in> snd ` set (user_streams s u) \<union> (\<Union>(v, m)\<in>{e \<in> set (streams s). fst e \<noteq> u}. snd ` set m)"
      then show "q \<in> set (registered s)"
      proof
        assume "q \<in> snd ` set (user_streams s u)"
        then show ?thesis using \<open>snd ` set (user_streams s u) \<subseteq> set (registered s)\<close> by blast
      qed (auto simp: set_registered)
    qed
  qed
  ultimately show ?thesis by (auto simp: set_registered set_put_key [OF d])
qed

section \<open>What every state satisfies\<close>

text \<open>The messages delivered for a user since a stream was opened, in order.\<close>

fun since :: "ptr \<Rightarrow> string \<Rightarrow> label list \<Rightarrow> string list" where
  "since p u [] = []"
| "since p u (Opened q v # h) = (if q = p then [] else since p u h)"
| "since p u (Delivered owner b i # h) = since p u h @ (if owner = u then [sseEvent ''irc'' b i] else [])"

definition delivered_to :: "string \<Rightarrow> label list \<Rightarrow> string set" where
  "delivered_to u h = {sseEvent ''irc'' b i | b i. Delivered u b i \<in> set h}"

abbreviation stream_of :: "system \<Rightarrow> ptr \<Rightarrow> stream" where
  "stream_of y p \<equiv> heap (srv y) p"

definition live :: "phase \<Rightarrow> bool" where
  "live ph \<longleftrightarrow> ph \<in> {Opening, Querying, Greeting, Serving, Leaving}"

lemma live_simps [simp]:
  "live Opening" "live Querying" "live Greeting" "live Serving" "live Leaving"
  "\<not> live Unused" "\<not> live Closing" "\<not> live Ended"
  by (simp_all add: live_def)

definition system_ok :: "system \<Rightarrow> bool" where
  "system_ok y \<longleftrightarrow> registry_ok (srv y) \<and> in_use {p. phase y p \<noteq> Unused} (srv y) \<and>
     (\<forall>p. phase y p = Unused \<longrightarrow> taken y p = []) \<and>
     (\<forall>p. phase y p = Closing \<longrightarrow> stopped (stream_of y p)) \<and>
     (\<forall>p. live (phase y p) \<and> \<not> stopped (stream_of y p) \<longrightarrow> p \<in> set (registered (srv y))) \<and>
     (\<forall>p\<in>set (registered (srv y)). \<not> stopped (stream_of y p) \<longrightarrow>
        irc (taken y p @ outq (stream_of y p)) = since p (suser (stream_of y p)) (hist y)) \<and>
     (\<forall>p. phase y p \<noteq> Unused \<longrightarrow>
        set (irc (taken y p @ outq (stream_of y p))) \<subseteq> delivered_to (suser (stream_of y p)) (hist y))"

lemma system_okD:
  assumes "system_ok y"
  shows "registry_ok (srv y)" "in_use {p. phase y p \<noteq> Unused} (srv y)"
    "phase y p = Unused \<Longrightarrow> taken y p = []"
    "phase y p = Closing \<Longrightarrow> stopped (stream_of y p)"
    "live (phase y p) \<Longrightarrow> \<not> stopped (stream_of y p) \<Longrightarrow> p \<in> set (registered (srv y))"
    "p \<in> set (registered (srv y)) \<Longrightarrow> \<not> stopped (stream_of y p) \<Longrightarrow>
        irc (taken y p @ outq (stream_of y p)) = since p (suser (stream_of y p)) (hist y)"
    "phase y p \<noteq> Unused \<Longrightarrow>
        set (irc (taken y p @ outq (stream_of y p))) \<subseteq> delivered_to (suser (stream_of y p)) (hist y)"
  using assms unfolding system_ok_def by blast+

lemma registered_used: "system_ok y \<Longrightarrow> p \<in> set (registered (srv y)) \<Longrightarrow> phase y p \<noteq> Unused"
  using system_okD(2) [of y] by (auto simp: in_use_def)

text \<open>Operations that hand out no message, and changes of a handler's phase.\<close>

lemma calm_ok:
  assumes "system_ok y" "serves (\<lambda>_. []) (srv y) s'" "registry_ok s'"
  shows "system_ok (y\<lparr>srv := s'\<rparr>)"
proof -
  note D = system_okD [OF assms(1)]
  from assms(2) have reg: "set (registered s') \<subseteq> set (registered (srv y))"
    "\<And>q. q \<in> set (registered (srv y)) \<Longrightarrow> \<not> stopped (heap s' q) \<Longrightarrow> q \<in> set (registered s')"
    and st: "\<And>q. suser (heap s' q) = suser (stream_of y q)" "\<And>q. stopped (stream_of y q) \<Longrightarrow> stopped (heap s' q)"
    "\<And>q. \<not> stopped (heap s' q) \<Longrightarrow> irc (outq (heap s' q)) = irc (outq (stream_of y q))"
    "\<And>q. set (irc (outq (heap s' q))) \<subseteq> set (irc (outq (stream_of y q)))"
    by (auto simp: serves_def same_name_def)
  show ?thesis
    unfolding system_ok_def system.simps(1-5) system.simps
  proof (intro conjI allI impI ballI)
    show "in_use {p. phase (y\<lparr>srv := s'\<rparr>) p \<noteq> Unused} (srv (y\<lparr>srv := s'\<rparr>))"
      using serves_in_use [OF assms(2) D(2)] by simp
  next
    fix p assume "p \<in> set (registered (srv (y\<lparr>srv := s'\<rparr>)))" "\<not> stopped (stream_of (y\<lparr>srv := s'\<rparr>) p)"
    then have p: "p \<in> set (registered (srv y))" "\<not> stopped (heap s' p)" "\<not> stopped (stream_of y p)"
      using reg(1) st(2) by auto
    then show "irc (taken (y\<lparr>srv := s'\<rparr>) p @ outq (stream_of (y\<lparr>srv := s'\<rparr>) p)) =
        since p (suser (stream_of (y\<lparr>srv := s'\<rparr>) p)) (hist (y\<lparr>srv := s'\<rparr>))"
      using D(6) [OF p(1,3)] st(1,3) by simp
  next
    fix p assume "live (phase (y\<lparr>srv := s'\<rparr>) p) \<and> \<not> stopped (stream_of (y\<lparr>srv := s'\<rparr>) p)"
    then show "p \<in> set (registered (srv (y\<lparr>srv := s'\<rparr>)))"
      using D(5) [of p] reg(2) [of p] st(2) [of p] by auto
  next
    fix p assume "phase (y\<lparr>srv := s'\<rparr>) p \<noteq> Unused"
    then show "set (irc (taken (y\<lparr>srv := s'\<rparr>) p @ outq (stream_of (y\<lparr>srv := s'\<rparr>) p))) \<subseteq>
        delivered_to (suser (stream_of (y\<lparr>srv := s'\<rparr>) p)) (hist (y\<lparr>srv := s'\<rparr>))"
      using D(7) [of p] st(1,4) by fastforce
  qed (use D reg st assms(3) in auto)
qed

lemma phase_ok:
  assumes "system_ok y" "phase y p \<noteq> Unused" "ph \<noteq> Unused" "live ph \<Longrightarrow> live (phase y p)"
    "ph = Closing \<Longrightarrow> stopped (stream_of y p)"
  shows "system_ok (y\<lparr>phase := (phase y)(p := ph)\<rparr>)"
proof -
  have "{q. ((phase y)(p := ph)) q \<noteq> Unused} = {q. phase y q \<noteq> Unused}" using assms(2,3) by auto
  then show ?thesis using assms unfolding system_ok_def by auto
qed

lemma wrote_ok: "system_ok (y\<lparr>wrote := f\<rparr>) = system_ok y"
  by (simp add: system_ok_def)

lemma init_ok: "system_ok (init h)"
  by (simp add: system_ok_def init_def registry_ok_def in_use_def registered_def bufferSize_def)

lemma take_ok:
  assumes "system_ok y" "outq (stream_of y p) = b # rest" "phase y p \<noteq> Unused"
  shows "system_ok (y\<lparr>srv := receive p (srv y), taken := (taken y)(p := taken y p @ [b])\<rparr>)"
proof -
  have same: "registered (receive p (srv y)) = registered (srv y)"
    "suser (heap (receive p (srv y)) q) = suser (stream_of y q)" "sid (heap (receive p (srv y)) q) = sid (stream_of y q)"
    "stopped (heap (receive p (srv y)) q) = stopped (stream_of y q)" for q
    by (simp_all add: receive_def registered_def)
  have queue: "((taken y)(p := taken y p @ [b])) q @ outq (heap (receive p (srv y)) q) = taken y q @ outq (stream_of y q)" for q
    using assms(2) by (simp add: receive_def)
  have ok: "registry_ok (receive p (srv y))" by (rule receive_ok [OF system_okD(1) [OF assms(1)]])
  from assms show ?thesis
    unfolding system_ok_def
    by (auto simp only: system.simps same queue in_use_def ok) (auto simp: same queue [simplified] ok)
qed

lemma delivered_mono: "delivered_to u h \<subseteq> delivered_to u (l # h)"
  by (auto simp: delivered_to_def)

lemma deliver_step_ok:
  assumes "system_ok y"
  shows "system_ok (y\<lparr>srv := deliver owner body i (srv y), hist := Delivered owner body i # hist y\<rparr>)"
    (is "system_ok ?y")
proof -
  note D = system_okD [OF assms]
  let ?ev = "sseEvent ''irc'' body i"
  let ?D = "\<lambda>q. if q \<in> set (registered (srv y)) \<and> suser (stream_of y q) = owner then [?ev] else []"
  note s = serves_deliver [OF D(1,2), of owner body i]
  from s have reg: "set (registered (srv ?y)) \<subseteq> set (registered (srv y))"
    "\<And>q. q \<in> set (registered (srv y)) \<Longrightarrow> \<not> stopped (stream_of ?y q) \<Longrightarrow> q \<in> set (registered (srv ?y))"
    and st: "\<And>q. suser (stream_of ?y q) = suser (stream_of y q)"
    "\<And>q. stopped (stream_of y q) \<Longrightarrow> stopped (stream_of ?y q)"
    "\<And>q. \<not> stopped (stream_of ?y q) \<Longrightarrow> irc (outq (stream_of ?y q)) = irc (outq (stream_of y q)) @ ?D q"
    "\<And>q. set (irc (outq (stream_of ?y q))) \<subseteq> set (irc (outq (stream_of y q))) \<union> set (?D q)"
    by (auto simp: serves_def same_name_def)
  show ?thesis
    unfolding system_ok_def
  proof (intro conjI allI impI ballI)
    show "registry_ok (srv ?y)" using deliver_ok [OF D(1)] by simp
    show "in_use {p. phase ?y p \<noteq> Unused} (srv ?y)" using serves_in_use [OF s D(2)] by simp
    show "taken ?y p = []" if "phase ?y p = Unused" for p using D(3) that by simp
    show "stopped (stream_of ?y p)" if "phase ?y p = Closing" for p using D(4) [of p] st(2) that by simp
    show "p \<in> set (registered (srv ?y))" if "live (phase ?y p) \<and> \<not> stopped (stream_of ?y p)" for p
      using D(5) [of p] reg(2) [of p] st(2) [of p] that by auto
  next
    fix p assume "p \<in> set (registered (srv ?y))" "\<not> stopped (stream_of ?y p)"
    then have p: "p \<in> set (registered (srv y))" "\<not> stopped (stream_of y p)" "\<not> stopped (stream_of ?y p)"
      using reg(1) st(2) by auto
    show "irc (taken ?y p @ outq (stream_of ?y p)) = since p (suser (stream_of ?y p)) (hist ?y)"
      using D(6) [OF p(1,2)] st(3) [OF p(3)] st(1) p(1) by simp
  next
    fix p assume p: "phase ?y p \<noteq> Unused"
    have "set (?D p) \<subseteq> delivered_to (suser (stream_of y p)) (hist ?y)" by (auto simp: delivered_to_def)
    moreover have "set (irc (taken y p @ outq (stream_of y p))) \<subseteq> delivered_to (suser (stream_of y p)) (hist ?y)"
      using D(7) [of p] p delivered_mono by fastforce
    ultimately show "set (irc (taken ?y p @ outq (stream_of ?y p))) \<subseteq> delivered_to (suser (stream_of ?y p)) (hist ?y)"
      using st(4) [of p] unfolding st(1) by auto
  qed
qed

lemma open_step_ok:
  assumes "system_ok y" "phase y p = Unused" "\<forall>q. phase y q \<noteq> Unused \<longrightarrow> sid (stream_of y q) \<noteq> i"
  shows "system_ok (y\<lparr>srv := open_stream p (new_stream i u rem ag now) (srv y), phase := (phase y)(p := Opening),
    hist := Opened p u # hist y\<rparr>)" (is "system_ok ?y")
proof -
  note D = system_okD [OF assms(1)]
  have unreg: "p \<notin> set (registered (srv y))" using registered_used [OF assms(1), of p] assms(2) by blast
  let ?st = "(new_stream i u rem ag now)\<lparr>stopped := closed (srv y)\<rparr>"
  let ?s = "(srv y)\<lparr>heap := (heap (srv y))(p := ?st)\<rparr>"
  have names: "sid ?st = i" "suser ?st = u" "outq ?st = []" "outq (new_stream i u rem ag now) = []"
    by (simp_all add: new_stream_def)
  have s: "open_stream p (new_stream i u rem ag now) (srv y) =
      ?s\<lparr>streams := put_key u (put_key i p (user_streams ?s u)) (streams ?s)\<rparr>"
    by (auto simp: open_stream_def register_def stop_def Let_def new_stream_def user_streams_def)
  have heap: "stream_of ?y = (heap (srv y))(p := ?st)" by (simp add: s fun_upd_def)
  have ok: "registry_ok ?s"
    using new_heap_ok [OF D(1) unreg, of ?st] names by simp
  have reg: "set (registered (srv ?y)) = insert p (set (registered (srv y)))"
  proof -
    have "sid (heap ?s q) \<noteq> i" if "q \<in> set (registered ?s)" for q
      using that assms(3) registered_used [OF assms(1), of q] unreg by auto
    from registered_put_key [OF ok this, of u p] show ?thesis by (simp add: s)
  qed
  have "registry_ok (srv ?y)" using open_stream_ok [OF D(1) unreg, of "new_stream i u rem ag now"] by (simp add: new_stream_def)
  moreover have "in_use {q. phase ?y q \<noteq> Unused} (srv ?y)"
    using D(2) assms(2,3) unfolding in_use_def reg heap by (auto simp: inj_on_def names)
  moreover have "since q v (hist ?y) = since q v (hist y)" if "q \<noteq> p" for q v using that by simp
  moreover have "delivered_to v (hist ?y) = delivered_to v (hist y)" for v by (auto simp: delivered_to_def)
  ultimately show ?thesis
    using D assms(2) unfolding system_ok_def reg heap by (auto simp: names)
qed

lemma step_ok:
  assumes "system_ok y" "step y y'"
  shows "system_ok y'"
  using assms(2)
proof (cases rule: step.cases)
  case (open_step p i u rem ag now)
  then show ?thesis using open_step_ok [OF assms(1)] by simp
next
  case (known_step p)
  then show ?thesis using phase_ok [OF assms(1), of p Greeting] by simp
next
  case (unknown_step p)
  then show ?thesis using phase_ok [OF assms(1), of p Querying] by simp
next
  case (learn_step p n)
  let ?s = "learn_latest (suser (stream_of y p)) n (srv y)"
  have "system_ok (y\<lparr>srv := ?s\<rparr>)"
    by (rule calm_ok [OF assms(1) serves_learn learn_latest_ok [OF system_okD(1) [OF assms(1)]]])
  from phase_ok [OF this, of p Greeting] learn_step show ?thesis by simp
next
  case (greet_step p ok time)
  then have "system_ok (y\<lparr>phase := (phase y)(p := if ok then Serving else Leaving)\<rparr>)"
    by (intro phase_ok [OF assms(1)]) (auto split: if_splits)
  then show ?thesis unfolding greet_step(1) by (simp add: system_ok_def)
next
  case (take_step p b rest ok)
  have "system_ok (y\<lparr>srv := receive p (srv y), taken := (taken y)(p := taken y p @ [b])\<rparr>)"
    by (rule take_ok [OF assms(1)]) (use take_step in auto)
  from phase_ok [OF this, of p "if ok then Serving else Leaving"] take_step
  have "system_ok ((y\<lparr>srv := receive p (srv y), taken := (taken y)(p := taken y p @ [b])\<rparr>)\<lparr>
      phase := (phase y)(p := if ok then Serving else Leaving)\<rparr>)" by (auto split: if_splits)
  then show ?thesis unfolding take_step(1) by (simp add: system_ok_def)
next
  case (replay_step p ok b)
  then have "system_ok (y\<lparr>phase := (phase y)(p := if ok then Serving else Leaving)\<rparr>)"
    by (intro phase_ok [OF assms(1)]) (auto split: if_splits)
  then show ?thesis unfolding replay_step(1) by (simp add: system_ok_def)
next
  case (leave_step p)
  then show ?thesis using phase_ok [OF assms(1), of p Leaving] by simp
next
  case (stop_step p)
  have "system_ok (y\<lparr>srv := stop p (srv y)\<rparr>)"
    by (rule calm_ok [OF assms(1) serves_stop stop_ok [OF system_okD(1) [OF assms(1)]]])
  from phase_ok [OF this, of p Closing] stop_step show ?thesis by simp
next
  case (close_step p)
  have "system_ok (y\<lparr>srv := deregister p (srv y)\<rparr>)"
    unfolding deregister_def
  proof (rule calm_ok [OF assms(1) _ deregisterLocked_ok [OF system_okD(1) [OF assms(1)]]])
    show "serves (\<lambda>_. []) (srv y) (deregisterLocked p (srv y))"
      by (rule serves_deregister [OF system_okD(1,2) [OF assms(1)]])
        (use close_step system_okD(4) [OF assms(1)] in auto)
  qed
  from phase_ok [OF this, of p Ended] close_step show ?thesis by simp
next
  case (ping_all_step time)
  then show ?thesis
    using calm_ok [OF assms(1) serves_pingAll [OF system_okD(1,2) [OF assms(1)]] pingAll_ok [OF system_okD(1) [OF assms(1)]]]
    by simp
next
  case (ping_step time u i)
  have "registry_ok (snd (servePing time u i (srv y)))"
    using servePing_ok [OF system_okD(1) [OF assms(1)], of time u i] by (cases "servePing time u i (srv y)") auto
  then show ?thesis
    using calm_ok [OF assms(1) serves_servePing [OF system_okD(1,2) [OF assms(1)]]] ping_step by simp
next
  case (deliver_step owner body i)
  then show ?thesis using deliver_step_ok [OF assms(1)] by simp
next
  case shutdown_step
  then show ?thesis
    using calm_ok [OF assms(1) serves_CloseStreams [OF system_okD(1,2) [OF assms(1)]] CloseStreams_ok [OF system_okD(1) [OF assms(1)]]]
    by simp
qed

lemma reachable_ok: "reachable_from (init h) y \<Longrightarrow> system_ok y"
  by (induction rule: reachable_from.induct) (auto intro: init_ok step_ok)

section \<open>Shutdown and the newest message id\<close>

text \<open>Once the server is closed, every registered stream is stopped.\<close>

definition closed_ok :: "server \<Rightarrow> bool" where
  "closed_ok s \<longleftrightarrow> (closed s \<longrightarrow> (\<forall>p\<in>set (registered s). stopped (heap s p)))"

lemma serves_closed_ok: "serves D s s' \<Longrightarrow> closed s' = closed s \<Longrightarrow> closed_ok s \<Longrightarrow> closed_ok s'"
  unfolding serves_def closed_ok_def by blast

lemma closed_stop [simp]: "closed (stop p s) = closed s"
  by (simp add: stop_def)

lemma closed_deregisterLocked [simp]: "closed (deregisterLocked p s) = closed s"
  by (simp add: deregisterLocked_def Let_def)

lemma closed_offerLocked [simp]: "closed (offerLocked p b s) = closed s"
  by (simp add: offerLocked_def offer_def)

lemma closed_fold: "(\<And>x s. closed (f x s) = closed s) \<Longrightarrow> closed (fold f xs s) = closed s"
  by (induction xs arbitrary: s) auto

lemma closed_raise [simp]: "closed (raiseLatestLocked u n s) = closed s"
  by (simp add: raiseLatestLocked_def)

lemma closed_simps [simp]:
  "closed (pingLocked time p s) = closed s" "closed (pingAll time s) = closed s"
  "closed (snd (servePing time u i s)) = closed s" "closed (deliver owner body j s) = closed s"
  "closed (learn_latest u n s) = closed s" "closed (receive p s) = closed s"
  by (auto simp: pingLocked_def pingAll_def servePing_def deliver_def Let_def learn_latest_def receive_def
      closed_fold split: option.split)

lemma stopped_fold: "p \<in> set ps \<or> stopped (heap s p) \<Longrightarrow> stopped (heap (fold stop ps s) p)"
  by (induction ps arbitrary: s) (auto simp: stop_def)

lemma registered_fold_stop: "registered (fold stop ps s) = registered s"
  by (induction ps arbitrary: s) (auto simp: stop_def)

lemma registered_closed: "registered (s\<lparr>closed := c\<rparr>) = registered s"
  by (simp add: registered_def)

lemma CloseStreams_closed_ok: "closed_ok (CloseStreams s)"
  unfolding closed_ok_def CloseStreams_def registered_fold_stop by (simp add: registered_closed stopped_fold)

lemma open_closed_ok:
  assumes "system_ok y" "phase y p = Unused" "\<forall>q. phase y q \<noteq> Unused \<longrightarrow> sid (stream_of y q) \<noteq> i" "closed_ok (srv y)"
  shows "closed_ok (open_stream p (new_stream i u rem ag now) (srv y))"
proof -
  note D = system_okD [OF assms(1)]
  have unreg: "p \<notin> set (registered (srv y))" using registered_used [OF assms(1), of p] assms(2) by blast
  let ?st = "(new_stream i u rem ag now)\<lparr>stopped := closed (srv y)\<rparr>"
  let ?s = "(srv y)\<lparr>heap := (heap (srv y))(p := ?st)\<rparr>"
  have s: "open_stream p (new_stream i u rem ag now) (srv y) =
      ?s\<lparr>streams := put_key u (put_key i p (user_streams ?s u)) (streams ?s)\<rparr>"
    by (auto simp: open_stream_def register_def stop_def Let_def new_stream_def user_streams_def)
  have "sid (heap ?s q) \<noteq> i" if "q \<in> set (registered ?s)" for q
    using that assms(3) registered_used [OF assms(1), of q] unreg by auto
  moreover have "registry_ok ?s" using new_heap_ok [OF D(1) unreg, of ?st] by (simp add: new_stream_def)
  ultimately have "set (registered (open_stream p (new_stream i u rem ag now) (srv y))) =
      insert p (set (registered (srv y)))"
    using registered_put_key [of ?s i u p] by (simp add: s)
  then show ?thesis using assms(4) by (auto simp: closed_ok_def s)
qed

lemma step_closed_ok:
  assumes "system_ok y" "closed_ok (srv y)" "step y y'"
  shows "closed_ok (srv y')"
  using assms(3)
proof (cases rule: step.cases)
  case (open_step p i u rem ag now)
  then show ?thesis using open_closed_ok [OF assms(1) _ _ assms(2)] by simp
next
  case (learn_step p n)
  then show ?thesis using serves_closed_ok [OF serves_learn _ assms(2)] by simp
next
  case (take_step p b rest ok)
  then show ?thesis using assms(2) by (auto simp: closed_ok_def receive_def registered_def)
next
  case (stop_step p)
  then show ?thesis using serves_closed_ok [OF serves_stop _ assms(2)] by simp
next
  case (close_step p)
  have "serves (\<lambda>_. []) (srv y) (deregister p (srv y))"
    unfolding deregister_def
    by (rule serves_deregister [OF system_okD(1,2) [OF assms(1)]]) (use close_step system_okD(4) [OF assms(1)] in auto)
  from serves_closed_ok [OF this _ assms(2)] close_step show ?thesis by (simp add: deregister_def)
next
  case (ping_all_step time)
  then show ?thesis
    using serves_closed_ok [OF serves_pingAll [OF system_okD(1,2) [OF assms(1)]] _ assms(2)] by simp
next
  case (ping_step time u i)
  then show ?thesis
    using serves_closed_ok [OF serves_servePing [OF system_okD(1,2) [OF assms(1)]] _ assms(2)] by simp
next
  case (deliver_step owner body i)
  then show ?thesis
    using serves_closed_ok [OF serves_deliver [OF system_okD(1,2) [OF assms(1)]] _ assms(2)] by simp
next
  case shutdown_step
  then show ?thesis using CloseStreams_closed_ok by simp
qed (use assms(2) in simp_all)

lemma reachable_closed_ok: "reachable_from (init h) y \<Longrightarrow> closed_ok (srv y)"
proof (induction rule: reachable_from.induct)
  case reach_init
  show ?case by (simp add: closed_ok_def init_def)
next
  case (reach_step y y')
  then show ?case using step_closed_ok reachable_ok by blast
qed

text \<open>
  While a user has streams, the newest message id known for the user never falls.
\<close>

definition rising :: "server \<Rightarrow> server \<Rightarrow> bool" where
  "rising s s' \<longleftrightarrow> (\<forall>u m. latest s u = Some m \<longrightarrow> user_streams s' u \<noteq> [] \<longrightarrow> (\<exists>m'\<ge>m. latest s' u = Some m'))"

definition shrinks :: "server \<Rightarrow> server \<Rightarrow> bool" where
  "shrinks s s' \<longleftrightarrow> (\<forall>u. user_streams s u = [] \<longrightarrow> user_streams s' u = [])"

lemma rising_refl: "rising s s" "shrinks s s"
  by (simp_all add: rising_def shrinks_def)

lemma rising_trans: "rising s s' \<Longrightarrow> shrinks s' s'' \<Longrightarrow> rising s' s'' \<Longrightarrow> rising s s''"
  unfolding rising_def shrinks_def by (meson order_trans)

lemma shrinks_trans: "shrinks s s' \<Longrightarrow> shrinks s' s'' \<Longrightarrow> shrinks s s''"
  by (simp add: shrinks_def)

lemma rising_stop: "rising s (stop p s)" "shrinks s (stop p s)"
  by (simp_all add: rising_def shrinks_def stop_def user_streams_def)

lemma user_streams_deregister:
  "user_streams (deregisterLocked p s) u =
     (if u = suser (heap s p) then del_key (sid (heap s p)) (user_streams s u) else user_streams s u)"
  by (auto simp: deregisterLocked_def Let_def user_streams_def)

lemma rising_deregister: "rising s (deregisterLocked p s)" "shrinks s (deregisterLocked p s)"
  unfolding rising_def shrinks_def user_streams_deregister
  by (auto simp: deregisterLocked_def Let_def)
    (auto simp: del_key_def)

lemma rising_offerLocked: "rising s (offerLocked p b s)" "shrinks s (offerLocked p b s)"
proof -
  have "rising s (snd (offer p b s)) \<and> shrinks s (snd (offer p b s))"
    by (auto simp: offer_def rising_refl rising_stop) (simp_all add: rising_def shrinks_def user_streams_def)
  then show "rising s (offerLocked p b s)" "shrinks s (offerLocked p b s)"
    using rising_deregister rising_trans shrinks_trans by (auto simp: offerLocked_def split: prod.split)
qed

lemma rising_fold:
  "(\<And>x s. rising s (f x s) \<and> shrinks s (f x s)) \<Longrightarrow> rising s (fold f xs s) \<and> shrinks s (fold f xs s)"
proof (induction xs arbitrary: s)
  case (Cons x xs)
  have "rising (f x s) (fold f xs (f x s)) \<and> shrinks (f x s) (fold f xs (f x s))" by (rule Cons.IH) (rule Cons.prems)
  with Cons.prems [of s x] show ?case using rising_trans shrinks_trans by auto
qed (simp add: rising_refl)

lemma rising_raise: "rising s (raiseLatestLocked u n s)" "shrinks s (raiseLatestLocked u n s)"
  by (auto simp: rising_def shrinks_def raiseLatestLocked_def latest_of_def user_streams_def)

lemma rising_pingLocked: "rising s (pingLocked time p s)" "shrinks s (pingLocked time p s)"
  unfolding pingLocked_def by (rule rising_offerLocked)+

lemma rising_deliver: "rising s (deliver owner body i s)"
proof -
  let ?t = "case ParseInt i of Some n \<Rightarrow> if user_streams s owner \<noteq> [] then raiseLatestLocked owner n s else s | None \<Rightarrow> s"
  have "rising s ?t" by (auto simp: rising_raise rising_refl split: option.split)
  moreover have "rising ?t (deliver owner body i s) \<and> shrinks ?t (deliver owner body i s)"
    unfolding deliver_def Let_def by (rule rising_fold) (simp add: rising_offerLocked)
  ultimately show ?thesis using rising_trans by blast
qed

lemma rising_register: "latest (register p s) = latest s"
  by (simp add: register_def Let_def stop_def)

lemma step_rising:
  assumes "step y y'"
  shows "rising (srv y) (srv y')"
  using assms
proof (cases rule: step.cases)
  case (open_step p i u rem ag now)
  then show ?thesis by (simp add: rising_def open_stream_def rising_register)
next
  case (learn_step p n)
  then show ?thesis by (simp add: learn_latest_def rising_raise rising_refl)
next
  case (take_step p b rest ok)
  then show ?thesis by (simp add: rising_def receive_def)
next
  case (ping_all_step time)
  then show ?thesis using rising_fold [of "pingLocked time"] rising_pingLocked by (simp add: pingAll_def)
next
  case (ping_step time u i)
  then show ?thesis by (simp add: servePing_def rising_pingLocked rising_refl split: option.split)
next
  case shutdown_step
  have "rising ((srv y)\<lparr>closed := True\<rparr>) (CloseStreams (srv y))"
    unfolding CloseStreams_def using rising_fold [of stop] rising_stop by blast
  then show ?thesis using shutdown_step by (simp add: rising_def)
qed (simp_all add: rising_refl rising_stop rising_deregister deregister_def rising_deliver)

text \<open>And a delivered message's id is reached by it.\<close>

lemma deliver_latest:
  assumes "ParseInt i = Some n" "n > 0" "user_streams (deliver owner body i s) owner \<noteq> []"
  shows "n \<le> latest_of (deliver owner body i s) owner"
proof -
  let ?t = "case ParseInt i of Some n \<Rightarrow> if user_streams s owner \<noteq> [] then raiseLatestLocked owner n s else s | None \<Rightarrow> s"
  have f: "rising ?t (deliver owner body i s) \<and> shrinks ?t (deliver owner body i s)"
    unfolding deliver_def Let_def by (rule rising_fold) (simp add: rising_offerLocked)
  have "user_streams s owner \<noteq> []"
    using f assms(3) by (auto simp: shrinks_def assms(1))
  then have "\<exists>m\<ge>n. latest ?t owner = Some m"
    using assms(2) by (auto simp: assms(1) raiseLatestLocked_def latest_of_def split: option.splits)
  then obtain m m' where "m \<ge> n" "m' \<ge> m" "latest (deliver owner body i s) owner = Some m'"
    using f assms(3) unfolding rising_def by meson
  then show ?thesis by (simp add: latest_of_def)
qed

section \<open>A concrete run\<close>

text \<open>Two users' streams, a message for the first, taken by its handler, and shutdown.\<close>

definition demo_stream :: "string \<Rightarrow> string \<Rightarrow> stream" where
  "demo_stream i u = new_stream i u ''10.0.0.1'' None 1700000000"

definition opened :: "ptr \<Rightarrow> string \<Rightarrow> string \<Rightarrow> system \<Rightarrow> system" where
  "opened p i u y = y\<lparr>srv := open_stream p (demo_stream i u) (srv y), phase := (phase y)(p := Opening), hist := Opened p u # hist y\<rparr>"

definition two_streams :: system where
  "two_streams = opened 1 ''s1'' ''bob'' (opened 0 ''s0'' ''alice'' (init (\<lambda>_. demo_stream '''' '''')))"

definition after_message :: system where
  "after_message = two_streams\<lparr>srv := deliver ''alice'' ''{}'' ''7'' (srv two_streams),
     hist := Delivered ''alice'' ''{}'' ''7'' # hist two_streams\<rparr>"

definition after_shutdown :: system where
  "after_shutdown = after_message\<lparr>srv := CloseStreams (srv after_message)\<rparr>"

lemma two_streams_reachable: "reachable_from (init (\<lambda>_. demo_stream '''' '''')) two_streams"
proof -
  let ?y0 = "init (\<lambda>_. demo_stream '''' '''')" and ?y1 = "opened 0 ''s0'' ''alice'' (init (\<lambda>_. demo_stream '''' ''''))"
  have "step ?y0 ?y1"
    unfolding opened_def demo_stream_def by (rule open_step) (simp_all add: init_def)
  moreover have "step ?y1 two_streams"
    unfolding two_streams_def opened_def [of 1] demo_stream_def [of "''s1''"]
    by (rule open_step)
      (simp_all add: opened_def init_def open_stream_def register_def demo_stream_def new_stream_def stop_def Let_def)
  ultimately show ?thesis by (meson reach_init reach_step)
qed

lemma after_message_step: "step two_streams after_message"
  unfolding after_message_def by (rule deliver_step)

lemma after_message_reachable: "reachable_from (init (\<lambda>_. demo_stream '''' '''')) after_message"
  using two_streams_reachable after_message_step by (rule reach_step)

lemma after_shutdown_reachable: "reachable_from (init (\<lambda>_. demo_stream '''' '''')) after_shutdown"
  unfolding after_shutdown_def by (rule reach_step [OF after_message_reachable shutdown_step])

section \<open>Properties\<close>

text \<open>
  C6. In every state the process reaches, however the handlers, pings, messages and shutdown
  interleave, the registry is well formed: users and stream ids are distinct, no user has an
  empty map, every stream is under its own user and id, the newest message ids kept are those of
  users with streams, and no stream's buffer holds more than 1024 events.
\<close>

theorem registry_invariant:
  assumes "reachable_from (init h) y"
  shows "distinct (map fst (streams (srv y))) \<and>
    (\<forall>(u, m)\<in>set (streams (srv y)). m \<noteq> [] \<and> distinct (map fst m) \<and>
      (\<forall>(i, p)\<in>set m. suser (heap (srv y) p) = u \<and> sid (heap (srv y) p) = i)) \<and>
    dom (latest (srv y)) \<subseteq> fst ` set (streams (srv y)) \<and> (\<forall>p. length (outq (heap (srv y) p)) \<le> 1024)"
  using system_okD(1) [OF reachable_ok [OF assms]]
  by (auto simp: registry_ok_def entry_ok_def bufferSize_def)

theorem registry_invariant_witness:
  "distinct (map fst (streams (srv after_message))) \<and> dom (latest (srv after_message)) \<subseteq> {''alice'', ''bob''}"
proof -
  have "fst ` set (streams (srv after_message)) = {''alice'', ''bob''}" by code_simp
  then show ?thesis using registry_invariant [OF after_message_reachable] by simp
qed

text \<open>
  C4. While a stream's handler has not left its loop and the stream has not been stopped, the
  messages its handler has received and those still in its buffer are, in order and without
  one missing or doubled, the messages delivered for its user since it was opened.
\<close>

theorem stream_gets_every_message:
  assumes "reachable_from (init h) y" "live (phase y p)" "\<not> stopped (heap (srv y) p)"
  shows "irc (taken y p @ outq (heap (srv y) p)) = since p (suser (heap (srv y) p)) (hist y)"
  using system_okD(5,6) [OF reachable_ok [OF assms(1)]] assms(2,3) by blast

theorem stream_gets_every_message_witness:
  "irc (taken after_message 0 @ outq (heap (srv after_message) 0)) = [sseEvent ''irc'' ''{}'' ''7'']"
proof -
  have "live (phase after_message 0)" "\<not> stopped (heap (srv after_message) 0)"
    "since 0 (suser (heap (srv after_message) 0)) (hist after_message) = [sseEvent ''irc'' ''{}'' ''7'']"
    by code_simp+
  then show ?thesis using stream_gets_every_message [OF after_message_reachable, of 0] by simp
qed

text \<open>
  C5. A stream is never handed a message of another user: every message its handler received or
  its buffer holds was delivered for the user the stream was opened for.
\<close>

theorem stream_isolation:
  assumes "reachable_from (init h) y" "phase y p \<noteq> Unused"
    "b \<in> set (taken y p @ outq (heap (srv y) p))" "is_irc b"
  shows "\<exists>body i. b = sseEvent ''irc'' body i \<and> Delivered (suser (heap (srv y) p)) body i \<in> set (hist y)"
proof -
  have "b \<in> delivered_to (suser (heap (srv y) p)) (hist y)"
    using system_okD(7) [OF reachable_ok [OF assms(1)] assms(2)] assms(3,4) by auto
  then show ?thesis by (auto simp: delivered_to_def)
qed

theorem stream_isolation_witness:
  "\<exists>body i. sseEvent ''irc'' ''{}'' ''7'' = sseEvent ''irc'' body i \<and> Delivered ''alice'' body i \<in> set (hist after_message)"
proof -
  have a: "phase after_message 0 \<noteq> Unused" "suser (heap (srv after_message) 0) = ''alice''"
    "sseEvent ''irc'' ''{}'' ''7'' \<in> set (taken after_message 0 @ outq (heap (srv after_message) 0))"
    by code_simp+
  show ?thesis using stream_isolation [OF after_message_reachable a(1,3)] unfolding a(2) by simp
qed

lemma stop_others [simp]: "q \<noteq> p \<Longrightarrow> heap (stop p s) q = heap s q"
  by (simp add: stop_def)

lemma suser_stop [simp]: "suser (heap (stop p s) q) = suser (heap s q)" "sid (heap (stop p s) q) = sid (heap s q)"
  by (simp_all add: stop_def)

lemma deregister_removes:
  assumes "registry_ok s"
  shows "p \<notin> set (registered (deregisterLocked p s))"
proof
  assume "p \<in> set (registered (deregisterLocked p s))"
  then have "(sid (heap s p), p) \<in> set (user_streams (deregisterLocked p s) (suser (heap s p)))"
    using registered_iff [OF deregisterLocked_ok [OF assms, of p], of p] by simp
  then show False by (simp add: user_streams_deregister set_del_key)
qed

text \<open>
  C7. A slow client never holds anyone up: offering an event to a registered stream whose buffer
  is full stops that stream and takes it out of the registry at once, and every other stream
  keeps its buffer, its state and its place in the registry.
\<close>

theorem slow_client_dropped:
  assumes "reachable_from (init h) y" "p \<in> set (registered (srv y))" "\<not> stopped (heap (srv y) p)"
    "length (outq (heap (srv y) p)) = 1024"
  shows "stopped (heap (offerLocked p b (srv y)) p) \<and> p \<notin> set (registered (offerLocked p b (srv y))) \<and>
    (\<forall>q. q \<noteq> p \<longrightarrow> heap (offerLocked p b (srv y)) q = heap (srv y) q \<and>
      (q \<in> set (registered (offerLocked p b (srv y))) \<longleftrightarrow> q \<in> set (registered (srv y))))"
proof -
  note D = system_okD [OF reachable_ok [OF assms(1)]]
  let ?s = "stop p (srv y)" and ?U = "{q. phase y q \<noteq> Unused}"
  have o: "offerLocked p b (srv y) = deregisterLocked p ?s"
    using assms(3,4) by (simp add: offerLocked_def offer_def bufferSize_def)
  have ok: "registry_ok ?s" and U: "in_use ?U ?s" "p \<in> ?U"
    using stop_ok [OF D(1)] serves_in_use [OF serves_stop D(2)] assms(2) D(2) by (auto simp: in_use_def)
  have reg: "registered ?s = registered (srv y)" by (simp add: stop_def)
  have "(q \<in> set (registered (deregisterLocked p ?s))) = (q \<in> set (registered (srv y)))" if "q \<noteq> p" for q
    using registered_kept [OF ok U, of q] registered_deregisterLocked [OF ok, of p] that unfolding reg by blast
  then show ?thesis using deregister_removes [OF ok] unfolding o by simp
qed

text \<open>A run in which a client reads nothing until its buffer is full.\<close>

definition flooded :: "nat \<Rightarrow> system" where
  "flooded n = ((\<lambda>y. y\<lparr>srv := deliver ''alice'' ''{}'' '''' (srv y), hist := Delivered ''alice'' ''{}'' '''' # hist y\<rparr>) ^^ n) two_streams"

lemma flooded_reachable: "reachable_from (init (\<lambda>_. demo_stream '''' '''')) (flooded n)"
  by (induction n) (auto simp: flooded_def two_streams_reachable intro: reach_step deliver_step)

lemma flooded_srv:
  "n \<le> 1024 \<Longrightarrow> srv (flooded n) = (srv two_streams)\<lparr>heap := (heap (srv two_streams))(0 :=
     (heap (srv two_streams) 0)\<lparr>outq := replicate n (sseEvent ''irc'' ''{}'' '''')\<rparr>)\<rparr>"
proof (induction n)
  case 0
  have "outq (heap (srv two_streams) 0) = []" by code_simp
  then have "heap (srv two_streams) = (heap (srv two_streams))(0 := (heap (srv two_streams) 0)\<lparr>outq := []\<rparr>)"
    by (simp add: fun_eq_iff)
  then show ?case by (simp add: flooded_def)
next
  case (Suc n)
  have u: "user_streams (srv two_streams) ''alice'' = [(''s0'', 0)]" by code_simp
  have st: "\<not> stopped (heap (srv two_streams) 0)" by code_simp
  let ?s = "srv (flooded n)"
  have "user_streams ?s ''alice'' = [(''s0'', 0)]" using u Suc by (simp add: user_streams_def)
  moreover have "ParseInt '''' = None" by (simp add: ParseInt_def digits_value_def)
  ultimately have "srv (flooded (Suc n)) = offerLocked 0 (sseEvent ''irc'' ''{}'' '''') ?s"
    by (simp add: flooded_def deliver_def)
  then show ?case using Suc st
    by (simp add: offerLocked_def offer_def bufferSize_def replicate_append_same fun_upd_def cong: if_cong)
qed

theorem slow_client_dropped_witness:
  "0 \<notin> set (registered (offerLocked 0 ''ping'' (srv (flooded 1024)))) \<and>
   1 \<in> set (registered (offerLocked 0 ''ping'' (srv (flooded 1024))))"
proof -
  have a: "0 \<in> set (registered (srv two_streams))" "1 \<in> set (registered (srv two_streams))"
    "\<not> stopped (heap (srv two_streams) 0)" by code_simp+
  have "0 \<in> set (registered (srv (flooded 1024)))" "1 \<in> set (registered (srv (flooded 1024)))"
    "\<not> stopped (heap (srv (flooded 1024)) 0)" "length (outq (heap (srv (flooded 1024)) 0)) = 1024"
    using a by (simp_all add: flooded_srv)
  then show ?thesis using slow_client_dropped [OF flooded_reachable, of 0 1024 "''ping''"] by simp
qed

text \<open>
  C8. Once \<^verbatim>\<open>CloseStreams\<close> has run, in every later state each handler still at work has its
  stream stopped, those opened afterwards included, so no stream holds up shutdown.
\<close>

theorem shutdown_stops_streams:
  assumes "reachable_from (init h) y" "closed (srv y)" "phase y p \<in> {Opening, Querying, Greeting, Serving, Leaving}"
  shows "stopped (heap (srv y) p)"
proof (rule ccontr)
  assume "\<not> stopped (heap (srv y) p)"
  moreover from this have "p \<in> set (registered (srv y))"
    using system_okD(5) [OF reachable_ok [OF assms(1)], of p] assms(3) by (auto simp: live_def)
  ultimately show False using reachable_closed_ok [OF assms(1)] assms(2) by (simp add: closed_ok_def)
qed

theorem shutdown_stops_streams_witness:
  "stopped (heap (srv after_shutdown) 0) \<and> stopped (heap (srv after_shutdown) 1)"
proof -
  have "closed (srv after_shutdown)" "phase after_shutdown 0 = Opening" "phase after_shutdown 1 = Opening" by code_simp+
  then show ?thesis
    using shutdown_stops_streams [OF after_shutdown_reachable, of 0] shutdown_stops_streams [OF after_shutdown_reachable, of 1]
    by simp
qed

text \<open>
  C9. While a user has streams, the newest message id that pings tell its clients never falls,
  and once a message with a numeric id has been delivered it is at least that id.
\<close>

theorem latest_never_falls:
  assumes "step y y'" "latest (srv y) u = Some m" "user_streams (srv y') u \<noteq> []"
  shows "(\<exists>m'\<ge>m. latest (srv y') u = Some m') \<and>
    (\<forall>body i n. ParseInt i = Some n \<longrightarrow> n > 0 \<longrightarrow> user_streams (deliver u body i (srv y')) u \<noteq> [] \<longrightarrow>
      n \<le> latest_of (deliver u body i (srv y')) u)"
  using step_rising [OF assms(1)] assms(2,3) deliver_latest unfolding rising_def by blast

theorem latest_never_falls_witness:
  "\<exists>m'\<ge>7. latest (deliver ''alice'' ''x'' ''5'' (srv after_message)) ''alice'' = Some m'"
proof -
  let ?y = "after_message\<lparr>srv := deliver ''alice'' ''x'' ''5'' (srv after_message), hist := Delivered ''alice'' ''x'' ''5'' # hist after_message\<rparr>"
  have "step after_message ?y" by (rule deliver_step)
  moreover have "latest (srv after_message) ''alice'' = Some 7" by code_simp
  moreover have "user_streams (srv ?y) ''alice'' \<noteq> []" by code_simp
  ultimately show ?thesis using latest_never_falls [of after_message ?y "''alice''" 7] by simp
qed

end
