(* ===== verification/Json.thy ===== *)
theory Json
  imports Utf8 "HOL-Library.List_Lexorder" "HOL-Library.Char_ord"
begin

text \<open>
  Go's \<^verbatim>\<open>encoding/json\<close> as the program uses it: decoding into \<^verbatim>\<open>any\<close> with numbers kept as
  written (\<^verbatim>\<open>UseNumber\<close>), the raw text of an object's members (\<^verbatim>\<open>json.RawMessage\<close>), and encoding
  without HTML escapes. An object is the list of its members with the keys in order, each
  once, which is how Go encodes a map. The parser takes fuel; more than twice the length of its
  input is enough, and then more changes nothing (\<open>parse_fuel\<close>). The main theorem is
  that a value that was encoded is decoded again.
\<close>

section \<open>Values\<close>

datatype json =
    JNull
  | JBool bool
  | JNumber string
  | JString string
  | JArray "json list"
  | JObject "(string \<times> json) list"

text \<open>Setting a key of a map kept as a list in key order.\<close>

fun put_member :: "string \<Rightarrow> 'v \<Rightarrow> (string \<times> 'v) list \<Rightarrow> (string \<times> 'v) list" where
  "put_member k v [] = [(k, v)]"
| "put_member k v (e # es) =
     (if k < fst e then (k, v) # e # es
      else if k = fst e then (k, v) # es
      else e # put_member k v es)"

definition members :: "(string \<times> 'v) list \<Rightarrow> (string \<times> 'v) list" where
  "members es = fold (\<lambda>(k, v). put_member k v) es []"

section \<open>Decoding\<close>

definition is_ws :: "char \<Rightarrow> bool" where
  "is_ws c \<longleftrightarrow> c \<in> {CHR 0x20, CHR 0x09, CHR 0x0D, CHR 0x0A}"

definition skip_ws :: "string \<Rightarrow> string" where
  "skip_ws s = dropWhile is_ws s"

definition quote_char :: char where
  "quote_char = CHR 0x22"

definition backslash :: char where
  "backslash = CHR 0x5C"

subsection \<open>Strings\<close>

definition hex4_digit :: "char \<Rightarrow> nat option" where
  "hex4_digit c = (let n = byte c in
     if 48 \<le> n \<and> n \<le> 57 then Some (n - 48)
     else if 97 \<le> n \<and> n \<le> 102 then Some (n - 87)
     else if 65 \<le> n \<and> n \<le> 70 then Some (n - 55)
     else None)"

text \<open>Four hexadecimal digits (\<^verbatim>\<open>getu4\<close>, after the \<^verbatim>\<open>\u\<close>).\<close>

fun hex4 :: "string \<Rightarrow> nat option" where
  "hex4 (a # b # c # d # _) =
     (case (hex4_digit a, hex4_digit b, hex4_digit c, hex4_digit d) of
        (Some a, Some b, Some c, Some d) \<Rightarrow> Some (((a * 16 + b) * 16 + c) * 16 + d)
      | _ \<Rightarrow> None)"
| "hex4 _ = None"

text \<open>The second half of a surrogate pair at the start of \<open>s\<close>: the rune the pair encodes.\<close>

definition low_surrogate :: "rune \<Rightarrow> string \<Rightarrow> rune option" where
  "low_surrogate r s =
     (if r \<le> 0xDBFF \<and> has_prefix s [backslash, CHR ''u''] then
        (case hex4 (drop 2 s) of
           Some q \<Rightarrow> if 0xDC00 \<le> q \<and> q \<le> 0xDFFF then Some (0x10000 + (r - 0xD800) * 1024 + (q - 0xDC00)) else None
         | None \<Rightarrow> None)
      else None)"

definition unescape :: "char \<Rightarrow> char option" where
  "unescape c =
     (if c \<in> {quote_char, backslash, CHR ''/''} then Some c
      else if c = CHR ''b'' then Some (CHR 0x08)
      else if c = CHR ''f'' then Some (CHR 0x0C)
      else if c = CHR ''n'' then Some (CHR 0x0A)
      else if c = CHR ''r'' then Some (CHR 0x0D)
      else if c = CHR ''t'' then Some (CHR 0x09)
      else None)"

text \<open>A string after its opening quote: what it stands for and what follows the closing quote.\<close>

definition emit :: "string \<Rightarrow> (string \<times> string) option \<Rightarrow> (string \<times> string) option" where
  "emit s = map_option (\<lambda>(t, r). (s @ t, r))"

function unquote :: "string \<Rightarrow> (string \<times> string) option" where
  "unquote [] = None"
| "unquote (c # s) =
     (if c = quote_char then Some ('''', s)
      else if c = backslash then
        (case s of
           [] \<Rightarrow> None
         | e # t \<Rightarrow>
             if e = CHR ''u'' then
               (case hex4 t of
                  None \<Rightarrow> None
                | Some r \<Rightarrow>
                    if surrogate r then
                      (case low_surrogate r (drop 4 t) of
                         Some q \<Rightarrow> emit (encode_rune q) (unquote (drop 10 t))
                       | None \<Rightarrow> emit (encode_rune rune_error) (unquote (drop 4 t)))
                    else emit (encode_rune r) (unquote (drop 4 t)))
             else (case unescape e of
                 None \<Rightarrow> None
               | Some x \<Rightarrow> emit [x] (unquote t)))
      else if byte c < 32 then None
      else if byte c < 128 then emit [c] (unquote s)
      else (case decode_rune (c # s) of (r, n) \<Rightarrow> emit (encode_rune r) (unquote (drop n (c # s)))))"
  by pat_completeness auto
termination
  by (relation "measure length") (auto dest: decode_rune_width [rotated, OF sym])

subsection \<open>Numbers\<close>

definition is_digit :: "char \<Rightarrow> bool" where
  "is_digit c \<longleftrightarrow> 48 \<le> byte c \<and> byte c \<le> 57"

fun number_int :: "string \<Rightarrow> (string \<times> string) option" where
  "number_int [] = None"
| "number_int (c # s) =
     (if c = CHR ''0'' then Some ([c], s)
      else if is_digit c then Some (c # takeWhile is_digit s, dropWhile is_digit s)
      else None)"

text \<open>At least one digit.\<close>

fun some_digits :: "string \<Rightarrow> (string \<times> string) option" where
  "some_digits [] = None"
| "some_digits (c # s) = (if is_digit c then Some (c # takeWhile is_digit s, dropWhile is_digit s) else None)"

fun number_frac :: "string \<Rightarrow> (string \<times> string) option" where
  "number_frac [] = Some ('''', [])"
| "number_frac (c # s) = (if c = CHR ''.'' then emit [c] (some_digits s) else Some ('''', c # s))"

fun optional_sign :: "string \<Rightarrow> (string \<times> string) option" where
  "optional_sign [] = None"
| "optional_sign (c # s) = (if c = CHR ''+'' \<or> c = CHR ''-'' then emit [c] (some_digits s) else some_digits (c # s))"

fun number_exp :: "string \<Rightarrow> (string \<times> string) option" where
  "number_exp [] = Some ('''', [])"
| "number_exp (c # s) = (if c = CHR ''e'' \<or> c = CHR ''E'' then emit [c] (optional_sign s) else Some ('''', c # s))"

definition unsigned_number :: "string \<Rightarrow> (string \<times> string) option" where
  "unsigned_number s = (case number_int s of None \<Rightarrow> None
     | Some (i, s) \<Rightarrow> (case number_frac s of None \<Rightarrow> None
     | Some (f, s) \<Rightarrow> emit (i @ f) (number_exp s)))"

fun number :: "string \<Rightarrow> (string \<times> string) option" where
  "number [] = None"
| "number (c # s) = (if c = CHR ''-'' then emit [c] (unsigned_number s) else unsigned_number (c # s))"

subsection \<open>Values\<close>

text \<open>\<^verbatim>\<open>maxNestingDepth\<close>.\<close>

definition max_depth :: nat where
  "max_depth = 10000"

definition expect :: "string \<Rightarrow> json \<Rightarrow> string \<Rightarrow> (json \<times> string) option" where
  "expect w v s = (if has_prefix s w then Some (v, drop (length w) s) else None)"

text \<open>
  \<open>parse_value n d s\<close>: the value at the start of \<open>s\<close>, \<open>d\<close> arrays and objects deep, and what
  follows it; \<open>n\<close> is the fuel.
\<close>

fun parse_value :: "nat \<Rightarrow> nat \<Rightarrow> string \<Rightarrow> (json \<times> string) option"
and parse_elements :: "nat \<Rightarrow> nat \<Rightarrow> string \<Rightarrow> (json list \<times> string) option"
and parse_members :: "nat \<Rightarrow> nat \<Rightarrow> string \<Rightarrow> ((string \<times> json) list \<times> string) option" where
  "parse_value 0 d s = None"
| "parse_value (Suc n) d s =
     (case skip_ws s of
        [] \<Rightarrow> None
      | c # r \<Rightarrow>
          if c = CHR ''{'' then
            (if d \<ge> max_depth then None
             else (case skip_ws r of
                 [] \<Rightarrow> None
               | e # t \<Rightarrow> if e = CHR ''}'' then Some (JObject [], t)
                   else map_option (\<lambda>(ms, t). (JObject (members ms), t)) (parse_members n (Suc d) r)))
          else if c = CHR ''['' then
            (if d \<ge> max_depth then None
             else (case skip_ws r of
                 [] \<Rightarrow> None
               | e # t \<Rightarrow> if e = CHR '']'' then Some (JArray [], t)
                   else map_option (\<lambda>(vs, t). (JArray vs, t)) (parse_elements n (Suc d) r)))
          else if c = quote_char then map_option (\<lambda>(t, r). (JString t, r)) (unquote r)
          else if c = CHR ''t'' then expect ''true'' (JBool True) (c # r)
          else if c = CHR ''f'' then expect ''false'' (JBool False) (c # r)
          else if c = CHR ''n'' then expect ''null'' JNull (c # r)
          else map_option (\<lambda>(l, r). (JNumber l, r)) (number (c # r)))"
| "parse_elements 0 d s = None"
| "parse_elements (Suc n) d s =
     (case parse_value n d s of
        None \<Rightarrow> None
      | Some (v, r) \<Rightarrow>
          (case skip_ws r of
             [] \<Rightarrow> None
           | c # t \<Rightarrow>
               if c = CHR '']'' then Some ([v], t)
               else if c = CHR '','' then map_option (\<lambda>(vs, t). (v # vs, t)) (parse_elements n d t)
               else None))"
| "parse_members 0 d s = None"
| "parse_members (Suc n) d s =
     (case skip_ws s of
        [] \<Rightarrow> None
      | c # r \<Rightarrow>
          if c \<noteq> quote_char then None
          else (case unquote r of
              None \<Rightarrow> None
            | Some (k, r) \<Rightarrow>
                (case skip_ws r of
                   [] \<Rightarrow> None
                 | c # r \<Rightarrow>
                     if c \<noteq> CHR '':'' then None
                     else (case parse_value n d r of
                         None \<Rightarrow> None
                       | Some (v, r) \<Rightarrow>
                           (case skip_ws r of
                              [] \<Rightarrow> None
                            | c # t \<Rightarrow>
                                if c = CHR ''}'' then Some ([(k, v)], t)
                                else if c = CHR '','' then map_option (\<lambda>(ms, t). ((k, v) # ms, t)) (parse_members n d t)
                                else None)))))"

definition parse :: "string \<Rightarrow> (json \<times> string) option" where
  "parse s = parse_value (2 * length s + 1) 0 s"

text \<open>
  \<^verbatim>\<open>Decoder.Decode\<close> reads the first value and leaves what follows it; \<^verbatim>\<open>json.Unmarshal\<close> wants
  only white space after it. \<open>None\<close> is an error.
\<close>

definition decode_first :: "string \<Rightarrow> json option" where
  "decode_first s = map_option fst (parse s)"

definition decode_all :: "string \<Rightarrow> json option" where
  "decode_all s = (case parse s of Some (v, r) \<Rightarrow> if skip_ws r = '''' then Some v else None | None \<Rightarrow> None)"

section \<open>Encoding\<close>

definition hex_lower :: "nat \<Rightarrow> char" where
  "hex_lower n = ''0123456789abcdef'' ! n"

definition hex4_digits :: "nat \<Rightarrow> string" where
  "hex4_digits r = map hex_lower [r div 4096 mod 16, r div 256 mod 16, r div 16 mod 16, r mod 16]"

definition unicode_escape :: "nat \<Rightarrow> string" where
  "unicode_escape r = [backslash, CHR ''u''] @ hex4_digits r"

definition escape_rune :: "rune \<times> nat \<Rightarrow> string" where
  "escape_rune p =
     (let r = fst p in
      if p = bad then unicode_escape rune_error
      else if r = 0x22 then [backslash, quote_char]
      else if r = 0x5C then [backslash, backslash]
      else if r = 0x08 then [backslash, CHR ''b'']
      else if r = 0x0C then [backslash, CHR ''f'']
      else if r = 0x0A then [backslash, CHR ''n'']
      else if r = 0x0D then [backslash, CHR ''r'']
      else if r = 0x09 then [backslash, CHR ''t'']
      else if r < 0x20 \<or> r = 0x2028 \<or> r = 0x2029 then unicode_escape r
      else encode_rune r)"

definition print_string :: "string \<Rightarrow> string" where
  "print_string s = quote_char # concat (map escape_rune (scan_runes s)) @ [quote_char]"

fun print_json :: "json \<Rightarrow> string" where
  "print_json JNull = ''null''"
| "print_json (JBool b) = (if b then ''true'' else ''false'')"
| "print_json (JNumber l) = l"
| "print_json (JString s) = print_string s"
| "print_json (JArray vs) = CHR ''['' # join '','' (map print_json vs) @ '']''"
| "print_json (JObject es) =
     CHR ''{'' # join '','' (map (\<lambda>e. print_string (fst e) @ CHR '':'' # print_json (snd e)) es) @ ''}''"

section \<open>What the parser consumes, and its fuel\<close>

lemma emit_Some [simp]: "emit s x = Some (t, r) \<longleftrightarrow> (\<exists>u. t = s @ u \<and> x = Some (u, r))"
  by (auto simp: emit_def)

lemma emit_simp [simp]: "emit s (Some (t, r)) = Some (s @ t, r)"
  by (simp add: emit_def)

lemma length_skip_ws: "length (skip_ws s) \<le> length s"
  by (simp add: skip_ws_def length_dropWhile_le)

lemma unquote_consumes: "unquote s = Some (t, r) \<Longrightarrow> length r < length s"
proof (induction s arbitrary: t r rule: unquote.induct)
  case (2 c s)
  show ?case
  proof (cases "c = quote_char \<or> c = backslash \<or> byte c < 32 \<or> byte c < 128")
    case True
    then show ?thesis using 2
      by (fastforce split: if_splits list.splits option.splits)
  next
    case False
    obtain q n where d: "decode_rune (c # s) = (q, n)" by fastforce
    then have n: "1 \<le> n" using decode_rune_width [of "c # s" q n] by simp
    from False d 2(7) obtain u where "unquote (drop n (c # s)) = Some (u, r)"
      by (auto split: if_splits)
    with 2(6) False d n have "length r < length (drop n (c # s))" by auto
    with n show ?thesis by simp
  qed
qed simp

lemma takeWhile_dropWhile_id' [simp]: "takeWhile P s @ dropWhile P s = s"
  by (rule takeWhile_dropWhile_id)

lemma some_digits_split: "some_digits s = Some (l, r) \<Longrightarrow> s = l @ r \<and> l \<noteq> []"
  by (cases s) (auto split: if_splits)

lemma number_split:
  "number_int s = Some (l, r) \<Longrightarrow> s = l @ r \<and> l \<noteq> []"
  "number_frac s = Some (l, r) \<Longrightarrow> s = l @ r"
  "optional_sign s = Some (l, r) \<Longrightarrow> s = l @ r"
  "number_exp s = Some (l, r) \<Longrightarrow> s = l @ r"
proof -
  show "number_int s = Some (l, r) \<Longrightarrow> s = l @ r \<and> l \<noteq> []" by (cases s) (auto split: if_splits)
  show "number_frac s = Some (l, r) \<Longrightarrow> s = l @ r"
    by (cases s) (auto split: if_splits dest: some_digits_split)
  show sign: "optional_sign s = Some (l, r) \<Longrightarrow> s = l @ r" for s l r
    by (cases s) (auto split: if_splits dest: some_digits_split simp del: some_digits.simps)
  show "number_exp s = Some (l, r) \<Longrightarrow> s = l @ r"
    by (cases s) (auto split: if_splits dest: sign simp del: optional_sign.simps)
qed

lemma unsigned_number_split: "unsigned_number s = Some (l, r) \<Longrightarrow> s = l @ r \<and> l \<noteq> []"
  by (auto simp: unsigned_number_def split: option.splits dest!: number_split)

lemma number_consumes: "number s = Some (l, r) \<Longrightarrow> s = l @ r \<and> l \<noteq> []"
  by (cases s) (auto split: if_splits dest!: unsigned_number_split)

lemma number_length: "number s = Some (l, r) \<Longrightarrow> length r < length s"
  by (auto dest!: number_consumes)

lemma expect_consumes: "expect w v s = Some (u, r) \<Longrightarrow> w \<noteq> [] \<Longrightarrow> s \<noteq> [] \<Longrightarrow> length r < length s"
  by (auto simp: expect_def split: if_splits)

lemma skip_ws_Cons: "skip_ws s = c # r \<Longrightarrow> length r < length s"
  using length_skip_ws [of s] by simp

lemma parse_consumes:
  "parse_value n d s = Some (v, r) \<Longrightarrow> length r < length s"
  "parse_elements n d s = Some (vs, r) \<Longrightarrow> length r < length s"
  "parse_members n d s = Some (ms, r) \<Longrightarrow> length r < length s"
proof (induction n d s and n d s and n d s arbitrary: v r and vs r and ms r
    rule: parse_value_parse_elements_parse_members.induct)
  case (2 n d s)
  obtain c t where s: "skip_ws s = c # t" using 2(3) by (auto split: list.splits)
  have l: "length t < length s" by (rule skip_ws_Cons [OF s])
  have inner: "length r < length t" if "skip_ws t = e # u" "r = u" for e u
    using skip_ws_Cons [OF that(1)] that(2) by simp
  show ?case
    using 2 l s inner
    by (auto split: list.splits if_splits simp del: number.simps
        dest!: unquote_consumes number_length expect_consumes dest: skip_ws_Cons intro: less_trans)
      (blast intro: less_trans)+
next
  case (4 n d s)
  then show ?case by (fastforce split: list.splits if_splits option.splits dest: skip_ws_Cons)
next
  case (6 n d s)
  then show ?case by (fastforce split: list.splits if_splits option.splits dest: skip_ws_Cons unquote_consumes)
qed simp_all

text \<open>More fuel than twice the length of the input changes nothing.\<close>

lemma parse_fuel:
  "2 * length s < n \<Longrightarrow> 2 * length s < m \<Longrightarrow> parse_value n d s = parse_value m d s"
  "2 * length s + 1 < n \<Longrightarrow> 2 * length s + 1 < m \<Longrightarrow> parse_elements n d s = parse_elements m d s"
  "2 * length s + 1 < n \<Longrightarrow> 2 * length s + 1 < m \<Longrightarrow> parse_members n d s = parse_members m d s"
proof (induction n d s and n d s and n d s arbitrary: m and m and m
    rule: parse_value_parse_elements_parse_members.induct)
  case (2 n d s)
  obtain k where m: "m = Suc k" using 2(4) by (cases m) auto
  show ?case
  proof (cases "skip_ws s")
    case (Cons c r)
    have l: "length r < length s" by (rule skip_ws_Cons [OF Cons])
    have f: "2 * length r + 1 < n" "2 * length r + 1 < k" using l 2(3,4) m by linarith+
    show ?thesis
    proof (cases "skip_ws r")
      case Nil
      then show ?thesis by (simp add: m Cons)
    next
      case (Cons e t)
      note C = Cons
      show ?thesis
        using 2(1) [OF \<open>skip_ws s = c # r\<close> _ _ C _ f, unfolded not_le] 2(2) [OF \<open>skip_ws s = c # r\<close> _ _ _ C _ f, unfolded not_le]
        by (simp add: m \<open>skip_ws s = c # r\<close> C)
    qed
  qed (simp add: m)
next
  case (4 n d s)
  obtain k where m: "m = Suc k" using 4(4) by (cases m) auto
  have v: "parse_value n d s = parse_value k d s" using 4(1) [of k] 4(3,4) m by simp
  show ?case
  proof (cases "parse_value k d s")
    case (Some vr)
    then obtain v r where vr: "parse_value k d s = Some (v, r)" by (cases vr) auto
    have r: "length r < length s" by (rule parse_consumes(1) [OF vr])
    show ?thesis
    proof (cases "skip_ws r")
      case (Cons c t)
      have t: "length t < length r" by (rule skip_ws_Cons [OF Cons])
      have f: "2 * length t + 1 < n" "2 * length t + 1 < k" using r t 4(3,4) m by linarith+
      have "parse_elements n d t = parse_elements k d t" if "c = CHR '',''"
        by (rule 4(2) [OF _ refl Cons _ that f]) (use vr v that in auto)
      then show ?thesis by (simp add: m v vr Cons)
    qed (simp add: m v vr)
  qed (simp add: m v)
next
  case (6 n d s)
  obtain k where m: "m = Suc k" using 6(4) by (cases m) auto
  show ?case
  proof (cases "\<exists>r1 key r2 r3. skip_ws s = quote_char # r1 \<and> unquote r1 = Some (key, r2) \<and> skip_ws r2 = CHR '':'' # r3")
    case True
    then obtain r1 key r2 r3 where k1: "skip_ws s = quote_char # r1" "unquote r1 = Some (key, r2)"
      "skip_ws r2 = CHR '':'' # r3" by blast
    have l: "length r3 < length s"
      using skip_ws_Cons [OF k1(1)] unquote_consumes [OF k1(2)] skip_ws_Cons [OF k1(3)] by linarith
    have v: "parse_value n d r3 = parse_value k d r3"
      by (rule 6(1) [OF k1(1) _ k1(2) refl k1(3)]) (use l 6(3,4) m in auto)
    show ?thesis
    proof (cases "parse_value k d r3")
      case (Some vr)
      then obtain v r where vr: "parse_value k d r3 = Some (v, r)" by (cases vr) auto
      have r: "length r < length r3" by (rule parse_consumes(1) [OF vr])
      show ?thesis
      proof (cases "skip_ws r")
        case (Cons c t)
        have t: "length t < length r" by (rule skip_ws_Cons [OF Cons])
        have f: "2 * length t + 1 < n" "2 * length t + 1 < k" using l r t 6(3,4) m by linarith+
        have "parse_members n d t = parse_members k d t" if "c = CHR '',''"
          by (rule 6(2) [OF k1(1) _ k1(2) refl k1(3) _ _ refl Cons _ that f]) (use vr v that in auto)
        then show ?thesis by (simp add: m v vr Cons k1)
      qed (simp add: m v vr k1)
    qed (simp add: m v k1)
  next
    case False
    then show ?thesis by (auto simp: m split: list.split option.split)
  qed
qed simp_all

section \<open>Decoding what was encoded\<close>

subsection \<open>Strings\<close>

lemma hex4_lower: "k < 16 \<Longrightarrow> hex4_digit (hex_lower k) = Some k"
  by (erule below_all) (simp add: upt_16 hex4_digit_def hex_lower_def byte_simps)

lemma hex4_hex4_digits:
  assumes "r < 0x10000"
  shows "hex4 (hex4_digits r @ t) = Some r"
proof -
  define a b c where "a = r div 16" and "b = a div 16" and "c = b div 16"
  have d: "r div 256 = b" "r div 4096 = c" unfolding a_def b_def c_def by (simp_all add: div_mult2_eq [symmetric])
  have "c < 16" using assms unfolding a_def b_def c_def by (simp add: div_less_iff_less_mult)
  moreover have "c * 16 + b mod 16 = b" "b * 16 + a mod 16 = a" "a * 16 + r mod 16 = r"
    unfolding a_def b_def c_def by simp_all
  ultimately show ?thesis by (simp add: hex4_digits_def d a_def [symmetric] hex4_lower)
qed

lemma byte_marks [simp]: "byte quote_char = 34" "byte backslash = 92"
  by (simp_all add: quote_char_def backslash_def byte_simps)

lemma marks_differ [simp]: "quote_char \<noteq> backslash" "backslash \<noteq> quote_char"
  by (simp_all add: quote_char_def backslash_def)

lemma length_hex4_digits [simp]: "length (hex4_digits r) = 4"
  by (simp add: hex4_digits_def)

lemma unquote_escape:
  assumes "surrogate r = False" "r < 0x10000"
  shows "unquote (unicode_escape r @ t) = emit (encode_rune r) (unquote t)"
  using assms by (simp add: unicode_escape_def hex4_hex4_digits)

lemma encode_rune_first:
  assumes "scalar r" "0x80 \<le> r"
  obtains c s where "encode_rune r = c # s" "128 \<le> byte c"
proof -
  obtain c s where e: "encode_rune r = c # s" by (cases "encode_rune r") auto
  have "128 \<le> byte c"
  proof (rule ccontr)
    assume "\<not> 128 \<le> byte c"
    then have "fst (decode_rune (c # s)) = byte c" by (simp add: decode_rune.simps)
    moreover have "fst (decode_rune (c # s)) = r" using decode_encode [OF assms(1), of "[]"] by (simp add: e)
    ultimately show False using assms(2) \<open>\<not> 128 \<le> byte c\<close> by simp
  qed
  with e that show ?thesis by blast
qed

lemma unquote_plain:
  assumes "scalar r" "0x20 \<le> r" "r \<noteq> 0x22" "r \<noteq> 0x5C"
  shows "unquote (encode_rune r @ t) = emit (encode_rune r) (unquote t)"
proof (cases "r < 0x80")
  case True
  then have "byte (to_byte r) = r" by simp
  moreover from this have "to_byte r \<noteq> quote_char" "to_byte r \<noteq> backslash" using assms(3,4) by auto
  ultimately show ?thesis using True assms(2) by (simp add: encode_rune_def)
next
  case False
  then obtain c s where e: "encode_rune r = c # s" "128 \<le> byte c" using encode_rune_first [OF assms(1)] by auto
  have "decode_rune (c # s @ t) = (r, length (c # s))" using decode_encode [OF assms(1), of t] by (simp add: e)
  moreover have "c \<noteq> quote_char" "c \<noteq> backslash" using e(2) by auto
  ultimately show ?thesis using e by simp
qed

lemma encode_rune_ascii: "r < 0x80 \<Longrightarrow> encode_rune r = [to_byte r]"
  by (simp add: encode_rune_def)

lemma unquote_escape_rune:
  assumes "p = bad \<or> scalar (fst p)"
  shows "unquote (escape_rune p @ t) = emit (encode_rune (fst p)) (unquote t)"
proof (cases "p = bad")
  case True
  then show ?thesis
    using unquote_escape [of rune_error t] by (simp add: escape_rune_def bad_def rune_error_def surrogate_def)
next
  case False
  let ?r = "fst p"
  have s: "scalar ?r" using assms False by simp
  consider "?r \<in> {0x22, 0x5C, 0x08, 0x0C, 0x0A, 0x0D, 0x09}"
    | "?r \<notin> {0x22, 0x5C, 0x08, 0x0C, 0x0A, 0x0D, 0x09}" "?r < 0x20 \<or> ?r = 0x2028 \<or> ?r = 0x2029"
    | "?r \<notin> {0x22, 0x5C, 0x08, 0x0C, 0x0A, 0x0D, 0x09}" "\<not> (?r < 0x20 \<or> ?r = 0x2028 \<or> ?r = 0x2029)" by blast
  then show ?thesis
  proof cases
    case 1
    then show ?thesis using False
      by (auto simp: escape_rune_def encode_rune_ascii quote_char_def backslash_def unescape_def byte_simps)
  next
    case 2
    then have "?r < 0x10000" "surrogate ?r = False" by (auto simp: surrogate_def)
    with 2 False show ?thesis using unquote_escape [of ?r t] by (simp add: escape_rune_def)
  next
    case 3
    with False s show ?thesis using unquote_plain [of ?r t] by (simp add: escape_rune_def)
  qed
qed

lemma scan_runes_good: "p \<in> set (scan_runes s) \<Longrightarrow> p = bad \<or> scalar (fst p)"
proof (induction s rule: scan_runes.induct)
  case (1 s)
  then have ne: "s \<noteq> []" by auto
  obtain r n where d: "decode_rune s = (r, n)" by fastforce
  have "scan_runes s = (r, n) # scan_runes (drop n s)" using ne d by (simp add: scan_runes.simps [of s])
  with 1 ne d show ?case using encode_decode(1) [OF ne d] by fastforce
qed

lemma unquote_print:
  "unquote (concat (map escape_rune (scan_runes s)) @ quote_char # t) = Some (encode_runes (runes s), t)"
proof -
  have "unquote (concat (map escape_rune ps) @ quote_char # t) = Some (encode_runes (map fst ps), t)"
    if "\<forall>p\<in>set ps. p = bad \<or> scalar (fst p)" for ps
    using that by (induction ps) (auto simp: unquote_escape_rune)
  then show ?thesis using scan_runes_good by (simp add: runes_def)
qed

lemma unquote_valid:
  "valid_utf8 s \<Longrightarrow> unquote (concat (map escape_rune (scan_runes s)) @ quote_char # t) = Some (s, t)"
  using unquote_print [of s t] encode_runes_runes [of s] by simp

subsection \<open>Numbers\<close>

text \<open>What may follow a number without being read as part of it.\<close>

definition stops :: "string \<Rightarrow> bool" where
  "stops s \<longleftrightarrow> s = [] \<or> \<not> (is_digit (hd s) \<or> hd s \<in> {CHR ''.'', CHR ''e'', CHR ''E''})"

lemma takeWhile_stops:
  "dropWhile P s = [] \<Longrightarrow> r = [] \<or> \<not> P (hd r) \<Longrightarrow> takeWhile P (s @ r) = takeWhile P s \<and> dropWhile P (s @ r) = r"
  by (induction s) (auto split: if_splits, (cases r; simp)+)

lemma digits_append:
  assumes "dropWhile is_digit s = b" "b = [] \<longrightarrow> stops r"
  shows "takeWhile is_digit (s @ r) = takeWhile is_digit s" "dropWhile is_digit (s @ r) = b @ r"
proof -
  have "takeWhile is_digit (s @ r) = takeWhile is_digit s \<and> dropWhile is_digit (s @ r) = b @ r"
  proof (cases b)
    case Nil
    then show ?thesis using takeWhile_stops [of is_digit s r] assms by (auto simp: stops_def)
  next
    case (Cons c b')
    then have "\<not> is_digit c" "c \<in> set s" using assms(1) hd_dropWhile [of is_digit s] set_dropWhileD [of c is_digit s] by auto
    then show ?thesis using assms(1) by (simp add: takeWhile_append dropWhile_append) blast
  qed
  then show "takeWhile is_digit (s @ r) = takeWhile is_digit s" "dropWhile is_digit (s @ r) = b @ r" by blast+
qed

lemma some_digits_append: "some_digits s = Some (l, b) \<Longrightarrow> b = [] \<longrightarrow> stops r \<Longrightarrow> some_digits (s @ r) = Some (l, b @ r)"
  by (cases s) (auto simp: digits_append split: if_splits)

lemma number_int_append: "number_int s = Some (l, b) \<Longrightarrow> b = [] \<longrightarrow> stops r \<Longrightarrow> number_int (s @ r) = Some (l, b @ r)"
  by (cases s) (auto simp: digits_append split: if_splits)

lemma stops_frac: "stops r \<Longrightarrow> number_frac r = Some ('''', r)" and stops_exp: "stops r \<Longrightarrow> number_exp r = Some ('''', r)"
  by (cases r; simp add: stops_def)+

lemma number_frac_append:
  "number_frac s = Some (l, b) \<Longrightarrow> b = [] \<longrightarrow> stops r \<Longrightarrow> number_frac (s @ r) = Some (l, b @ r)"
  by (cases s) (auto simp: some_digits_append stops_frac split: if_splits)

lemma optional_sign_append:
  "optional_sign s = Some (l, b) \<Longrightarrow> b = [] \<longrightarrow> stops r \<Longrightarrow> optional_sign (s @ r) = Some (l, b @ r)"
  by (cases s) (auto simp: some_digits_append split: if_splits dest: some_digits_append [of "_ # _"] simp del: some_digits.simps)

lemma number_exp_append:
  "number_exp s = Some (l, b) \<Longrightarrow> b = [] \<longrightarrow> stops r \<Longrightarrow> number_exp (s @ r) = Some (l, b @ r)"
  by (cases s) (auto simp: optional_sign_append stops_exp split: if_splits)

lemma unsigned_number_append:
  assumes "unsigned_number s = Some (l, [])" "stops r"
  shows "unsigned_number (s @ r) = Some (l, r)"
proof -
  obtain i s1 f s2 e where s: "number_int s = Some (i, s1)" "number_frac s1 = Some (f, s2)" "number_exp s2 = Some (e, [])"
    "l = i @ f @ e"
    using assms(1) by (auto simp: unsigned_number_def split: option.splits)
  have "number_int (s @ r) = Some (i, s1 @ r)" by (rule number_int_append [OF s(1)]) (simp add: assms(2))
  moreover have "number_frac (s1 @ r) = Some (f, s2 @ r)" by (rule number_frac_append [OF s(2)]) (simp add: assms(2))
  moreover have "number_exp (s2 @ r) = Some (e, [] @ r)" by (rule number_exp_append [OF s(3)]) (simp add: assms(2))
  ultimately show ?thesis by (simp add: unsigned_number_def s(4))
qed

lemma number_append: "number l = Some (l, []) \<Longrightarrow> stops r \<Longrightarrow> number (l @ r) = Some (l, r)"
  by (cases l) (auto split: if_splits dest: unsigned_number_append unsigned_number_append [of "_ # _"])

subsection \<open>Values\<close>

text \<open>
  The values Go's encoder and decoder agree on: strings are valid UTF-8, numbers are number
  literals, an object's keys are in order and each there once.
\<close>

fun json_ok :: "json \<Rightarrow> bool" where
  "json_ok (JNumber l) \<longleftrightarrow> number l = Some (l, [])"
| "json_ok (JString s) \<longleftrightarrow> valid_utf8 s"
| "json_ok (JArray vs) \<longleftrightarrow> (\<forall>v\<in>set vs. json_ok v)"
| "json_ok (JObject es) \<longleftrightarrow> sorted_wrt (<) (map fst es) \<and> (\<forall>e\<in>set es. valid_utf8 (fst e) \<and> json_ok (snd e))"
| "json_ok _ \<longleftrightarrow> True"

fun depth :: "json \<Rightarrow> nat" where
  "depth (JArray vs) = Suc (fold max (map depth vs) 0)"
| "depth (JObject es) = Suc (fold max (map (\<lambda>e. depth (snd e)) es) 0)"
| "depth _ = 0"

lemma fold_max: "x \<in> set xs \<Longrightarrow> (x :: nat) \<le> fold max xs a" "a \<le> fold max xs a"
proof (induction xs arbitrary: a)
  case (Cons y ys)
  { case 1 then show ?case using Cons [of "max y a"] by auto }
  { case 2 then show ?case using Cons(2) [of "max y a"] by simp }
qed auto

lemma put_member_last: "\<forall>e\<in>set es. fst e < k \<Longrightarrow> put_member k v es = es @ [(k, v)]"
  by (induction es) auto

lemma members_sorted: "sorted_wrt (<) (map fst es) \<Longrightarrow> members es = es"
proof -
  assume a: "sorted_wrt (<) (map fst es)"
  have "sorted_wrt (<) (map fst (acc @ es)) \<Longrightarrow> fold (\<lambda>(k, v). put_member k v) es acc = acc @ es" for acc es
  proof (induction es arbitrary: acc)
    case (Cons e es)
    have "put_member (fst e) (snd e) acc = acc @ [e]"
      using Cons.prems by (subst put_member_last) (auto simp: sorted_wrt_append)
    with Cons.IH [of "acc @ [e]"] Cons.prems show ?case by (simp add: case_prod_beta)
  qed simp
  from this [of "[]" es] a show ?thesis by (simp add: members_def)
qed

text \<open>How the text of a value begins.\<close>

definition starts :: "char \<Rightarrow> bool" where
  "starts c \<longleftrightarrow> c \<in> {CHR ''n'', CHR ''t'', CHR ''f'', CHR ''['', CHR ''{'', CHR ''-'', quote_char} \<or> is_digit c"

lemma number_starts: "number l = Some (l, []) \<Longrightarrow> \<exists>c s. l = c # s \<and> (is_digit c \<or> c = CHR ''-'')"
proof (cases l)
  case (Cons c s)
  assume "number l = Some (l, [])"
  with Cons have "c = CHR ''-'' \<or> unsigned_number (c # s) \<noteq> None" by (auto split: if_splits)
  then have "c = CHR ''-'' \<or> number_int (c # s) \<noteq> None" by (auto simp: unsigned_number_def split: option.splits)
  then have "c = CHR ''-'' \<or> c = CHR ''0'' \<or> is_digit c" by (auto split: if_splits)
  moreover have "is_digit (CHR ''0'')" by (simp add: is_digit_def byte_simps)
  ultimately show ?thesis using Cons by blast
qed simp

lemma starts_plain: "starts c \<Longrightarrow> \<not> is_ws c \<and> c \<noteq> CHR ''}'' \<and> c \<noteq> CHR '']''"
  by (auto simp: starts_def is_ws_def is_digit_def quote_char_def byte_simps)

lemma skip_ws_char: "\<not> is_ws c \<Longrightarrow> skip_ws (c # r) = c # r"
  by (simp add: skip_ws_def)

lemma plain_chars [simp]: "\<not> is_ws (CHR '','')" "\<not> is_ws (CHR '']'')" "\<not> is_ws (CHR ''}'')" "\<not> is_ws (CHR '':'')"
  "\<not> is_ws quote_char" "\<not> is_ws (CHR ''['')" "\<not> is_ws (CHR ''{'')" "\<not> is_ws (CHR ''n'')" "\<not> is_ws (CHR ''t'')" "\<not> is_ws (CHR ''f'')"
  by (simp_all add: is_ws_def quote_char_def)

lemma stops_chars [simp]: "stops (CHR '','' # r)" "stops (CHR '']'' # r)" "stops (CHR ''}'' # r)" "stops []"
  by (simp_all add: stops_def is_digit_def byte_simps)

lemma quote_is [simp]: "quote_char \<noteq> CHR ''{''" "quote_char \<noteq> CHR ''[''" "quote_char \<noteq> CHR ''}''"
  by (simp_all add: quote_char_def)

text \<open>\<open>reads_as d v t\<close>: with enough fuel, \<open>t\<close> is read as \<open>v\<close>, whatever follows it.\<close>

definition reads_as :: "nat \<Rightarrow> json \<Rightarrow> string \<Rightarrow> bool" where
  "reads_as d v t \<longleftrightarrow> (\<exists>N. \<forall>n\<ge>N. \<forall>r. stops r \<longrightarrow> parse_value n d (t @ r) = Some (v, r))"

lemma enough_fuel: "(\<And>n r. N \<le> n \<Longrightarrow> P (Suc n) r) \<Longrightarrow> \<exists>N. \<forall>n\<ge>N. \<forall>r. P n r"
  by (intro exI [of _ "Suc N"]) (metis Suc_le_D Suc_le_mono)

lemma readsI: "(\<And>n r. N \<le> n \<Longrightarrow> stops r \<Longrightarrow> parse_value (Suc n) d (t @ r) = Some (v, r)) \<Longrightarrow> reads_as d v t"
  unfolding reads_as_def by (intro exI [of _ "Suc N"]) (metis Suc_le_D Suc_le_mono)

lemma number_first: "number (c # s) = Some x \<Longrightarrow> is_digit c \<or> c = CHR ''-''"
proof -
  assume "number (c # s) = Some x"
  then have "c = CHR ''-'' \<or> number_int (c # s) \<noteq> None"
    by (auto simp: unsigned_number_def split: option.splits if_splits)
  moreover have "is_digit (CHR ''0'')" by (simp add: is_digit_def byte_simps)
  ultimately show ?thesis by (auto split: if_splits)
qed

lemma value_starts: "parse_value n d s = Some x \<Longrightarrow> \<exists>c u. skip_ws s = c # u \<and> starts c"
  by (cases n; cases "skip_ws s")
    (auto simp: starts_def simp del: number.simps split: if_splits dest: number_first)

lemma elements_starts: "parse_elements n d s = Some x \<Longrightarrow> \<exists>c u. skip_ws s = c # u \<and> starts c"
  by (cases n) (auto split: option.splits dest: value_starts)

lemma members_starts: "parse_members n d s = Some x \<Longrightarrow> \<exists>u. skip_ws s = quote_char # u"
  by (cases n) (auto split: list.splits if_splits)

lemma parse_elements_texts:
  assumes "list_all2 (reads_as d) vs ts" "vs \<noteq> []"
  shows "\<exists>N. \<forall>n\<ge>N. \<forall>r. parse_elements n d (join '','' ts @ CHR '']'' # r) = Some (vs, r)"
  using assms
proof (induction vs ts rule: list_all2_induct)
  case (Cons v vs t ts)
  obtain N where N: "\<And>n r. N \<le> n \<Longrightarrow> stops r \<Longrightarrow> parse_value n d (t @ r) = Some (v, r)"
    using Cons.hyps(1) unfolding reads_as_def by blast
  show ?case
  proof (cases vs)
    case Nil
    have "parse_elements (Suc n) d (join '','' (t # ts) @ CHR '']'' # r) = Some (v # vs, r)" if "N \<le> n" for n r
      using N [OF that, of "CHR '']'' # r"] Cons.hyps(2) Nil by (simp add: skip_ws_char)
    then show ?thesis by (rule enough_fuel)
  next
    case (Cons w ws)
    then obtain M where M: "\<And>n r. M \<le> n \<Longrightarrow> parse_elements n d (join '','' ts @ CHR '']'' # r) = Some (vs, r)"
      using Cons.IH by blast
    obtain u us where ts: "ts = u # us" using Cons Cons.hyps(2) by (cases ts) auto
    have "parse_elements (Suc n) d (join '','' (t # ts) @ CHR '']'' # r) = Some (v # vs, r)" if "max N M \<le> n" for n r
      using N [of n "CHR '','' # join '','' ts @ CHR '']'' # r"] M [of n r] that by (simp add: skip_ws_char ts)
    then show ?thesis by (rule enough_fuel)
  qed
qed simp

text \<open>The text of a member: its key and the text of its value.\<close>

definition member_text :: "string \<times> string \<Rightarrow> string" where
  "member_text e = print_string (fst e) @ CHR '':'' # snd e"

definition member_reads :: "nat \<Rightarrow> string \<times> json \<Rightarrow> string \<times> string \<Rightarrow> bool" where
  "member_reads d e f \<longleftrightarrow> fst f = fst e \<and> valid_utf8 (fst e) \<and> reads_as d (snd e) (snd f)"

lemma parse_members_texts:
  assumes "list_all2 (member_reads d) es fs" "es \<noteq> []"
  shows "\<exists>N. \<forall>n\<ge>N. \<forall>r. parse_members n d (join '','' (map member_text fs) @ CHR ''}'' # r) = Some (es, r)"
  using assms
proof (induction es fs rule: list_all2_induct)
  case (Cons e es f fs)
  have m: "member_text f = quote_char # concat (map escape_rune (scan_runes (fst e))) @ quote_char # CHR '':'' # snd f"
    "valid_utf8 (fst e)"
    using Cons.hyps(1) by (simp_all add: member_text_def print_string_def member_reads_def)
  obtain N where N: "\<And>n r. N \<le> n \<Longrightarrow> stops r \<Longrightarrow> parse_value n d (snd f @ r) = Some (snd e, r)"
    using Cons.hyps(1) unfolding member_reads_def reads_as_def by blast
  show ?case
  proof (cases es)
    case Nil
    have "parse_members (Suc n) d (join '','' (map member_text (f # fs)) @ CHR ''}'' # r) = Some (e # es, r)" if "N \<le> n" for n r
      using N [OF that, of "CHR ''}'' # r"] Cons.hyps(2) Nil m by (simp add: skip_ws_char unquote_valid)
    then show ?thesis by (rule enough_fuel)
  next
    case (Cons w ws)
    then obtain M where M: "\<And>n r. M \<le> n \<Longrightarrow> parse_members n d (join '','' (map member_text fs) @ CHR ''}'' # r) = Some (es, r)"
      using Cons.IH by blast
    obtain u us where fs: "map member_text fs = u # us" using Cons Cons.hyps(2) by (cases fs) auto
    have "parse_members (Suc n) d (join '','' (map member_text (f # fs)) @ CHR ''}'' # r) = Some (e # es, r)" if "max N M \<le> n" for n r
      using N [of n "CHR '','' # join '','' (map member_text fs) @ CHR ''}'' # r"] M [of n r] that m
      by (simp add: skip_ws_char fs unquote_valid)
    then show ?thesis by (rule enough_fuel)
  qed
qed simp

lemma reads_array:
  assumes "list_all2 (reads_as (Suc d)) vs ts" "d < max_depth"
  shows "reads_as d (JArray vs) (CHR ''['' # join '','' ts @ '']'')"
proof (cases "vs = []")
  case True
  then show ?thesis using assms by (intro readsI) (simp add: skip_ws_char)
next
  case False
  then obtain N where N: "\<And>n r. N \<le> n \<Longrightarrow> parse_elements n (Suc d) (join '','' ts @ CHR '']'' # r) = Some (vs, r)"
    using parse_elements_texts [OF assms(1)] by blast
  show ?thesis
  proof (rule readsI)
    fix n r assume n: "N \<le> n"
    obtain c u where "skip_ws (join '','' ts @ CHR '']'' # r) = c # u" "starts c"
      using elements_starts [OF N [OF n]] by blast
    then show "parse_value (Suc n) d ((CHR ''['' # join '','' ts @ '']'') @ r) = Some (JArray vs, r)"
      using N [OF n, of r] assms(2) starts_plain [of c] by (simp add: skip_ws_char)
  qed
qed

lemma reads_object:
  assumes "list_all2 (member_reads (Suc d)) es fs" "d < max_depth"
  shows "reads_as d (JObject (members es)) (CHR ''{'' # join '','' (map member_text fs) @ ''}'')"
proof (cases "es = []")
  case True
  then show ?thesis using assms by (intro readsI) (simp add: skip_ws_char members_def)
next
  case False
  then obtain N where N: "\<And>n r. N \<le> n \<Longrightarrow> parse_members n (Suc d) (join '','' (map member_text fs) @ CHR ''}'' # r) = Some (es, r)"
    using parse_members_texts [OF assms(1)] by blast
  show ?thesis
  proof (rule readsI)
    fix n r assume n: "N \<le> n"
    obtain u where "skip_ws (join '','' (map member_text fs) @ CHR ''}'' # r) = quote_char # u"
      using members_starts [OF N [OF n]] by blast
    then show "parse_value (Suc n) d ((CHR ''{'' # join '','' (map member_text fs) @ ''}'') @ r) = Some (JObject (members es), r)"
      using N [OF n, of r] assms(2) by (simp add: skip_ws_char)
  qed
qed

lemma reads_null: "reads_as d JNull ''null''"
  by (intro readsI [of 0]) (simp add: skip_ws_char expect_def quote_char_def)

lemma reads_ok: "json_ok v \<Longrightarrow> d + depth v \<le> max_depth \<Longrightarrow> reads_as d v (print_json v)"
proof (induction v arbitrary: d)
  case (JNumber l)
  then obtain c s where l: "l = c # s" "is_digit c \<or> c = CHR ''-''" using number_starts by fastforce
  then have c: "c \<noteq> CHR ''{''" "c \<noteq> CHR ''[''" "c \<noteq> quote_char" "c \<noteq> CHR ''t''" "c \<noteq> CHR ''f''" "c \<noteq> CHR ''n''" "\<not> is_ws c"
    by (auto simp: is_digit_def is_ws_def quote_char_def byte_simps)
  show ?case
    by (rule readsI) (use JNumber number_append [of l] l(1) c in \<open>simp add: skip_ws_char\<close>)
next
  case (JString s)
  then show ?case
    by (intro readsI) (simp add: skip_ws_char print_string_def unquote_valid)
next
  case (JArray vs)
  have "reads_as (Suc d) v (print_json v)" if v: "v \<in> set vs" for v
  proof -
    have "depth v \<le> fold max (map depth vs) 0" by (intro fold_max(1)) (simp add: v)
    then show ?thesis using JArray v by simp
  qed
  then have "list_all2 (reads_as (Suc d)) vs (map print_json vs)" by (simp add: list_all2_conv_all_nth)
  then show ?case using reads_array JArray.prems by simp
next
  case (JObject es)
  let ?fs = "map (\<lambda>e. (fst e, print_json (snd e))) es"
  have "member_reads (Suc d) e (fst e, print_json (snd e))" if e: "e \<in> set es" for e
  proof -
    have "depth (snd e) \<le> fold max (map (\<lambda>e. depth (snd e)) es) 0" by (intro fold_max(1)) (simp add: e)
    moreover have "snd e \<in> Basic_BNFs.snds e" by (cases e) auto
    ultimately show ?thesis using JObject.IH [OF e, of "snd e" "Suc d"] JObject.prems e by (simp add: member_reads_def)
  qed
  then have "list_all2 (member_reads (Suc d)) es ?fs" by (simp add: list_all2_conv_all_nth)
  then have "reads_as d (JObject (members es)) (CHR ''{'' # join '','' (map member_text ?fs) @ ''}'')"
    using JObject.prems by (intro reads_object) simp_all
  then show ?case using JObject.prems by (simp add: members_sorted member_text_def comp_def)
next
  case JNull
  show ?case using reads_null by simp
next
  case (JBool b)
  then show ?case by (intro readsI [of 0]) (simp add: skip_ws_char expect_def quote_char_def)
qed

lemma reads_parse:
  assumes "reads_as 0 v t" "stops r"
  shows "parse (t @ r) = Some (v, r)"
proof -
  obtain N where N: "\<And>n. N \<le> n \<Longrightarrow> parse_value n 0 (t @ r) = Some (v, r)"
    using assms unfolding reads_as_def by blast
  have "parse_value (2 * length (t @ r) + 1) 0 (t @ r) = parse_value (max N (2 * length (t @ r) + 1)) 0 (t @ r)"
    by (rule parse_fuel(1)) auto
  then show ?thesis using N [of "max N (2 * length (t @ r) + 1)"] unfolding parse_def by simp
qed

lemma reads_decode_all: "reads_as 0 v t \<Longrightarrow> decode_all t = Some v"
  using reads_parse [of v t "[]"] by (simp add: decode_all_def skip_ws_def)

theorem parse_print:
  assumes "json_ok v" "depth v \<le> max_depth" "stops r"
  shows "parse (print_json v @ r) = Some (v, r)"
  by (rule reads_parse [OF reads_ok]) (use assms in simp_all)

lemma decode_first_print: "json_ok v \<Longrightarrow> depth v \<le> max_depth \<Longrightarrow> decode_first (print_json v) = Some v"
  using parse_print [of v "[]"] by (simp add: decode_first_def)

lemma decode_all_print: "json_ok v \<Longrightarrow> depth v \<le> max_depth \<Longrightarrow> decode_all (print_json v) = Some v"
  using parse_print [of v "[]"] by (simp add: decode_all_def skip_ws_def)

end
