(* ===== verification/Connconfig.thy ===== *)
theory Connconfig
  imports Json Interaction
begin

text \<open>
  Package \<^verbatim>\<open>internal/connconfig\<close>: the rules a connection's settings are held to (\<open>Clean\<close>), and
  the check that refuses hosts at loopback or private addresses (\<open>BlockedIP\<close>, \<open>CheckHost\<close>), down
  to the characters the regular expressions match, the rounding of the port's number and the
  parsing of IP addresses. Unicode's tables and the text folding of \<^verbatim>\<open>golang.org/x/text\<close> are not
  in the repository: they are the record \<open>unicode\<close>.
\<close>

section \<open>Unicode\<close>

text \<open>
  \<open>graphic\<close> is \<^verbatim>\<open>[\pL\pN\pP\pS]\<close> and \<open>numeric\<close> is \<^verbatim>\<open>\pN\<close>; \<open>fold_case\<close> is \<^verbatim>\<open>cases.Fold().String\<close>,
  \<open>nfd\<close> is \<^verbatim>\<open>norm.NFD.String\<close> and \<open>to_lower\<close> is \<^verbatim>\<open>strings.ToLower\<close>.
\<close>

record unicode =
  graphic :: "rune \<Rightarrow> bool"
  numeric :: "rune \<Rightarrow> bool"
  fold_case :: "string \<Rightarrow> string"
  nfd :: "string \<Rightarrow> string"
  to_lower :: "string \<Rightarrow> string"

section \<open>The regular expressions\<close>

text \<open>A body, then \<^verbatim>\<open>\n?$\<close>.\<close>

definition upto_newline :: "(rune list \<Rightarrow> bool) \<Rightarrow> rune list \<Rightarrow> bool" where
  "upto_newline P rs \<longleftrightarrow> P rs \<or> rs \<noteq> [] \<and> last rs = 0x0A \<and> P (butlast rs)"

definition digit_rune :: "rune \<Rightarrow> bool" where
  "digit_rune r \<longleftrightarrow> 48 \<le> r \<and> r \<le> 57"

definition alnum_rune :: "rune \<Rightarrow> bool" where
  "alnum_rune r \<longleftrightarrow> digit_rune r \<or> 65 \<le> r \<and> r \<le> 90 \<or> 97 \<le> r \<and> r \<le> 122"

definition nickRe :: "unicode \<Rightarrow> rune list \<Rightarrow> bool" where
  "nickRe U rs = (case rs of
     [] \<Rightarrow> False
   | r # q \<Rightarrow> r \<notin> set (map byte ''#~&@%+-$'') \<and> list_all (graphic U) q)"

definition userRe :: "rune list \<Rightarrow> bool" where
  "userRe rs = (case rs of
     [] \<Rightarrow> False
   | r # q \<Rightarrow> r \<notin> {0x20, 0, 0x0D, 0x0A, 0x40, 0x3A} \<and> length q \<le> 31 \<and>
       list_all (\<lambda>r. r \<notin> {0x20, 0, 0x0D, 0x0A, 0x40}) q)"

definition channel_rune :: "rune \<Rightarrow> bool" where
  "channel_rune r \<longleftrightarrow> r \<notin> set space_runes \<and> r \<noteq> 0x2C \<and> r \<ge> 0x20 \<and> r \<noteq> 0x7F"

definition channelRe :: "rune list \<Rightarrow> bool" where
  "channelRe rs = (case rs of
     [] \<Rightarrow> False
   | r # q \<Rightarrow> r \<in> set (map byte ''#&+!'') \<and>
       upto_newline (\<lambda>q. 1 \<le> length q \<and> length q \<le> 199 \<and> list_all channel_rune q) q)"

definition aliasRe :: "rune list \<Rightarrow> bool" where
  "aliasRe = upto_newline (\<lambda>rs. 1 \<le> length rs \<and> length rs \<le> 32 \<and>
     list_all (\<lambda>r. alnum_rune r \<or> r \<in> {0x20, 0x2E, 0x2D}) rs)"

definition labelRe :: "rune list \<Rightarrow> bool" where
  "labelRe = upto_newline (\<lambda>rs. 1 \<le> length rs \<and> length rs \<le> 63 \<and> alnum_rune (hd rs) \<and> alnum_rune (last rs) \<and>
     list_all (\<lambda>r. alnum_rune r \<or> r = 0x2D) rs)"

definition digitsRe :: "unicode \<Rightarrow> rune list \<Rightarrow> bool" where
  "digitsRe U = upto_newline (\<lambda>rs. rs \<noteq> [] \<and> list_all (numeric U) rs)"

definition controlRe :: "string \<Rightarrow> bool" where
  "controlRe s \<longleftrightarrow> (\<exists>r\<in>set (runes s). r \<le> 0x1F \<or> r = 0x7F)"

text \<open>The four groups of \<^verbatim>\<open>ipv4Re\<close>.\<close>

definition ipv4_groups :: "string \<Rightarrow> string list option" where
  "ipv4_groups host =
     (let body = (if host \<noteq> '''' \<and> last host = CHR 0x0A then butlast host else host);
          parts = split_on CHR ''.'' body
      in if length parts = 4 \<and> list_all (\<lambda>p. 1 \<le> length p \<and> length p \<le> 3 \<and> list_all is_digit p) parts
         then Some parts else None)"

text \<open>\<^verbatim>\<open>strconv.Atoi\<close> on digits.\<close>

definition digits_int :: "string \<Rightarrow> int" where
  "digits_int s = foldl (\<lambda>n c. 10 * n + (int (byte c) - 48)) 0 s"

section \<open>Hosts\<close>

definition ipv4Literal :: "string \<Rightarrow> bool" where
  "ipv4Literal host = (case ipv4_groups host of
     None \<Rightarrow> False
   | Some ps \<Rightarrow> list_all (\<lambda>p. digits_int p \<le> 255) ps)"

definition validHost :: "unicode \<Rightarrow> string \<Rightarrow> bool" where
  "validHost U host =
     (if ipv4Literal host then True
      else if length (runes host) > 253 then False
      else (let labels = split_on CHR ''.'' host
        in if digitsRe U (runes (last labels)) then False else list_all (\<lambda>l. labelRe (runes l)) labels))"

section \<open>Numbers: strconv.ParseFloat\<close>

text \<open>
  A decimal literal without its sign as a fraction, and the double nearest to a fraction, ties to
  even, as a fraction again. Below one half the fraction is kept as it is: the code only asks of
  such numbers whether they are at least 1, or truncates them.
\<close>

definition decimal_value :: "string \<Rightarrow> string \<Rightarrow> int \<Rightarrow> int \<times> int" where
  "decimal_value i f e =
     (let m = digits_int (i @ f); k = e - int (length f)
      in if k \<ge> 0 then (m * 10 ^ nat k, 1) else (m, 10 ^ nat (- k)))"

function log2_int :: "int \<Rightarrow> nat" where
  "log2_int n = (if n < 2 then 0 else Suc (log2_int (n div 2)))"
  by auto
termination by (relation "measure nat") auto

declare log2_int.simps [simp del]

definition round_half_even :: "int \<Rightarrow> int \<Rightarrow> int" where
  "round_half_even n d =
     (let q = n div d; r = n mod d
      in if 2 * r < d then q else if 2 * r > d then q + 1 else if even q then q else q + 1)"

definition to_float :: "int \<times> int \<Rightarrow> int \<times> int" where
  "to_float x = (case x of (n, d) \<Rightarrow>
     if 2 * n < d then (n, d)
     else if n < d then (round_half_even (n * 2 ^ 53) d, 2 ^ 53)
     else (let e = log2_int (n div d) in
       if e \<le> 52 then (round_half_even (n * 2 ^ (52 - e)) d, 2 ^ (52 - e))
       else (round_half_even n (d * 2 ^ (e - 52)) * 2 ^ (e - 52), 1)))"

text \<open>An exponent part: \<^verbatim>\<open>e\<close> or \<^verbatim>\<open>E\<close>, an optional sign, digits; 0 when there is none.\<close>

definition exponent_value :: "string \<Rightarrow> int" where
  "exponent_value s =
     (let t = tl s in
      if s = '''' then 0
      else if t \<noteq> '''' \<and> hd t = CHR ''-'' then - digits_int (tl t)
      else if t \<noteq> '''' \<and> hd t = CHR ''+'' then digits_int (tl t)
      else digits_int t)"

text \<open>A JSON number literal: whether it is negative, and its value.\<close>

definition literal_value :: "string \<Rightarrow> bool \<times> int \<times> int" where
  "literal_value l =
     (let neg = (l \<noteq> '''' \<and> hd l = CHR ''-''); s = (if neg then tl l else l);
          i = takeWhile is_digit s; r = dropWhile is_digit s;
          f = (if r \<noteq> '''' \<and> hd r = CHR ''.'' then takeWhile is_digit (tl r) else '''');
          e = (if r \<noteq> '''' \<and> hd r = CHR ''.'' then dropWhile is_digit (tl r) else r)
      in (neg, decimal_value i f (exponent_value e)))"

text \<open>The port of a number literal; 0 when it is none from 1 to 65535.\<close>

definition port_of :: "string \<Rightarrow> int" where
  "port_of l = (case literal_value l of (neg, x) \<Rightarrow> (case to_float x of (n, d) \<Rightarrow>
     if \<not> neg \<and> n mod d = 0 \<and> 1 \<le> n div d \<and> n div d \<le> 65535 then n div d else 0))"

section \<open>Clean\<close>

definition field :: "(string \<times> json) list \<Rightarrow> string \<Rightarrow> json" where
  "field es k = (case map_of es k of None \<Rightarrow> JNull | Some v \<Rightarrow> v)"

text \<open>\<^verbatim>\<open>str\<close>: the text and whether it was there. \<open>list_of\<close> is \<^verbatim>\<open>list\<close>.\<close>

definition str :: "json \<Rightarrow> string \<Rightarrow> goerr + string \<times> bool" where
  "str v label = (case v of
     JNull \<Rightarrow> Inr ('''', False)
   | JString s \<Rightarrow> Inr (s, True)
   | _ \<Rightarrow> Inl (Err (label @ '' must be a string'')))"

fun strings_of :: "json list \<Rightarrow> string list option" where
  "strings_of [] = Some []"
| "strings_of (JString s # vs) = map_option (\<lambda>ss. s # ss) (strings_of vs)"
| "strings_of (_ # vs) = None"

definition list_of :: "json \<Rightarrow> string \<Rightarrow> goerr + string list" where
  "list_of v name = (let wrong = Inl (Err (name @ '' must be a list of strings'')) in case v of
     JNull \<Rightarrow> Inr []
   | JArray items \<Rightarrow> (case strings_of items of
         None \<Rightarrow> wrong
       | Some ss \<Rightarrow> Inr (filter (\<lambda>s. s \<noteq> '''') (map TrimSpace ss)))
   | _ \<Rightarrow> wrong)"

definition boolean :: "json \<Rightarrow> string \<Rightarrow> goerr + bool" where
  "boolean v name = (case v of
     JNull \<Rightarrow> Inr False
   | JBool b \<Rightarrow> Inr b
   | _ \<Rightarrow> Inl (Err (name @ '' must be true or false'')))"

definition nickForbidden :: string where
  "nickForbidden = '' ,*?.!@:<>'' @ [CHR 0x27, CHR 0x22] @ '';#/''"

definition nickReserved :: "unicode \<Rightarrow> string \<Rightarrow> bool" where
  "nickReserved U s \<longleftrightarrow> s \<in> fold_case U ` set [''0'', ''NickServ'', ''ChanServ'', ''HostServ'', ''HistServ'', ''MemoServ'',
     ''BotServ'', ''OperServ'', ''Global'', ''=scene='']"

definition errNick :: string where
  "errNick = ''Nick can only use letters, numbers, punctuation and symbols, not spaces or , * ? . ! @ : < > '' @ [CHR 0x27] @
     '' '' @ [CHR 0x22] @ '' ; # /, and can't start with ~ & % + - or $''"

definition errNickLong :: string where
  "errNickLong = ''Nick must be at most 32 bytes; accented letters and emoji take 2 to 4 each''"

definition errUser :: string where
  "errUser = ''Username must be up to 32 characters, without spaces or @, and can't start with :''"

definition errAlias :: string where
  "errAlias = ''Network alias can only use letters, digits, spaces, dots and hyphens, up to 32 characters''"

text \<open>The cleaned settings; \<open>None\<close> for a key the code leaves out.\<close>

record config =
  Host :: string
  Port :: int
  Nick :: string
  UserName :: "string option"
  Pass :: "string option"
  Channels :: "string list"
  Highlight :: "string list"
  Alias :: "string option"
  Ssl :: bool
  SASL :: bool

text \<open>\<^verbatim>\<open>if err != nil { return nil, err }\<close>; and \<^verbatim>\<open>if b { return nil, errors.New(m) }\<close>.\<close>

definition ok_then :: "goerr + 'a \<Rightarrow> ('a \<Rightarrow> goerr + 'b) \<Rightarrow> goerr + 'b" where
  "ok_then r k = (case r of Inl e \<Rightarrow> Inl e | Inr a \<Rightarrow> k a)"

definition refuse_if :: "bool \<Rightarrow> string \<Rightarrow> goerr + 'b \<Rightarrow> goerr + 'b" where
  "refuse_if b m r = (if b then Inl (Err m) else r)"

text \<open>\<open>Clean\<close>, field by field.\<close>

definition clean_host :: "unicode \<Rightarrow> (string \<times> json) list \<Rightarrow> goerr + string" where
  "clean_host U es = ok_then (str (field es ''Host'') ''Host'') (\<lambda>(host, present).
     let host = TrimSpace host in
     refuse_if (\<not> present \<or> host = '''') ''Host is required''
     (refuse_if (\<not> validHost U host) ''Host must be an IPv4 address or a domain name''
     (Inr host)))"

definition clean_port :: "(string \<times> json) list \<Rightarrow> goerr + int" where
  "clean_port es = ok_then
     (case field es ''Port'' of
        JNull \<Rightarrow> Inr 0
      | JNumber l \<Rightarrow> Inr (port_of l)
      | _ \<Rightarrow> Inl (Err ''Port must be a number''))
     (\<lambda>port. refuse_if (port = 0) ''Port must be a number from 1 to 65535'' (Inr port))"

definition clean_nick :: "unicode \<Rightarrow> (string \<times> json) list \<Rightarrow> goerr + string" where
  "clean_nick U es = ok_then (str (field es ''Nick'') ''Nick'') (\<lambda>(nick, _).
     let nick = TrimSpace nick in
     refuse_if (nick = '''') ''Nick is required''
     (refuse_if (\<not> nickRe U (runes nick) \<or> (\<exists>c\<in>set nick. c \<in> set nickForbidden)) errNick
     (refuse_if (length nick > 32 \<or> length (nfd U (fold_case U (nfd U nick))) > 32) errNickLong
     (refuse_if (nickReserved U (fold_case U nick)) (''Nick '' @ nick @ '' is reserved'')
     (Inr nick)))))"

definition clean_user :: "(string \<times> json) list \<Rightarrow> goerr + string option" where
  "clean_user es = ok_then (str (field es ''User'') ''Username'') (\<lambda>(user, _).
     let user = TrimSpace user in
     if user \<noteq> '''' then refuse_if (\<not> userRe (runes user)) errUser (Inr (Some user)) else Inr None)"

definition clean_pass :: "(string \<times> json) list \<Rightarrow> goerr + string option" where
  "clean_pass es = ok_then (str (field es ''Pass'') ''Password'') (\<lambda>(pass, _).
     refuse_if (\<exists>c\<in>set pass. byte c \<in> {0x0D, 0x0A, 0}) ''Password can't contain line breaks''
     (Inr (if pass \<noteq> '''' then Some pass else None)))"

definition clean_channels :: "(string \<times> json) list \<Rightarrow> goerr + string list" where
  "clean_channels es = ok_then (list_of (field es ''Channels'') ''Channels'') (\<lambda>channels.
     case find (\<lambda>c. \<not> channelRe (runes c)) channels of
       Some c \<Rightarrow> Inl (Err (c @ '' isn't a valid channel name''))
     | None \<Rightarrow> Inr channels)"

definition clean_highlight :: "(string \<times> json) list \<Rightarrow> goerr + string list" where
  "clean_highlight es = ok_then (list_of (field es ''Highlight'') ''Highlight'') (\<lambda>highlight.
     refuse_if (list_ex controlRe highlight) ''Highlight words can't contain control characters'' (Inr highlight))"

definition clean_alias :: "(string \<times> json) list \<Rightarrow> goerr + string option" where
  "clean_alias es = ok_then (str (field es ''Alias'') ''Network alias'') (\<lambda>(alias, _).
     let alias = TrimSpace alias in
     if alias \<noteq> '''' then refuse_if (\<not> aliasRe (runes alias)) errAlias (Inr (Some alias)) else Inr None)"

text \<open>\<^verbatim>\<open>Decode\<close>: a JSON value with its numbers as written, \<open>None\<close> on an error.\<close>

definition Decode :: "string \<Rightarrow> json option" where
  "Decode raw = decode_first raw"

definition Clean :: "unicode \<Rightarrow> string \<Rightarrow> goerr + config" where
  "Clean U raw = (case Decode raw of
     None \<Rightarrow> Inl (Err ''Invalid connection settings'')
   | Some (JObject es) \<Rightarrow>
       ok_then (clean_host U es) (\<lambda>host.
       ok_then (clean_port es) (\<lambda>port.
       ok_then (clean_nick U es) (\<lambda>nick.
       ok_then (clean_user es) (\<lambda>user.
       ok_then (clean_pass es) (\<lambda>pass.
       ok_then (clean_channels es) (\<lambda>channels.
       ok_then (clean_highlight es) (\<lambda>highlight.
       ok_then (clean_alias es) (\<lambda>alias.
       ok_then (boolean (field es ''Ssl'') ''Ssl'') (\<lambda>ssl.
       ok_then (boolean (field es ''SASL'') ''SASL'') (\<lambda>sasl.
       Inr \<lparr>Host = host, Port = port, Nick = nick, UserName = user, Pass = pass, Channels = channels,
         Highlight = highlight, Alias = alias, Ssl = ssl, SASL = sasl\<rparr>))))))))))
   | Some _ \<Rightarrow> Inl (Err ''Host is required''))"

text \<open>\<^verbatim>\<open>Display\<close>: \<open>None\<close> is \<^verbatim>\<open>ok\<close> false.\<close>

fun Display :: "json \<Rightarrow> string option" where
  "Display (JString s) = Some s"
| "Display (JNumber l) = Some l"
| "Display _ = None"

section \<open>IP addresses: net/netip\<close>

text \<open>An address as a number; a zone makes an IPv6 address one that is always blocked.\<close>

datatype addr = V4 int | V6 int string

text \<open>\<^verbatim>\<open>parseIPv4Fields\<close>: four decimal fields without leading zeros, each at most 255.\<close>

definition v4_field :: "string \<Rightarrow> int option" where
  "v4_field p =
     (if p = '''' \<or> \<not> list_all is_digit p \<or> (length p > 1 \<and> hd p = CHR ''0'') \<or> digits_int p > 255 then None
      else Some (digits_int p))"

definition parseIPv4 :: "string \<Rightarrow> int option" where
  "parseIPv4 s = (case map v4_field (split_on CHR ''.'' s) of
     [Some a, Some b, Some c, Some d] \<Rightarrow> Some (((a * 256 + b) * 256 + c) * 256 + d)
   | _ \<Rightarrow> None)"

text \<open>The hexadecimal digits of a group (of one byte characters).\<close>

definition hex_run :: "string \<Rightarrow> string" where
  "hex_run s = takeWhile (\<lambda>c. hex4_digit c \<noteq> None) s"

definition hex_group :: "string \<Rightarrow> int" where
  "hex_group g = foldl (\<lambda>n c. 16 * n + int (the (hex4_digit c))) 0 g"

text \<open>
  The loop of \<^verbatim>\<open>parseIPv6\<close>: \<open>k\<close> more groups of the eight may follow, \<open>gs\<close> are those read,
  \<open>ell\<close> is where the ellipsis was. It gives the groups, the ellipsis and what is left.
\<close>

fun v6_loop :: "nat \<Rightarrow> int list \<Rightarrow> nat option \<Rightarrow> string \<Rightarrow> (int list \<times> nat option \<times> string) option" where
  "v6_loop 0 gs ell s = Some (gs, ell, s)"
| "v6_loop (Suc k) gs ell s =
     (let g = hex_run s; r = drop (length g) s in
      if g = '''' \<or> length g > 4 then None
      else if r \<noteq> '''' \<and> hd r = CHR ''.'' then
        (if ell = None \<and> k \<noteq> 1 then None
         else if k = 0 then None
         else (case parseIPv4 s of
             None \<Rightarrow> None
           | Some n \<Rightarrow> Some (gs @ [n div 65536, n mod 65536], ell, '''')))
      else (let gs = gs @ [hex_group g] in
        if r = '''' then Some (gs, ell, '''')
        else if hd r \<noteq> CHR '':'' then None
        else if length r = 1 then None
        else (let r = tl r in
          if hd r = CHR '':'' then
            (if ell \<noteq> None then None
             else if length r = 1 then Some (gs, Some (length gs), '''')
             else v6_loop k gs (Some (length gs)) (tl r))
          else v6_loop k gs ell r)))"

text \<open>After the loop: nothing may be left, and an ellipsis stands for at least one group.\<close>

definition v6_value :: "int list \<Rightarrow> int" where
  "v6_value gs = foldl (\<lambda>n g. 65536 * n + g) 0 gs"

definition v6_finish :: "int list \<times> nat option \<times> string \<Rightarrow> int option" where
  "v6_finish x = (case x of (gs, ell, s) \<Rightarrow>
     if s \<noteq> '''' then None
     else if length gs < 8 then
       (case ell of None \<Rightarrow> None
        | Some e \<Rightarrow> Some (v6_value (take e gs @ replicate (8 - length gs) 0 @ drop e gs)))
     else if ell \<noteq> None then None
     else Some (v6_value gs))"

definition parseIPv6 :: "string \<Rightarrow> addr option" where
  "parseIPv6 s0 =
     (case cut s0 CHR ''%'' of (s, zone, found) \<Rightarrow>
        if found \<and> zone = '''' then None
        else map_option (\<lambda>n. V6 n zone)
          (if has_prefix s ''::'' then
             (if length s = 2 then Some 0
              else Option.bind (v6_loop 8 [] (Some 0) (drop 2 s)) v6_finish)
           else Option.bind (v6_loop 8 [] None s) v6_finish))"

text \<open>\<^verbatim>\<open>ParseAddr\<close>: the first of a dot, a colon and a percent sign says what it is.\<close>

definition ParseAddr :: "string \<Rightarrow> addr option" where
  "ParseAddr s = (case filter (\<lambda>c. c \<in> {CHR ''.'', CHR '':'', CHR ''%''}) s of
     [] \<Rightarrow> None
   | c # _ \<Rightarrow>
       if c = CHR ''.'' then map_option V4 (parseIPv4 s)
       else if c = CHR '':'' then parseIPv6 s
       else None)"

text \<open>\<^verbatim>\<open>Unmap\<close>: an IPv4-mapped IPv6 address as the IPv4 address.\<close>

fun Unmap :: "addr \<Rightarrow> addr" where
  "Unmap (V6 n z) = (if n div 2 ^ 32 = 0xFFFF then V4 (n mod 2 ^ 32) else V6 n z)"
| "Unmap (V4 n) = V4 n"

text \<open>A prefix is an address and a length; \<^verbatim>\<open>Contains\<close> (an address with a zone is in none).\<close>

fun prefix_contains :: "addr \<times> nat \<Rightarrow> addr \<Rightarrow> bool" where
  "prefix_contains (V4 p, b) (V4 n) \<longleftrightarrow> p div 2 ^ (32 - b) = n div 2 ^ (32 - b)"
| "prefix_contains (V6 p _, b) (V6 n z) \<longleftrightarrow> z = '''' \<and> p div 2 ^ (128 - b) = n div 2 ^ (128 - b)"
| "prefix_contains _ _ \<longleftrightarrow> False"

definition MustParsePrefix :: "string \<Rightarrow> addr \<times> nat" where
  "MustParsePrefix s = (case cut s CHR ''/'' of (a, b, _) \<Rightarrow> (the (ParseAddr a), nat (digits_int b)))"

definition blocked :: "(addr \<times> nat) list" where
  "blocked = map MustParsePrefix
     [''0.0.0.0/8'', ''10.0.0.0/8'', ''100.64.0.0/10'', ''127.0.0.0/8'', ''169.254.0.0/16'',
      ''172.16.0.0/12'', ''192.0.0.0/24'', ''192.168.0.0/16'', ''198.18.0.0/15'', ''224.0.0.0/4'',
      ''240.0.0.0/4'',
      ''::/128'', ''::1/128'', ''fc00::/7'', ''fe80::/10'', ''ff00::/8'', ''64:ff9b::/96'']"

fun Zone :: "addr \<Rightarrow> string" where
  "Zone (V6 n z) = z"
| "Zone (V4 n) = ''''"

fun Is6 :: "addr \<Rightarrow> bool" where
  "Is6 (V6 n z) = True"
| "Is6 (V4 n) = False"

definition BlockedIP :: "string \<Rightarrow> bool" where
  "BlockedIP ip = (case ParseAddr ip of
     None \<Rightarrow> True
   | Some a \<Rightarrow>
       if Zone a \<noteq> '''' then True
       else if (CHR '':'' \<in> set ip) \<noteq> Is6 a then True
       else list_ex (\<lambda>p. prefix_contains p (Unmap a)) blocked)"

section \<open>Exempt and CheckHost\<close>

text \<open>
  \<^verbatim>\<open>perlInt\<close>: the number \<^verbatim>\<open>numPrefix\<close> matches, truncated. The optional exponent needs a digit.
\<close>

definition perl_ws :: "char \<Rightarrow> bool" where
  "perl_ws c \<longleftrightarrow> byte c \<in> {32, 9, 10, 13, 12, 11}"

definition perlInt :: "string \<Rightarrow> int" where
  "perlInt s0 =
     (let s = dropWhile perl_ws s0;
          neg = (s \<noteq> '''' \<and> hd s = CHR ''-'');
          s = (if s \<noteq> '''' \<and> (hd s = CHR ''-'' \<or> hd s = CHR ''+'') then tl s else s);
          i = takeWhile is_digit s; r = dropWhile is_digit s;
          dot = (r \<noteq> '''' \<and> hd r = CHR ''.'');
          f = (if dot then takeWhile is_digit (tl r) else '''');
          r = (if dot then dropWhile is_digit (tl r) else r);
          e = (if r \<noteq> '''' \<and> (hd r = CHR ''e'' \<or> hd r = CHR ''E'') then
                 (let t = tl r; sign = (if t \<noteq> '''' \<and> (hd t = CHR ''-'' \<or> hd t = CHR ''+'') then [hd t] else '''');
                      ds = takeWhile is_digit (drop (length sign) t)
                  in if ds = '''' then '''' else hd r # sign @ ds)
               else '''')
      in if i = '''' \<and> f = '''' then 0
         else (case to_float (decimal_value i f (exponent_value e)) of (n, d) \<Rightarrow>
           if neg then - (n div d) else n div d))"

definition Exempt :: "unicode \<Rightarrow> (string \<Rightarrow> string) \<Rightarrow> string \<Rightarrow> int \<Rightarrow> bool" where
  "Exempt U getenv host port =
     (let def = getenv ''DEFAULT_NETWORK_HOST'' in
      if def = '''' then False
      else (let p = getenv ''DEFAULT_NETWORK_PORT'';
                p = (if p = '''' \<or> p = ''0'' then ''6667'' else p)
        in to_lower U host = to_lower U def \<and> port = perlInt p))"

definition CheckHost :: "unicode \<Rightarrow> (string \<Rightarrow> string) \<Rightarrow> string \<Rightarrow> int \<Rightarrow> (goerr + unit) prog" where
  "CheckHost U getenv host port =
     (if Exempt U getenv host port then return ()
      else bind (if ipv4Literal host then return [host] else resolve_host host) (\<lambda>got.
        let ips = (case got of Inl _ \<Rightarrow> [] | Inr ips \<Rightarrow> ips) in
        if ips = [] then raise (Err (''Couldn't find host '' @ host))
        else if list_ex BlockedIP ips then raise (Err (''Host '' @ host @ '' points to a private address''))
        else return ()))"

section \<open>Decimal numbers\<close>

lemma byte_digit_char: "d < 10 \<Longrightarrow> byte (digit_char d) = 48 + d"
  by (simp add: digit_char_def)

lemma digits_int_snoc: "digits_int (s @ [c]) = 10 * digits_int s + (int (byte c) - 48)"
  by (simp add: digits_int_def)

lemma show_nat_digits: "list_all is_digit (show_nat n) \<and> digits_int (show_nat n) = int n"
proof (induction n rule: show_nat.induct)
  case (1 n)
  show ?case
  proof (cases "n < 10")
    case True
    then have s: "show_nat n = [digit_char n]" by (simp add: show_nat.simps)
    then have "digits_int (show_nat n) = int n" using True by (simp add: digits_int_def byte_digit_char)
    then show ?thesis using True by (simp add: s is_digit_def byte_digit_char)
  next
    case False
    then have s: "show_nat n = show_nat (n div 10) @ [digit_char (n mod 10)]" by (subst show_nat.simps) simp
    have b: "byte (digit_char (n mod 10)) = 48 + n mod 10" by (rule byte_digit_char) simp
    have "10 * int (n div 10) + int (n mod 10) = int (10 * (n div 10) + n mod 10)" by (simp only: of_nat_add of_nat_mult of_nat_numeral)
    then have "10 * int (n div 10) + int (n mod 10) = int n" by (simp only: mult_div_mod_eq)
    moreover have "n mod 10 \<le> 9" using mod_less_divisor [of 10 n] by linarith
    ultimately show ?thesis using 1 [OF False] unfolding s digits_int_snoc by (simp add: b is_digit_def)
  qed
qed

lemma show_nat_first: "1 < length (show_nat n) \<Longrightarrow> hd (show_nat n) \<noteq> CHR ''0''"
proof (induction n rule: show_nat.induct)
  case (1 n)
  then have n: "\<not> n < 10" by (auto simp: show_nat.simps [of n] split: if_splits)
  then have s: "show_nat n = show_nat (n div 10) @ [digit_char (n mod 10)]" by (subst show_nat.simps) simp
  show ?case
  proof (cases "n div 10 < 10")
    case True
    then have "show_nat (n div 10) = [digit_char (n div 10)]" by (simp add: show_nat.simps)
    moreover have "digit_char (n div 10) \<noteq> CHR ''0''"
    proof
      assume "digit_char (n div 10) = CHR ''0''"
      then have "byte (digit_char (n div 10)) = 48" by (simp add: byte_simps)
      with True n show False by (simp add: byte_digit_char)
    qed
    ultimately show ?thesis by (simp add: s)
  next
    case False
    then have "1 < length (show_nat (n div 10))" by (subst show_nat.simps) (auto simp: Suc_lessI)
    with 1 n s show ?thesis by simp
  qed
qed

lemma length_show_nat: "n < 256 \<Longrightarrow> length (show_nat n) \<le> 3"
proof -
  assume "n < 256"
  then have "n div 10 < 100 \<and> n div 10 div 10 < 10" by (simp add: div_less_iff_less_mult)
  then show ?thesis
    by (simp add: show_nat.simps [of n] show_nat.simps [of "n div 10"] show_nat.simps [of "n div 10 div 10"])
qed

section \<open>Which addresses are blocked\<close>

definition dotted :: "nat \<Rightarrow> nat \<Rightarrow> nat \<Rightarrow> nat \<Rightarrow> string" where
  "dotted a b c d = show_nat a @ ''.'' @ show_nat b @ ''.'' @ show_nat c @ ''.'' @ show_nat d"

definition v4_number :: "nat \<Rightarrow> nat \<Rightarrow> nat \<Rightarrow> nat \<Rightarrow> int" where
  "v4_number a b c d = ((int a * 256 + int b) * 256 + int c) * 256 + int d"

lemma digit_not: "is_digit x \<Longrightarrow> x \<noteq> CHR ''.'' \<and> x \<noteq> CHR '':'' \<and> x \<noteq> CHR ''%'' \<and> hex4_digit x \<noteq> None"
  by (auto simp: is_digit_def hex4_digit_def byte_simps)

lemma no_dot: "CHR ''.'' \<notin> set (show_nat n)" "CHR '':'' \<notin> set (show_nat n)" "CHR ''%'' \<notin> set (show_nat n)"
  using show_nat_digits [of n] digit_not unfolding list_all_iff by blast+

lemma v4_field_show: "n < 256 \<Longrightarrow> v4_field (show_nat n) = Some (int n)"
  using show_nat_digits [of n] show_nat_first [of n] by (auto simp: v4_field_def)

lemma parseIPv4_dotted:
  assumes "a < 256" "b < 256" "c < 256" "d < 256"
  shows "parseIPv4 (dotted a b c d) = Some (v4_number a b c d)"
  using assms by (simp add: parseIPv4_def dotted_def split_on_append split_on_none no_dot v4_field_show v4_number_def)

lemma filter_marks: "filter (\<lambda>c. c = CHR ''.'' \<or> c = CHR '':'' \<or> c = CHR ''%'') (show_nat a) = []"
  unfolding filter_empty_conv using no_dot [of a] by blast

lemma ParseAddr_dotted:
  assumes "a < 256" "b < 256" "c < 256" "d < 256"
  shows "ParseAddr (dotted a b c d) = Some (V4 (v4_number a b c d))"
  unfolding ParseAddr_def using parseIPv4_dotted [OF assms] by (simp add: dotted_def filter_marks)

lemma blocked_eval: "blocked =
    [(V4 0, 8), (V4 167772160, 8), (V4 1681915904, 10), (V4 2130706432, 8), (V4 2851995648, 16), (V4 2886729728, 12),
     (V4 3221225472, 24), (V4 3232235520, 16), (V4 3323068416, 15), (V4 3758096384, 4), (V4 4026531840, 4),
     (V6 0 '''', 128), (V6 1 '''', 128), (V6 334965454937798799971759379190646833152 '''', 7),
     (V6 338288524927261089654018896841347694592 '''', 10), (V6 338953138925153547590470800371487866880 '''', 8),
     (V6 524413980667603649783483181312245760 '''', 96)]"
  by code_simp

text \<open>The IPv4 ranges of the list, by the four numbers of a dotted address.\<close>

definition private_v4 :: "nat \<Rightarrow> nat \<Rightarrow> nat \<Rightarrow> bool" where
  "private_v4 a b c \<longleftrightarrow> a = 0 \<or> a = 10 \<or> a = 100 \<and> 64 \<le> b \<and> b < 128 \<or> a = 127 \<or> a = 169 \<and> b = 254 \<or>
     a = 172 \<and> 16 \<le> b \<and> b < 32 \<or> a = 192 \<and> b = 0 \<and> c = 0 \<or> a = 192 \<and> b = 168 \<or>
     a = 198 \<and> (b = 18 \<or> b = 19) \<or> 224 \<le> a"

lemma v4_number_div:
  assumes "a < 256" "b < 256" "c < 256" "d < 256"
  shows "v4_number a b c d div 16777216 = int a" "v4_number a b c d div 4194304 = 4 * int a + int b div 64"
    "v4_number a b c d div 1048576 = 16 * int a + int b div 16" "v4_number a b c d div 65536 = 256 * int a + int b"
    "v4_number a b c d div 131072 = 128 * int a + int b div 2" "v4_number a b c d div 268435456 = int a div 16"
    "v4_number a b c d div 256 = 65536 * int a + 256 * int b + int c"
  using assms unfolding v4_number_def by simp_all

lemma split_digits: "n = k * x + y \<longleftrightarrow> x = n div k \<and> y = n mod k" if "0 \<le> y" "y < k" for n k x y :: int
proof
  assume n: "n = k * x + y"
  then have "n div k = x" using that int_div_pos_eq [of n k x y] by simp
  moreover from n have "n mod k = y" using that int_mod_pos_eq [of n k x y] by simp
  ultimately show "x = n div k \<and> y = n mod k" by simp
next
  assume "x = n div k \<and> y = n mod k"
  then show "n = k * x + y" by simp
qed

lemma blocked_v4:
  assumes "a < 256" "b < 256" "c < 256" "d < 256"
  shows "list_ex (\<lambda>p. prefix_contains p (V4 (v4_number a b c d))) blocked \<longleftrightarrow> private_v4 a b c"
proof -
  have q: "0 \<le> int b div 64" "int b div 64 \<le> 3" "0 \<le> int b div 16" "int b div 16 \<le> 15" "0 \<le> int b div 2" "int b div 2 \<le> 127"
    using assms(2) by simp_all
  have split: "401 = 4 * x + y \<longleftrightarrow> x = 100 \<and> y = 1" if "0 \<le> y" "y \<le> 3" for x y :: int
    using split_digits [of y 4 401 x] that by simp
  have split2: "2753 = 16 * x + y \<longleftrightarrow> x = 172 \<and> y = 1" if "0 \<le> y" "y \<le> 15" for x y :: int
    using split_digits [of y 16 2753 x] that by simp
  have split3: "25353 = 128 * x + y \<longleftrightarrow> x = 198 \<and> y = 9" if "0 \<le> y" "y \<le> 127" for x y :: int
    using split_digits [of y 128 25353 x] that by simp
  have split4: "43518 = 256 * x + y \<longleftrightarrow> x = 169 \<and> y = 254" "49320 = 256 * x + y \<longleftrightarrow> x = 192 \<and> y = 168"
    if "0 \<le> y" "y < 256" for x y :: int
    using split_digits [of y 256 43518 x] split_digits [of y 256 49320 x] that by simp_all
  have split5: "12582912 = 65536 * x + 256 * y + z \<longleftrightarrow> x = 192 \<and> y = 0 \<and> z = 0"
    if "0 \<le> y" "y < 256" "0 \<le> z" "z < 256" for x y z :: int
  proof -
    have "x = 192 \<and> y = 0 \<and> z = 0" if e: "12582912 = 65536 * x + 256 * y + z"
    proof -
      have "x < 193" "191 < x" using e \<open>0 \<le> y\<close> \<open>y < 256\<close> \<open>0 \<le> z\<close> \<open>z < 256\<close> by linarith+
      then have "x = 192" by simp
      with e \<open>0 \<le> y\<close> \<open>0 \<le> z\<close> show ?thesis by simp
    qed
    then show ?thesis by auto
  qed
  have p: "x div k = n \<longleftrightarrow> k * n \<le> x \<and> x < k * n + k" if "0 < k" for x k n :: int
  proof
    assume "x div k = n"
    then have n: "n = x div k" by simp
    have "k * (x div k) \<le> x" "x < k * (x div k) + k"
      using mult_div_mod_eq [of k x] pos_mod_sign [OF that, of x] pos_mod_bound [OF that, of x] by linarith+
    then show "k * n \<le> x \<and> x < k * n + k" unfolding n by blast
  next
    assume "k * n \<le> x \<and> x < k * n + k"
    then show "x div k = n" using that int_div_pos_eq [of x k n "x - k * n"] by simp
  qed
  have part: "int b div 64 = 1 \<longleftrightarrow> 64 \<le> b \<and> b < 128" "int b div 16 = 1 \<longleftrightarrow> 16 \<le> b \<and> b < 32" "int b div 2 = 9 \<longleftrightarrow> b = 18 \<or> b = 19"
    unfolding p [of 64, simplified] p [of 16, simplified] p [of 2, simplified] by auto
  have arith2: "401 = 4 * int a + int b div 64 \<longleftrightarrow> a = 100 \<and> 64 \<le> b \<and> b < 128"
    unfolding split [OF q(1,2)] part(1) int_eq_iff_numeral by (rule refl)
  have arith3: "2753 = 16 * int a + int b div 16 \<longleftrightarrow> a = 172 \<and> 16 \<le> b \<and> b < 32"
    unfolding split2 [OF q(3,4)] part(2) int_eq_iff_numeral by (rule refl)
  have arith4: "25353 = 128 * int a + int b div 2 \<longleftrightarrow> a = 198 \<and> (b = 18 \<or> b = 19)"
    unfolding split3 [OF q(5,6)] part(3) int_eq_iff_numeral by (rule refl)
  have small: "0 \<le> int b" "int b < 256" "0 \<le> int c" "int c < 256" using assms by simp_all
  have arith5: "43518 = 256 * int a + int b \<longleftrightarrow> a = 169 \<and> b = 254" "49320 = 256 * int a + int b \<longleftrightarrow> a = 192 \<and> b = 168"
    unfolding split4 [OF small(1,2)] int_eq_iff_numeral by (rule refl)+
  have arith6: "12582912 = 65536 * int a + 256 * int b + int c \<longleftrightarrow> a = 192 \<and> b = 0 \<and> c = 0"
    unfolding split5 [OF small] int_eq_iff_numeral of_nat_eq_0_iff by (rule refl)
  have arith7: "14 = int a div 16 \<or> 15 = int a div 16 \<longleftrightarrow> 224 \<le> a"
    unfolding eq_commute [of _ "int a div 16"] p [of 16, simplified] using assms(1) by auto
  note v = v4_number_div [OF assms]
  show ?thesis unfolding blocked_eval private_v4_def
    apply (simp add: v)
    apply (simp only: arith2 [unfolded eq_commute [of "401::int"]] arith3 [unfolded eq_commute [of "2753::int"]]
      arith4 [unfolded eq_commute [of "25353::int"]] arith5 [unfolded eq_commute [of "43518::int"] eq_commute [of "49320::int"]]
      arith6 [unfolded eq_commute [of "12582912::int"]] arith7 [unfolded eq_commute [of "14::int"] eq_commute [of "15::int"]])
    done
qed

lemma cut_none: "c \<notin> set s \<Longrightarrow> cut s c = (s, '''', False)"
  by (induction s) (auto simp: cut_def)

section \<open>What is blocked, and what Clean lets through\<close>

lemma hex_run_dotted: "hex_run (show_nat a @ CHR ''.'' # s) = show_nat a"
  unfolding hex_run_def using show_nat_digits [of a] digit_not
  by (subst takeWhile_append2) (auto simp: list_all_iff hex4_digit_def byte_simps)

lemma v6_loop_dotted:
  assumes "a < 256" "b < 256" "c < 256" "d < 256" "1 < k"
  shows "v6_loop k gs (Some e) (dotted a b c d) =
    Some (gs @ [v4_number a b c d div 65536, v4_number a b c d mod 65536], Some e, '''')"
proof -
  obtain j where k: "k = Suc j" "j \<noteq> 0" using assms(5) by (cases k) auto
  have r: "hex_run (dotted a b c d) = show_nat a" by (simp add: dotted_def hex_run_dotted)
  have dr: "drop (length (show_nat a)) (dotted a b c d) = CHR ''.'' # show_nat b @ ''.'' @ show_nat c @ ''.'' @ show_nat d"
    by (simp add: dotted_def)
  have "length (show_nat a) \<le> 3" using assms(1) by (rule length_show_nat)
  moreover have "show_nat a \<noteq> ''''" by (subst show_nat.simps) simp
  ultimately show ?thesis using parseIPv4_dotted [OF assms(1-4)] k by (simp add: r dr Let_def)
qed

lemma ParseAddr_mapped:
  assumes "a < 256" "b < 256" "c < 256" "d < 256"
  shows "ParseAddr (''::ffff:'' @ dotted a b c d) = Some (V6 (65535 * 2 ^ 32 + v4_number a b c d) '''')"
proof -
  have d0: "dotted a b c d \<noteq> ''''" "hd (dotted a b c d) \<noteq> CHR '':''"
  proof -
    have "show_nat a \<noteq> ''''" by (subst show_nat.simps) simp
    then obtain x xs where "show_nat a = x # xs" by (cases "show_nat a") auto
    then show "dotted a b c d \<noteq> ''''" "hd (dotted a b c d) \<noteq> CHR '':''"
      using no_dot(2) [of a] by (auto simp: dotted_def)
  qed
  have cut: "cut (''::ffff:'' @ dotted a b c d) CHR ''%'' = (''::ffff:'' @ dotted a b c d, '''', False)"
    using no_dot(3) by (simp add: cut_none dotted_def)
  have hr: "hex_run (''ffff:'' @ s) = ''ffff''" for s by (simp add: hex_run_def hex4_digit_def byte_simps)
  have "v6_loop 8 [] (Some 0) (''ffff:'' @ dotted a b c d) = v6_loop 7 [65535] (Some 0) (dotted a b c d)"
    using d0 hr by (simp add: numeral_eq_Suc Let_def hex_group_def hex4_digit_def byte_simps)
  moreover have "v6_loop 7 [65535] (Some 0) (dotted a b c d) =
      Some ([65535] @ [v4_number a b c d div 65536, v4_number a b c d mod 65536], Some 0, '''')"
    by (rule v6_loop_dotted [OF assms]) simp
  moreover have "65536 * (n div 65536) + n mod 65536 = n" for n :: int by simp
  moreover have zeros: "replicate 5 (0 :: int) = [0, 0, 0, 0, 0]" by (simp add: numeral_eq_Suc)
  ultimately have "Option.bind (v6_loop 8 [] (Some 0) (''ffff:'' @ dotted a b c d)) v6_finish =
      Some (65535 * 2 ^ 32 + v4_number a b c d)"
    by (simp add: v6_finish_def v6_value_def zeros)
  then have "parseIPv6 (''::ffff:'' @ dotted a b c d) = Some (V6 (65535 * 2 ^ 32 + v4_number a b c d) '''')"
    using d0(1) cut by (simp add: parseIPv6_def)
  then show ?thesis by (simp add: ParseAddr_def)
qed

lemma Unmap_mapped:
  assumes "a < 256" "b < 256" "c < 256" "d < 256"
  shows "Unmap (V6 (65535 * 2 ^ 32 + v4_number a b c d) '''') = V4 (v4_number a b c d)"
proof -
  have "0 \<le> v4_number a b c d" "v4_number a b c d < 2 ^ 32" using assms by (simp_all add: v4_number_def)
  then have "(65535 * 2 ^ 32 + v4_number a b c d) div 2 ^ 32 = 65535" "(65535 * 2 ^ 32 + v4_number a b c d) mod 2 ^ 32 = v4_number a b c d"
    using int_div_pos_eq [of _ "2 ^ 32" 65535 "v4_number a b c d"] int_mod_pos_eq [of _ "2 ^ 32" 65535 "v4_number a b c d"]
    by (simp_all only: mult.commute [of "2 ^ 32 :: int"] refl)
  then show ?thesis by simp
qed

lemma BlockedIP_parsed:
  "ParseAddr ip = Some a \<Longrightarrow> Zone a = '''' \<Longrightarrow> (CHR '':'' \<in> set ip) = Is6 a \<Longrightarrow>
    BlockedIP ip = list_ex (\<lambda>p. prefix_contains p (Unmap a)) blocked"
  by (simp add: BlockedIP_def)

text \<open>
  C19. An IPv4 address is blocked exactly when it is in one of the private, loopback, link-local,
  shared, benchmark, multicast or reserved ranges, and so is the same address written as an
  IPv4-mapped IPv6 address.
\<close>

theorem BlockedIP_v4:
  assumes "a < 256" "b < 256" "c < 256" "d < 256"
  shows "BlockedIP (dotted a b c d) = private_v4 a b c \<and> BlockedIP (''::ffff:'' @ dotted a b c d) = private_v4 a b c"
proof
  have colon: "CHR '':'' \<notin> set (dotted a b c d)" using no_dot(2) by (simp add: dotted_def)
  show "BlockedIP (dotted a b c d) = private_v4 a b c"
    using BlockedIP_parsed [OF ParseAddr_dotted [OF assms]] colon blocked_v4 [OF assms] by simp
  show "BlockedIP (''::ffff:'' @ dotted a b c d) = private_v4 a b c"
    using BlockedIP_parsed [OF ParseAddr_mapped [OF assms]] blocked_v4 [OF assms] unfolding Unmap_mapped [OF assms] by simp
qed

theorem BlockedIP_v4_witness: "BlockedIP ''10.1.2.3'' \<and> BlockedIP ''::ffff:169.254.0.1'' \<and> \<not> BlockedIP ''8.8.8.8''"
proof -
  have s: "show_nat 10 = ''10''" "show_nat 169 = ''169''" "show_nat 254 = ''254''" "show_nat 0 = ''0''" "show_nat (Suc 0) = ''1''"
    "show_nat 2 = ''2''" "show_nat 3 = ''3''" "show_nat 8 = ''8''"
    by (simp_all add: show_nat.simps digit_char_def byte_simps)
  show ?thesis using BlockedIP_v4 [of 10 1 2 3] BlockedIP_v4 [of 169 254 0 1] BlockedIP_v4 [of 8 8 8 8]
    by (simp add: dotted_def s private_v4_def)
qed

text \<open>
  C18. When \<open>CheckHost\<close> lets a host through that is not the exempt default network, every address a
  client could connect to was looked at and is allowed: the host is an IPv4 literal that is not blocked, or the one
  resolution it made gave addresses, none of them blocked. It never asks for anything else.
\<close>

theorem CheckHost_safe:
  assumes "runs (CheckHost U getenv host port) es (Inr ())" "\<not> Exempt U getenv host port"
  shows "ipv4Literal host \<and> es = [] \<and> \<not> BlockedIP host \<or>
    (\<exists>ips. es = [(Resolve host, Strings ips)] \<and> ips \<noteq> [] \<and> (\<forall>ip\<in>set ips. \<not> BlockedIP ip))"
proof -
  have "wp (CheckHost U getenv host port) (\<lambda>es a. a = Inr () \<longrightarrow> ipv4Literal host \<and> es = [] \<and> \<not> BlockedIP host \<or>
      (\<exists>ips. es = [(Resolve host, Strings ips)] \<and> ips \<noteq> [] \<and> (\<forall>ip\<in>set ips. \<not> BlockedIP ip))) []"
    using assms(2) by (auto simp: CheckHost_def wp_simps list_ex_iff Let_def)
  from wp_runs [OF this assms(1)] show ?thesis by blast
qed

definition plain_unicode :: unicode where
  "plain_unicode = \<lparr>graphic = (\<lambda>r. 33 \<le> r \<and> r < 127), numeric = digit_rune, fold_case = (\<lambda>s. s), nfd = (\<lambda>s. s),
     to_lower = (\<lambda>s. s)\<rparr>"

theorem CheckHost_safe_witness:
  "\<not> BlockedIP ''8.8.8.8'' \<and> (\<exists>es. runs (CheckHost plain_unicode (\<lambda>_. '''') ''example.com'' 6667) es (Inr ()))"
proof -
  have e: "\<not> Exempt plain_unicode (\<lambda>_. '''') h p" for h p by (simp add: Exempt_def)
  have b: "\<not> BlockedIP ''8.8.8.8''" by code_simp
  have "runs (CheckHost plain_unicode (\<lambda>_. '''') ''8.8.8.8'' 6667) [] (Inr ())"
    by (rule scripted.exec_runs [of _ "[]" _ _ "[]"]) code_simp
  from CheckHost_safe [OF this e] have "\<not> BlockedIP ''8.8.8.8''" by blast
  moreover have "runs (CheckHost plain_unicode (\<lambda>_. '''') ''example.com'' 6667) [(Resolve ''example.com'', Strings [''8.8.8.8''])] (Inr ())"
    by (rule scripted.exec_runs [of _ "[Strings [''8.8.8.8'']]" _ _ "[]"]) code_simp
  ultimately show ?thesis by blast
qed

end
