(* ===== verification/Settings.thy ===== *)
theory Settings
  imports Connconfig
begin

text \<open>
  What \<open>Connconfig\<close>'s \<open>Clean\<close> guarantees of the settings it lets through: no line breaks in what is
  sent to an IRC server, the bounds of every field, the ports it reads; and two inputs it accepts
  although the rules it states exclude them.
\<close>

section \<open>What Clean guarantees\<close>

lemma ok_then_Inr: "ok_then r k = Inr b \<longleftrightarrow> (\<exists>a. r = Inr a \<and> k a = Inr b)"
  by (auto simp: ok_then_def split: sum.split)

lemma refuse_if_Inr: "refuse_if b m r = Inr x \<longleftrightarrow> \<not> b \<and> r = Inr x"
  by (simp add: refuse_if_def)

lemma Clean_fields:
  assumes "Clean U raw = Inr c"
  obtains es where "clean_host U es = Inr (Host c)" "clean_port es = Inr (Port c)" "clean_nick U es = Inr (Nick c)"
    "clean_user es = Inr (UserName c)" "clean_pass es = Inr (Pass c)" "clean_channels es = Inr (Channels c)"
    "clean_highlight es = Inr (Highlight c)" "clean_alias es = Inr (Alias c)" "Decode raw = Some (JObject es)"
proof -
  obtain es where d: "Decode raw = Some (JObject es)"
    using assms by (auto simp: Clean_def split: option.splits json.splits)
  have "clean_host U es = Inr (Host c) \<and> clean_port es = Inr (Port c) \<and> clean_nick U es = Inr (Nick c) \<and>
    clean_user es = Inr (UserName c) \<and> clean_pass es = Inr (Pass c) \<and> clean_channels es = Inr (Channels c) \<and>
    clean_highlight es = Inr (Highlight c) \<and> clean_alias es = Inr (Alias c)"
    using assms unfolding Clean_def d option.case json.case ok_then_Inr by (elim exE conjE) (clarsimp simp del: split_paired_Ex)
  with d that show thesis by blast
qed

lemma clean_hostD: "clean_host U es = Inr h \<Longrightarrow> h \<noteq> '''' \<and> validHost U h"
  by (auto simp: clean_host_def ok_then_Inr refuse_if_Inr Let_def)

lemma clean_portD: "clean_port es = Inr p \<Longrightarrow> 1 \<le> p \<and> p \<le> 65535"
  by (auto simp: clean_port_def ok_then_Inr refuse_if_Inr port_of_def split: json.splits prod.splits if_splits)

lemma clean_nickD: "clean_nick U es = Inr n \<Longrightarrow>
    (\<exists>s. n = TrimSpace s) \<and> n \<noteq> '''' \<and> nickRe U (runes n) \<and> length n \<le> 32 \<and> set n \<inter> set nickForbidden = {}"
  by (auto simp: clean_nick_def ok_then_Inr refuse_if_Inr Let_def)

lemma clean_userD: "clean_user es = Inr (Some u) \<Longrightarrow> userRe (runes u)"
  by (auto simp: clean_user_def ok_then_Inr refuse_if_Inr Let_def split: if_splits)

lemma clean_passD: "clean_pass es = Inr (Some p) \<Longrightarrow> \<forall>c\<in>set p. byte c \<notin> {0x0D, 0x0A, 0}"
  by (auto simp: clean_pass_def ok_then_Inr refuse_if_Inr split: if_splits)

lemma list_ofD: "list_of v name = Inr xs \<Longrightarrow> \<forall>x\<in>set xs. x \<noteq> '''' \<and> (\<exists>s. x = TrimSpace s)"
  by (auto simp: list_of_def Let_def split: json.splits option.splits)

lemma clean_channelsD: "clean_channels es = Inr cs \<Longrightarrow> \<forall>c\<in>set cs. channelRe (runes c) \<and> c \<noteq> '''' \<and> (\<exists>s. c = TrimSpace s)"
  by (auto simp: clean_channels_def ok_then_Inr find_None_iff split: option.splits dest: list_ofD)

lemma clean_highlightD: "clean_highlight es = Inr hs \<Longrightarrow> \<forall>h\<in>set hs. \<not> controlRe h"
  by (auto simp: clean_highlight_def ok_then_Inr refuse_if_Inr list_ex_iff)

lemma clean_aliasD: "clean_alias es = Inr (Some a) \<Longrightarrow> aliasRe (runes a) \<and> a \<noteq> '''' \<and> (\<exists>s. a = TrimSpace s)"
  by (auto simp: clean_alias_def ok_then_Inr refuse_if_Inr Let_def split: if_splits)

text \<open>A string that cannot end an IRC line.\<close>

definition one_line :: "string \<Rightarrow> bool" where
  "one_line s \<longleftrightarrow> CHR 0x0D \<notin> set s \<and> CHR 0x0A \<notin> set s"

lemma one_lineI: "0x0D \<notin> set (runes s) \<Longrightarrow> 0x0A \<notin> set (runes s) \<Longrightarrow> one_line s"
  using ascii_in_runes [of "CHR 0x0D" s] ascii_in_runes [of "CHR 0x0A" s] by (auto simp: one_line_def byte_simps)

lemma upto_newline_trimmed:
  assumes "upto_newline P (runes (TrimSpace s))" "TrimSpace s \<noteq> ''''"
  shows "P (runes (TrimSpace s))"
proof -
  have "last (runes (TrimSpace s)) \<noteq> 0x0A"
    using last_rune [OF assms(2)] TrimSpace_last [OF assms(2)] by force
  then show ?thesis using assms(1) by (simp add: upto_newline_def)
qed

lemma aliasRe_trimmed:
  assumes "aliasRe (runes (TrimSpace s))" "TrimSpace s \<noteq> ''''"
  shows "length (runes (TrimSpace s)) \<le> 32 \<and> list_all (\<lambda>r. 0x20 \<le> r) (runes (TrimSpace s))"
  using upto_newline_trimmed [OF assms(1) [unfolded aliasRe_def] assms(2)]
  by (auto simp: list_all_iff alnum_rune_def digit_rune_def)

lemma channelRe_trimmed:
  assumes "channelRe (runes s)" "s \<noteq> ''''" "s = TrimSpace t"
  shows "2 \<le> length (runes s) \<and> length (runes s) \<le> 200 \<and> hd (runes s) \<in> byte ` set ''#&+!'' \<and>
    list_all channel_rune (tl (runes s))"
proof -
  obtain r q where rq: "runes s = r # q" using assms(1) by (auto simp: channelRe_def split: list.splits)
  have l: "last (runes s) \<noteq> 0x0A" using last_rune [OF assms(2)] TrimSpace_last [of t] assms(3) assms(2) by force
  have "r \<in> set (map byte ''#&+!'')" "upto_newline (\<lambda>q. 1 \<le> length q \<and> length q \<le> 199 \<and> list_all channel_rune q) q"
    using assms(1) by (simp_all add: channelRe_def rq)
  moreover from this(2) have "1 \<le> length q \<and> length q \<le> 199 \<and> list_all channel_rune q"
    using l by (auto simp: upto_newline_def rq split: if_splits)
  ultimately show ?thesis by (simp add: rq)
qed

text \<open>
  C17. No cleaned setting that is sent on a line of the IRC protocol (nick, user name, password,
  channels, highlight words, alias) has a CR or LF in it, so none can end the line and start
  another command. What is assumed of Unicode is that CR and LF are not graphic characters.
\<close>

theorem Clean_one_line:
  assumes "Clean U raw = Inr c" "\<not> graphic U 0x0D" "\<not> graphic U 0x0A"
  shows "\<forall>s \<in> {Nick c} \<union> set_option (UserName c) \<union> set_option (Pass c) \<union> set (Channels c) \<union> set (Highlight c) \<union>
    set_option (Alias c). one_line s"
proof -
  from assms(1) obtain es where f: "clean_nick U es = Inr (Nick c)"
    "clean_user es = Inr (UserName c)" "clean_pass es = Inr (Pass c)" "clean_channels es = Inr (Channels c)"
    "clean_highlight es = Inr (Highlight c)" "clean_alias es = Inr (Alias c)" by (rule Clean_fields)
  have nick: "one_line (Nick c)"
  proof (rule one_lineI)
    obtain t where n: "Nick c = TrimSpace t" "Nick c \<noteq> ''''" "nickRe U (runes (Nick c))" using clean_nickD f(1) by blast
    then obtain r q where rq: "runes (Nick c) = r # q" "list_all (graphic U) q" by (auto simp: nickRe_def split: list.splits)
    have "byte (hd (Nick c)) \<notin> {9, 10, 11, 12, 13, 32}" using TrimSpace_first [of t] n(1,2) by simp
    moreover have "r < 128 \<Longrightarrow> byte (hd (Nick c)) = r" using first_rune [OF n(2)] rq(1) by simp
    ultimately have "r \<noteq> 0x0D \<and> r \<noteq> 0x0A" by force
    with rq assms(2,3) show "0x0D \<notin> set (runes (Nick c))" "0x0A \<notin> set (runes (Nick c))" by (auto simp: list_all_iff)
  qed
  have user: "one_line u" if "UserName c = Some u" for u
  proof (rule one_lineI)
    have u: "userRe (runes u)" using clean_userD f(2) that by simp
    then obtain r q where "runes u = r # q" by (auto simp: userRe_def split: list.splits)
    with u show "0x0D \<notin> set (runes u)" "0x0A \<notin> set (runes u)" by (auto simp: userRe_def list_all_iff)
  qed
  have pass: "one_line p" if "Pass c = Some p" for p
    using clean_passD [of es p] f(3) that by (force simp: one_line_def byte_simps)
  have channel: "one_line s" if "s \<in> set (Channels c)" for s
  proof (rule one_lineI)
    have s: "channelRe (runes s)" "s \<noteq> ''''" "\<exists>t. s = TrimSpace t" using clean_channelsD [OF f(4)] that by blast+
    obtain t where t: "s = TrimSpace t" using s(3) by blast
    obtain r q where rq: "runes s = r # q" using s(2) by (cases "runes s") auto
    have "r \<in> byte ` set ''#&+!''" "list_all channel_rune q" using channelRe_trimmed [OF s(1,2) t] by (simp_all add: rq)
    then have "\<forall>x\<in>set q. 0x20 \<le> x" "0x20 \<le> r" by (auto simp: list_all_iff channel_rune_def byte_simps)
    then show "0x0D \<notin> set (runes s)" "0x0A \<notin> set (runes s)" unfolding rq by (fastforce simp del: byte_simps)+
  qed
  have highlight: "one_line s" if "s \<in> set (Highlight c)" for s
  proof -
    have "\<forall>r\<in>set (runes s). \<not> r \<le> 0x1F" using clean_highlightD [OF f(5)] that by (simp add: controlRe_def)
    then show ?thesis by (intro one_lineI) force+
  qed
  have aka: "one_line s" if "Alias c = Some s" for s
  proof (rule one_lineI)
    have s: "aliasRe (runes s) \<and> s \<noteq> '''' \<and> (\<exists>t. s = TrimSpace t)" using f(6) that by (intro clean_aliasD) simp
    then obtain t where "s = TrimSpace t" by blast
    with s have "\<forall>r\<in>set (runes s). 0x20 \<le> r" using aliasRe_trimmed [of t] by (simp add: list_all_iff)
    then show "0x0D \<notin> set (runes s)" "0x0A \<notin> set (runes s)" by force+
  qed
  show ?thesis using nick user pass channel highlight aka by (auto simp: elem_set)
qed

lemma spaces_code [code]:
  "spaces = [[CHR 0x09], [CHR 0x0A], [CHR 0x0B], [CHR 0x0C], [CHR 0x0D], '' '', [CHR 0xC2, CHR 0x85], [CHR 0xC2, CHR 0xA0],
     [CHR 0xE1, CHR 0x9A, CHR 0x80]] @ map (\<lambda>c. [CHR 0xE2, CHR 0x80, c]) [CHR 0x80, CHR 0x81, CHR 0x82, CHR 0x83, CHR 0x84,
     CHR 0x85, CHR 0x86, CHR 0x87, CHR 0x88, CHR 0x89, CHR 0x8A, CHR 0xA8, CHR 0xA9, CHR 0xAF] @
     [[CHR 0xE2, CHR 0x81, CHR 0x9F], [CHR 0xE3, CHR 0x80, CHR 0x80]]"
  unfolding spaces_def space_runes_def by (simp add: encode_rune_def scalar_def surrogate_def byte_simps)

lemma strip_same: "\<forall>p\<in>set ps. \<not> has_prefix s p \<Longrightarrow> strip_fuel n ps s = s"
proof (cases n)
  case (Suc m)
  moreover assume "\<forall>p\<in>set ps. \<not> has_prefix s p"
  then have "find (has_prefix s) ps = None" by (simp add: find_None_iff)
  ultimately show ?thesis by simp
qed simp

definition plain_char :: "char \<Rightarrow> bool" where
  "plain_char c \<longleftrightarrow> 33 \<le> byte c \<and> byte c < 127"

lemma TrimSpace_plain: "plain_char (hd s) \<Longrightarrow> plain_char (last s) \<Longrightarrow> s \<noteq> '''' \<Longrightarrow> TrimSpace s = s"
proof -
  assume c: "plain_char (hd s)" "plain_char (last s)" "s \<noteq> ''''"
  have p: "\<forall>p\<in>set spaces. \<not> plain_char (hd p) \<and> \<not> plain_char (last p) \<and> p \<noteq> ''''"
    by (simp add: spaces_code plain_char_def byte_simps)
  have "\<not> has_prefix s p" if "p \<in> set spaces" for p
    using p c that by (force simp: has_prefix_iff hd_append)
  moreover have "\<not> has_prefix (rev s) (rev p)" if "p \<in> set spaces" for p
  proof
    assume "has_prefix (rev s) (rev p)"
    then obtain r where "rev s = rev p @ r" by (auto simp: has_prefix_iff)
    then have "s = rev r @ p" by (metis rev_append rev_rev_ident)
    with p c that show False by auto
  qed
  ultimately show ?thesis by (simp add: TrimSpace_def strip_same)
qed

lemma TrimSpace_Nil [simp]: "TrimSpace '''' = ''''"
  by (simp add: TrimSpace_def)

definition sample_settings :: "string \<Rightarrow> string \<Rightarrow> (string \<times> json) list" where
  "sample_settings host nick = [(''Channels'', JArray [JString ''#lierc'']), (''Host'', JString host), (''Nick'', JString nick),
     (''Pass'', JString ''secret''), (''Port'', JNumber ''6697''), (''Ssl'', JBool True), (''User'', JString ''bob'')]"

definition sample_config :: "string \<Rightarrow> string \<Rightarrow> config" where
  "sample_config host nick = \<lparr>Host = host, Port = 6697, Nick = nick, UserName = Some ''bob'', Pass = Some ''secret'',
     Channels = [''#lierc''], Highlight = [], Alias = None, Ssl = True, SASL = False\<rparr>"

lemma number_6697: "unsigned_number ''6697'' = Some (''6697'', '''')"
  by code_simp

lemmas sample_eval = clean_host_def clean_nick_def sample_settings_def field_def str_def ok_then_def refuse_if_def TrimSpace_plain
  plain_char_def runes_ascii validHost_def ipv4Literal_def ipv4_groups_def labelRe_def digitsRe_def upto_newline_def alnum_rune_def
  digit_rune_def is_digit_def nickRe_def nickForbidden_def nickReserved_def plain_unicode_def
  clean_user_def userRe_def clean_pass_def clean_channels_def list_of_def channelRe_def channel_rune_def space_runes_def
  clean_highlight_def clean_alias_def boolean_def

lemma Clean_sample:
  assumes "clean_host U (sample_settings host nick) = Inr host" "clean_nick U (sample_settings host nick) = Inr nick"
    "\<forall>c\<in>set (host @ nick). byte c < 0x80"
  shows "Clean U (print_json (JObject (sample_settings host nick))) = Inr (sample_config host nick)"
proof -
  have "json_ok (JObject (sample_settings host nick))"
    using assms(3) by (simp add: sample_settings_def valid_ascii byte_simps number_6697 less_char_def)
  then have "Decode (print_json (JObject (sample_settings host nick))) = Some (JObject (sample_settings host nick))"
    unfolding Decode_def by (rule decode_first_print) (simp add: sample_settings_def max_depth_def)
  moreover have "clean_port (sample_settings host nick) = Inr 6697" by code_simp
  moreover have "clean_user (sample_settings host nick) = Inr (Some ''bob'')"
    "clean_pass (sample_settings host nick) = Inr (Some ''secret'')" "clean_channels (sample_settings host nick) = Inr [''#lierc'']"
    "clean_highlight (sample_settings host nick) = Inr []" "clean_alias (sample_settings host nick) = Inr None"
    "boolean (field (sample_settings host nick) ''Ssl'') ''Ssl'' = Inr True"
    "boolean (field (sample_settings host nick) ''SASL'') ''SASL'' = Inr False"
    by (simp_all add: sample_eval byte_simps)
  ultimately show ?thesis using assms(1,2) by (simp add: Clean_def ok_then_def sample_config_def)
qed

lemma Clean_one_line_witness: "Clean plain_unicode (print_json (JObject (sample_settings ''irc.example.com'' ''bob''))) =
    Inr (sample_config ''irc.example.com'' ''bob'') \<and> one_line ''secret''"
proof
  have "clean_host plain_unicode (sample_settings ''irc.example.com'' ''bob'') = Inr ''irc.example.com''"
    "clean_nick plain_unicode (sample_settings ''irc.example.com'' ''bob'') = Inr ''bob''"
    by (simp_all add: sample_eval byte_simps)
  then show *: "Clean plain_unicode (print_json (JObject (sample_settings ''irc.example.com'' ''bob''))) =
    Inr (sample_config ''irc.example.com'' ''bob'')" by (rule Clean_sample) (simp add: byte_simps)
  show "one_line ''secret''" using Clean_one_line [OF *] by (simp add: plain_unicode_def sample_config_def)
qed

text \<open>
  C20. The bounds of what \<open>Clean\<close> lets through: a host that is an IPv4 address or a name of at most
  253 characters, a port from 1 to 65535, a nick of 1 to 32 bytes with none of the forbidden
  characters, a user name of 1 to 32 characters, channels of 2 to 200 characters that start with a
  channel prefix, an alias of 1 to 32 characters.
\<close>

theorem Clean_bounds:
  assumes "Clean U raw = Inr c"
  shows "Host c \<noteq> '''' \<and> (ipv4Literal (Host c) \<or> length (runes (Host c)) \<le> 253) \<and> 1 \<le> Port c \<and> Port c \<le> 65535 \<and>
    1 \<le> length (Nick c) \<and> length (Nick c) \<le> 32 \<and> set (Nick c) \<inter> set nickForbidden = {} \<and>
    (\<forall>u\<in>set_option (UserName c). 1 \<le> length (runes u) \<and> length (runes u) \<le> 32) \<and>
    (\<forall>s\<in>set (Channels c). 2 \<le> length (runes s) \<and> length (runes s) \<le> 200 \<and> hd (runes s) \<in> byte ` set ''#&+!'') \<and>
    (\<forall>a\<in>set_option (Alias c). 1 \<le> length (runes a) \<and> length (runes a) \<le> 32)"
proof -
  from assms obtain es where f: "clean_host U es = Inr (Host c)" "clean_port es = Inr (Port c)" "clean_nick U es = Inr (Nick c)"
    "clean_user es = Inr (UserName c)" "clean_channels es = Inr (Channels c)" "clean_alias es = Inr (Alias c)" by (rule Clean_fields)
  have host: "Host c \<noteq> '''' \<and> (ipv4Literal (Host c) \<or> length (runes (Host c)) \<le> 253)"
    using clean_hostD [OF f(1)] by (auto simp: validHost_def split: if_splits)
  have user: "1 \<le> length (runes u) \<and> length (runes u) \<le> 32" if "UserName c = Some u" for u
    using clean_userD [of es u] f(4) that by (auto simp: userRe_def split: list.splits)
  have channel: "2 \<le> length (runes s) \<and> length (runes s) \<le> 200 \<and> hd (runes s) \<in> byte ` set ''#&+!''" if s: "s \<in> set (Channels c)" for s
  proof -
    have c: "channelRe (runes s) \<and> s \<noteq> '''' \<and> (\<exists>t. s = TrimSpace t)" using clean_channelsD [OF f(5)] s by blast
    then obtain t where "s = TrimSpace t" by blast
    with c show ?thesis using channelRe_trimmed [of s t] by blast
  qed
  have aka: "1 \<le> length (runes a) \<and> length (runes a) \<le> 32" if "Alias c = Some a" for a
  proof -
    have "aliasRe (runes a) \<and> a \<noteq> '''' \<and> (\<exists>t. a = TrimSpace t)" using f(6) that by (intro clean_aliasD) simp
    then show ?thesis using aliasRe_trimmed by (auto simp: Suc_le_eq)
  qed
  have nick: "1 \<le> length (Nick c) \<and> length (Nick c) \<le> 32 \<and> set (Nick c) \<inter> set nickForbidden = {}"
    using clean_nickD [OF f(3)] by (auto simp: Suc_le_eq)
  show ?thesis using host clean_portD [OF f(2)] nick user channel aka by (auto simp: elem_set)
qed

theorem Clean_bounds_witness: "length (Nick (sample_config ''irc.example.com'' ''bob'')) \<le> 32 \<and>
    Clean plain_unicode (print_json (JObject (sample_settings ''irc.example.com'' ''bob''))) = Inr (sample_config ''irc.example.com'' ''bob'')"
proof
  show *: "Clean plain_unicode (print_json (JObject (sample_settings ''irc.example.com'' ''bob''))) =
    Inr (sample_config ''irc.example.com'' ''bob'')"
    by (rule Clean_sample) (simp_all add: sample_eval byte_simps)
  show "length (Nick (sample_config ''irc.example.com'' ''bob'')) \<le> 32" using Clean_bounds [OF *] by blast
qed

text \<open>
  The rule for hosts has a hole: \<^verbatim>\<open>labelRe\<close> lets every label end in a line feed, not only the
  last one, so a host with a line feed inside is accepted and saved as it is.
\<close>

lemma Clean_host_newline:
  "Clean plain_unicode (print_json (JObject (sample_settings (''irc'' @ [CHR 0x0A] @ ''.example.com'') ''bob''))) =
     Inr (sample_config (''irc'' @ [CHR 0x0A] @ ''.example.com'') ''bob'') \<and>
   \<not> one_line (Host (sample_config (''irc'' @ [CHR 0x0A] @ ''.example.com'') ''bob''))"
proof
  show "Clean plain_unicode (print_json (JObject (sample_settings (''irc'' @ [CHR 0x0A] @ ''.example.com'') ''bob''))) =
     Inr (sample_config (''irc'' @ [CHR 0x0A] @ ''.example.com'') ''bob'')"
    by (rule Clean_sample) (simp_all add: sample_eval byte_simps)
qed (simp add: one_line_def sample_config_def)

text \<open>
  The rule for nicks has a hole: the first character is only checked against the list of
  characters a nick cannot start with, so it may be one that is neither a letter, a number,
  punctuation nor a symbol, such as the control character BEL.
\<close>

lemma Clean_nick_control:
  "Clean plain_unicode (print_json (JObject (sample_settings ''irc.example.com'' (CHR 0x07 # ''bob'')))) =
     Inr (sample_config ''irc.example.com'' (CHR 0x07 # ''bob'')) \<and>
   \<not> graphic plain_unicode (byte (hd (Nick (sample_config ''irc.example.com'' (CHR 0x07 # ''bob'')))))"
proof
  have t: "TrimSpace (CHR 0x07 # ''bob'') = CHR 0x07 # ''bob''" by code_simp
  show "Clean plain_unicode (print_json (JObject (sample_settings ''irc.example.com'' (CHR 0x07 # ''bob'')))) =
     Inr (sample_config ''irc.example.com'' (CHR 0x07 # ''bob''))"
    by (rule Clean_sample) (simp_all add: t sample_eval byte_simps)
qed (simp add: plain_unicode_def sample_config_def byte_simps)

section \<open>Ports written as integers\<close>

lemma log2_int_le: "1 \<le> n \<Longrightarrow> 2 ^ log2_int n \<le> n"
proof (induction n rule: log2_int.induct)
  case (1 n)
  show ?case
  proof (cases "n < 2")
    case False
    then have "2 ^ log2_int (n div 2) \<le> n div 2" using 1 by simp
    with False show ?thesis by (subst log2_int.simps) simp
  qed (use 1 in \<open>simp add: log2_int.simps\<close>)
qed

lemma round_half_even_exact: "round_half_even n 1 = n"
  by (simp add: round_half_even_def)

lemma round_half_even_ge: "n div d \<le> round_half_even n d"
  by (simp add: round_half_even_def Let_def)

lemma port_of_digits:
  assumes "list_all is_digit l" "l \<noteq> ''''"
  shows "port_of l = (if 1 \<le> digits_int l \<and> digits_int l \<le> 65535 then digits_int l else 0)"
proof -
  let ?n = "digits_int l"
  have "hd l \<noteq> CHR ''-''" using assms by (cases l) (auto simp: is_digit_def byte_simps)
  moreover have "takeWhile is_digit l = l" "dropWhile is_digit l = ''''"
    using assms(1) by (simp_all add: takeWhile_eq_all_conv dropWhile_eq_Nil_conv list_all_iff)
  ultimately have "literal_value l = (False, decimal_value l '''' 0)"     by (simp add: literal_value_def exponent_value_def del: takeWhile_eq_all_conv dropWhile_eq_Nil_conv)
  then have v: "literal_value l = (False, ?n, 1)" by (simp add: decimal_value_def)
  consider "?n < 1" | "1 \<le> ?n" "log2_int ?n \<le> 52" | "1 \<le> ?n" "52 < log2_int ?n" by linarith
  then show ?thesis
  proof cases
    case 1
    then have "to_float (?n, 1) = (?n, 1)" by (simp add: to_float_def)
    with 1 v show ?thesis by (simp add: port_of_def)
  next
    case 2
    then have "to_float (?n, 1) = (?n * 2 ^ (52 - log2_int ?n), 2 ^ (52 - log2_int ?n))"
      by (simp add: to_float_def round_half_even_exact Let_def)
    with v show ?thesis by (simp add: port_of_def)
  next
    case 3
    define j where "j = log2_int ?n - 52"
    have e: "52 + j = log2_int ?n" using 3 by (simp add: j_def)
    have "to_float (?n, 1) = (round_half_even ?n (2 ^ j) * 2 ^ j, 1)" using 3 by (simp add: to_float_def j_def Let_def)
    moreover have "(2 :: int) ^ 52 * 2 ^ j \<le> ?n"
      using log2_int_le [OF 3(1)] unfolding e [symmetric] power_add .
    then have "2 ^ 52 \<le> ?n div 2 ^ j" using zdiv_mono1 [of "2 ^ 52 * 2 ^ j" ?n "2 ^ j"] by simp
    then have "2 ^ 52 \<le> round_half_even ?n (2 ^ j)" using round_half_even_ge [of ?n "2 ^ j"] by linarith
    then have "2 ^ 52 * 1 \<le> round_half_even ?n (2 ^ j) * 2 ^ j" by (intro mult_mono) auto
    moreover have "(2 :: int) ^ 52 \<le> ?n" using log2_int_le [OF 3(1)] power_increasing [of 52 "log2_int ?n" "2 :: int"] 3(2) by linarith
    ultimately show ?thesis using v by (simp add: port_of_def)
  qed
qed

text \<open>
  C21. A port written as a whole number is read as that number when it is from 1 to 65535, and refused
  otherwise, however long it is: the detour over a 64-bit float loses nothing.
\<close>

theorem clean_port_decimal:
  "clean_port [(''Port'', JNumber (show_nat n))] =
     (if 1 \<le> n \<and> n \<le> 65535 then Inr (int n) else Inl (Err ''Port must be a number from 1 to 65535''))"
proof -
  have "show_nat n \<noteq> ''''" by (subst show_nat.simps) simp
  with port_of_digits [of "show_nat n"] show_nat_digits [of n] have "port_of (show_nat n) = (if 1 \<le> n \<and> n \<le> 65535 then int n else 0)"
    by simp
  then show ?thesis by (auto simp: clean_port_def field_def ok_then_def refuse_if_def)
qed

end
