(* ===== verification/Effects.thy ===== *)
theory Effects
  imports Lctl World Connconfig
begin

text \<open>
  What the maintenance commands share: which actions a program can perform (\<open>only\<close>) computed along
  it, the sets of actions their properties speak of, scans of more columns, durations of 64 bits, and
  the \<^verbatim>\<open>Host:Port\<close> of a saved config (\<^verbatim>\<open>hostPort\<close> of \<^verbatim>\<open>check_connections.go\<close>).
\<close>

section \<open>Which actions a program performs\<close>

named_theorems only_simps \<open>rules that compute which actions a program performs\<close>

lemma only_attempt [only_simps]: "(\<And>a. only S (k a)) \<Longrightarrow> only S p \<Longrightarrow> only S (attempt p k)"
  unfolding attempt_def by (rule only_bind) (simp_all split: sum.split)

lemma only_actions [only_simps]:
  "only S (query q) \<longleftrightarrow> S (Query q)" "only S (exec_sql q) \<longleftrightarrow> S (Exec q)" "only S (tx_exec q) \<longleftrightarrow> S (TxExec q)"
  "only S (http b m path body) \<longleftrightarrow> S (Http b m path body)" "only S (resolve_host h) \<longleftrightarrow> S (Resolve h)"
  "only S (http_stats u k) \<longleftrightarrow> S (HttpStats u k)" "only S read_password \<longleftrightarrow> S ReadPassword"
  "only S begin_tx \<longleftrightarrow> S Begin" "only S commit \<longleftrightarrow> S Commit" "only S rollback \<longleftrightarrow> S Rollback"
  "only S (print s) \<longleftrightarrow> S (Print s)" "only S (eprint s) \<longleftrightarrow> S (EPrint s)"
  "only S (sleep d) \<longleftrightarrow> S (Sleep d)" "only S ctx_err \<longleftrightarrow> S CtxErr"
  by (auto simp: query_def exec_sql_def tx_exec_def http_def resolve_host_def http_stats_def read_password_def begin_tx_def
      commit_def rollback_def print_def eprint_def sleep_def ctx_err_def split: reply.split)

lemma only_say [only_simps]: "only S (say s p) \<longleftrightarrow> S (Print s) \<and> only S p" "only S (say_err s p) \<longleftrightarrow> S (EPrint s) \<and> only S p"
  by (auto simp: say_def say_err_def print_def eprint_def)

lemma only_query_row [only_simps]: "S (Query q) \<Longrightarrow> only S (query_row q scan)"
  unfolding query_row_def by (rule only_attempt) (simp_all add: only_simps split: list.split)

lemma only_query_all [only_simps]: "S (Query q) \<Longrightarrow> only S (query_all q scan)"
  unfolding query_all_def by (rule only_attempt) (simp_all add: only_simps)

lemma only_runs: "only S p \<Longrightarrow> runs p es a \<Longrightarrow> \<forall>e\<in>set es. S (fst e)"
proof (induction p arbitrary: es)
  case (Act x k)
  from Act.prems(2) obtain r es' where "es = (x, r) # es'" "runs (k r) es' a" by (auto simp: runs_Act_iff)
  then show ?case using Act.IH [OF rangeI, of r es'] Act.prems(1) by auto
qed auto

lemma only_mono: "only S p \<Longrightarrow> (\<And>x. S x \<Longrightarrow> T x) \<Longrightarrow> only T p"
  by (induction p) auto

lemma only_if [only_simps]: "only S (if b then p else q) \<longleftrightarrow> (if b then only S p else only S q)"
  by simp

text \<open>Actions that change nothing: queries, look-ups, output, waiting, and requests by GET.\<close>

fun harmless :: "action \<Rightarrow> bool" where
  "harmless (Http _ m _ _) = (m = GET)"
| "harmless (Exec _) = False"
| "harmless (TxExec _) = False"
| "harmless Begin = False"
| "harmless Commit = False"
| "harmless Rollback = False"
| "harmless _ = True"

lemma only_Do: "(\<And>i. only S (look i)) \<Longrightarrow> (\<And>b. S (Http b m (trimSlash path) body)) \<Longrightarrow>
    only S (Do (NewRouted hosts look) m path body)"
  unfolding Do_def Let_def base_def by (auto intro!: only_attempt simp: only_simps simp del: Do_pinned split: prod.split)

lemma only_Do_harmless [only_simps]: "(\<And>i. only harmless (look i)) \<Longrightarrow> only harmless (Do (NewRouted hosts look) GET path body)"
  by (rule only_Do) simp_all

lemma only_LookupLiercd [only_simps]: "S (Query (SelectLiercd i)) \<Longrightarrow> only S (LookupLiercd i)"
  unfolding LookupLiercd_def by (rule only_bind) (auto simp: only_simps split: sum.split option.split)

section \<open>Scans of more columns\<close>

definition scan_then :: "(cell \<Rightarrow> goerr + 'a) \<Rightarrow> (cell list \<Rightarrow> goerr + 'b) \<Rightarrow> cell list \<Rightarrow> goerr + 'a \<times> 'b" where
  "scan_then f g row = (case row of
     [] \<Rightarrow> Inl scan_err
   | a # r \<Rightarrow> (case f a of Inl e \<Rightarrow> Inl e | Inr x \<Rightarrow> (case g r of Inl e \<Rightarrow> Inl e | Inr y \<Rightarrow> Inr (x, y))))"

section \<open>Durations\<close>

text \<open>\<^verbatim>\<open>time.Duration\<close> is an \<^verbatim>\<open>int64\<close> of nanoseconds; \<open>seconds n\<close> is \<^verbatim>\<open>time.Duration(n) * time.Second\<close>.\<close>

definition wrap64 :: "int \<Rightarrow> int" where
  "wrap64 n = (n + 2 ^ 63) mod 2 ^ 64 - 2 ^ 63"

definition seconds :: "int \<Rightarrow> int" where
  "seconds n = wrap64 (n * 1000000000)"

lemma seconds_exact: "0 \<le> n \<Longrightarrow> n \<le> 9223372036 \<Longrightarrow> seconds n = n * 1000000000"
  by (simp add: seconds_def wrap64_def)

section \<open>hostPort\<close>

definition hostPort :: "string \<Rightarrow> string" where
  "hostPort raw = (case Decode raw of
     Some (JObject es) \<Rightarrow>
       (let part = (\<lambda>k. case Display (field es k) of None \<Rightarrow> ''?'' | Some s \<Rightarrow> s)
        in part ''Host'' @ '':'' @ part ''Port'')
   | _ \<Rightarrow> ''?'')"

end
