(* ===== verification/Delete.thy ===== *)
theory Delete
  imports Effects
begin

text \<open>
  The commands that delete: \<^verbatim>\<open>check_connections.go\<close>, \<^verbatim>\<open>delete_connections.go\<close>, \<^verbatim>\<open>delete_users.go\<close> and
  \<^verbatim>\<open>prune.go\<close>. The lemmas say that nothing is deleted before its connection was destroyed in
  liercd, that a dry run changes nothing, that a valid connection is not deleted, that a user's
  rows go in one transaction, and that pruning ends.
\<close>

section \<open>Deleting connections\<close>

definition connectionTables :: "table list" where
  "connectionTables = [Log, Seen, Private, Connection]"

fun table_name :: "table \<Rightarrow> string" where
  "table_name Log = ''log''"
| "table_name Seen = ''seen''"
| "table_name Private = ''private''"
| "table_name Pref = ''pref''"
| "table_name WebPush = ''web_push''"
| "table_name Connection = ''connection''"
| "table_name User = ''user''"

text \<open>\<^verbatim>\<open>deleteRows\<close>: one transaction; the deferred rollback runs on every path once it has begun.\<close>

fun delete_tables :: "string \<Rightarrow> table list \<Rightarrow> (goerr + nat list) prog" where
  "delete_tables i [] = return []"
| "delete_tables i (t # ts) = attempt (tx_exec (DeleteConnectionRows t i)) (\<lambda>n.
     attempt (delete_tables i ts) (\<lambda>ns. return (n # ns)))"

definition in_tx :: "(goerr + 'a) prog \<Rightarrow> (goerr + 'a) prog" where
  "in_tx p = attempt begin_tx (\<lambda>_.
     bind (attempt p (\<lambda>a. attempt commit (\<lambda>_. return a))) (\<lambda>r. bind rollback (\<lambda>_. Ret r)))"

definition deleteRows :: "string \<Rightarrow> (goerr + nat list) prog" where
  "deleteRows i = in_tx (delete_tables i connectionTables)"

definition counted :: "table list \<Rightarrow> int list \<Rightarrow> string" where
  "counted ts ns = join '' '' (map (\<lambda>(t, n). table_name t @ ''='' @ show_int n) (zip ts ns))"

text \<open>The loops of \<^verbatim>\<open>destroyAndDelete\<close>: what is ready and how many were skipped; what is done.\<close>

fun destroy_all :: "env \<Rightarrow> string list \<Rightarrow> nat \<Rightarrow> (string list \<times> nat) prog" where
  "destroy_all env [] skipped = Ret ([], skipped)"
| "destroy_all env (i # is) skipped = bind (destroy env i) (\<lambda>problem.
     if problem \<noteq> '''' then say (line (i @ '': liercd said '' @ problem @ '', skipped'')) (destroy_all env is (skipped + 1))
     else bind (destroy_all env is skipped) (\<lambda>(ready, skipped). Ret (i # ready, skipped)))"

fun delete_ready :: "string list \<Rightarrow> string list \<Rightarrow> nat \<Rightarrow> (string list \<times> nat \<times> goerr option) prog" where
  "delete_ready [] done skipped = Ret (done, skipped, None)"
| "delete_ready (i # is) done skipped = bind ctx_err (\<lambda>r. case r of
     Inl err \<Rightarrow> Ret (done, skipped, Some err)
   | Inr _ \<Rightarrow> bind (deleteRows i) (\<lambda>r. case r of
       Inl err \<Rightarrow> say (line (i @ '': failed, nothing deleted: '' @ err_text err)) (delete_ready is done (skipped + 1))
     | Inr counts \<Rightarrow> say (line (i @ '': deleted ('' @ counted connectionTables (map int counts) @ '')''))
         (delete_ready is (done @ [i]) skipped)))"

definition sweep_done :: "string list \<times> nat \<times> goerr option \<Rightarrow> (nat \<times> nat \<times> goerr option) prog" where
  "sweep_done x = (case x of (done, skipped, err) \<Rightarrow>
     if err \<noteq> None then Ret (length done, skipped, err)
     else if done = [] then Ret (0, skipped, None)
     else bind (exec_sql (DeleteLateLog done)) (\<lambda>r. case r of
         Inl err \<Rightarrow> Ret (length done, skipped, Some err)
       | Inr n \<Rightarrow> (if n > 0 then say (line (''removed '' @ show_nat n @ '' late log row(s)'')) else (\<lambda>p. p))
           (Ret (length done, skipped, None))))"

definition settle_and_delete :: "int \<Rightarrow> string list \<times> nat \<Rightarrow> (nat \<times> nat \<times> goerr option) prog" where
  "settle_and_delete settle x = (case x of (ready, skipped) \<Rightarrow>
     if ready = [] then Ret (0, skipped, None)
     else bind (sleep settle) (\<lambda>r. case r of
         Inl err \<Rightarrow> Ret (0, skipped, Some err)
       | Inr _ \<Rightarrow> bind (delete_ready ready [] skipped) sweep_done))"

definition destroyAndDelete :: "env \<Rightarrow> string list \<Rightarrow> int \<Rightarrow> (nat \<times> nat \<times> goerr option) prog" where
  "destroyAndDelete env ids settle = bind (destroy_all env ids 0) (settle_and_delete settle)"

text \<open>What both commands do with its result.\<close>

definition delete_targets :: "env \<Rightarrow> string list \<Rightarrow> int \<Rightarrow> (goerr + unit) prog" where
  "delete_targets env targets settle = bind (destroyAndDelete env targets (seconds settle)) (\<lambda>(deleted, skipped, err).
     say (line (''deleted '' @ show_nat deleted @ '' connection(s), skipped '' @ show_nat skipped))
       (case err of
          Some e \<Rightarrow> raise e
        | None \<Rightarrow> if skipped > 0 then raise (Err (show_nat skipped @ '' connection(s) skipped'')) else return ()))"

section \<open>delete-connections\<close>

fun count_connection :: "string \<Rightarrow> table list \<Rightarrow> (goerr + int list) prog" where
  "count_connection i [] = return []"
| "count_connection i (t # ts) = attempt (query_row (CountConnectionRows t i) (scan1 scan_int)) (\<lambda>n.
     attempt (count_connection i ts) (\<lambda>ns. return (n # ns)))"

fun find_connections :: "string list \<Rightarrow> (goerr + string list) prog" where
  "find_connections [] = return []"
| "find_connections (i # is) =
     bind (query_row (SelectConnectionOwner i) (scan3 scan_string scan_string scan_nullable)) (\<lambda>r. case r of
       Inl err \<Rightarrow> if err = ErrNoRows then say (line (i @ '': no such connection'')) (find_connections is) else raise err
     | Inr (user, config, username) \<Rightarrow> attempt (count_connection i connectionTables) (\<lambda>counts.
         let name = (case username of None \<Rightarrow> ''no such user'' | Some u \<Rightarrow> u) in
         say (line (i @ '' (user '' @ user @ '', '' @ name @ '', '' @ hostPort config @ ''): '' @ counted connectionTables counts))
           (attempt (find_connections is) (\<lambda>found. return (i # found)))))"

definition negative_settle :: goerr where
  "negative_settle = UsageError ''--settle needs a number of seconds''"

definition ids_or :: "goerr \<Rightarrow> env \<Rightarrow> string list \<Rightarrow> (string list \<Rightarrow> (goerr + unit) prog) \<Rightarrow> (goerr + unit) prog" where
  "ids_or none env args k = (case ReadIDs env args of
     Inl err \<Rightarrow> if err \<noteq> ErrNoIDsOnStdin then raise err else raise none
   | Inr ids \<Rightarrow> if ids = [] then raise none else k ids)"

definition deleteConnections :: "env \<Rightarrow> bool \<Rightarrow> int \<Rightarrow> string list \<Rightarrow> (goerr + unit) prog" where
  "deleteConnections env del settle args =
     (if settle < 0 then raise negative_settle
      else ids_or (UsageError ''give connection ids as arguments or on stdin'') env args (\<lambda>ids.
        attempt (find_connections ids) (\<lambda>found.
        if \<not> del then say (line ''dry run: nothing deleted; run with --delete to delete'') (return ())
        else if found = [] then return ()
        else delete_targets env found settle)))"

section \<open>check-connections\<close>

definition connectionProblem :: "unicode \<Rightarrow> (string \<Rightarrow> string) \<Rightarrow> string \<Rightarrow> bool \<Rightarrow> string prog" where
  "connectionProblem U getenv raw withDNS = (case Decode raw of
     Some (JObject _) \<Rightarrow> (case Clean U raw of
         Inl err \<Rightarrow> Ret (err_text err)
       | Inr config \<Rightarrow>
           if \<not> withDNS then Ret ''''
           else bind (CheckHost U getenv (Host config) (Port config)) (\<lambda>r. case r of
             Inl err \<Rightarrow> Ret (err_text err) | Inr _ \<Rightarrow> Ret ''''))
   | _ \<Rightarrow> Ret ''config isn't a JSON object'')"

record checkedConn =
  cc_id :: string
  cc_unresolved :: bool

fun print_missing :: "string list \<Rightarrow> string list \<Rightarrow> unit prog" where
  "print_missing found [] = Ret ()"
| "print_missing found (i # is) =
     (if i \<in> set found then print_missing found is
      else say (line (i @ '': no such connection'')) (print_missing found is))"

fun check_all :: "unicode \<Rightarrow> (string \<Rightarrow> string) \<Rightarrow> bool \<Rightarrow> (string \<times> string \<times> string \<times> string option) list \<Rightarrow>
    nat \<Rightarrow> (nat \<times> checkedConn list) prog" where
  "check_all U getenv withDNS [] valid = Ret (valid, [])"
| "check_all U getenv withDNS ((i, user, config, username) # rows) valid =
     bind (connectionProblem U getenv config withDNS) (\<lambda>why.
       if why = '''' then check_all U getenv withDNS rows (valid + 1)
       else say (line (i @ '' (user '' @ user @ '', '' @ (case username of None \<Rightarrow> ''no such user'' | Some u \<Rightarrow> u) @ '', '' @
              hostPort config @ ''): '' @ why))
         (bind (check_all U getenv withDNS rows valid) (\<lambda>(valid, invalid).
            Ret (valid, \<lparr>cc_id = i, cc_unresolved = has_prefix why ''Couldn't find host''\<rparr> # invalid))))"

text \<open>From \<^verbatim>\<open>rows, err := ...Query(...)\<close> on; \<open>ids\<close> empty means every connection.\<close>

definition delete_invalid :: "env \<Rightarrow> bool \<Rightarrow> bool \<Rightarrow> int \<Rightarrow> checkedConn list \<Rightarrow> (goerr + unit) prog" where
  "delete_invalid env del unresolved settle invalid =
     (if \<not> del then
        (if invalid \<noteq> [] then say (line ''dry run: nothing deleted; run with --delete to delete the invalid ones'') else (\<lambda>p. p))
          (return ())
      else (let kept = filter (\<lambda>c. cc_unresolved c \<and> \<not> unresolved) invalid;
                targets = map cc_id (filter (\<lambda>c. \<not> (cc_unresolved c \<and> \<not> unresolved)) invalid)
        in (if kept \<noteq> [] then say (line (show_nat (length kept) @ '' unresolved host(s) kept; add --delete-unresolved to delete them''))
            else (\<lambda>p. p))
           (if targets = [] then return () else delete_targets env targets settle)))"

definition checkConnections :: "unicode \<Rightarrow> (string \<Rightarrow> string) \<Rightarrow> env \<Rightarrow> bool \<Rightarrow> bool \<Rightarrow> bool \<Rightarrow> int \<Rightarrow> string list \<Rightarrow>
    (goerr + unit) prog" where
  "checkConnections U getenv env del unresolved noDNS settle args = (case ReadIDs env args of
     Inl err \<Rightarrow> if err = ErrNoIDsOnStdin
       then raise (UsageError ''no ids on stdin; to check every connection, run it on a terminal (over ssh: ssh -t)'')
       else raise err
   | Inr ids \<Rightarrow>
     if settle < 0 then raise negative_settle
     else if unresolved \<and> \<not> del then raise (UsageError ''--delete-unresolved needs --delete'')
     else if del \<and> noDNS \<and> ids = [] then
       raise (UsageError ''--delete with --no-dns would skip the address check; pass connection ids or drop --no-dns'')
     else attempt (query_all (SelectChecked (if ids = [] then None else Some ids))
         (scan_then scan_string (scan3 scan_string scan_string scan_nullable))) (\<lambda>all.
       bind (print_missing (map fst all) ids) (\<lambda>_.
       bind (check_all U getenv (\<not> noDNS) all 0) (\<lambda>(valid, invalid).
       say (line (show_nat (length all) @ '' connection(s) checked: '' @ show_nat valid @ '' valid, '' @
           show_nat (length invalid) @ '' invalid'' @ (if noDNS then '' (field formats only, no DNS)'' else '''')))
         (delete_invalid env del unresolved settle invalid)))))"

section \<open>delete-users\<close>

text \<open>\<^verbatim>\<open>userTables\<close>, in delete order; the statements carry the where clauses (\<open>delete_user_rows\<close>).\<close>

definition userTables :: "table list" where
  "userTables = [Log, Seen, Private, Pref, WebPush, Connection, User]"

record foundUser =
  fu_id :: string
  fu_username :: string
  fu_email :: string
  fu_conns :: "string list"

fun delete_user_tables :: "string \<Rightarrow> string list \<Rightarrow> table list \<Rightarrow> (goerr + unit) prog" where
  "delete_user_tables u cs [] = return ()"
| "delete_user_tables u cs (t # ts) = attempt (tx_exec (DeleteUserRows t u cs)) (\<lambda>_. delete_user_tables u cs ts)"

definition deleteUser :: "foundUser \<Rightarrow> (goerr + unit) prog" where
  "deleteUser u = in_tx (delete_user_tables (fu_id u) (fu_conns u) userTables)"

fun count_user :: "string \<Rightarrow> string list \<Rightarrow> table list \<Rightarrow> (goerr + int list) prog" where
  "count_user u cs [] = return []"
| "count_user u cs (t # ts) = attempt (query_row (CountUserRows t u cs) (scan1 scan_int)) (\<lambda>n.
     attempt (count_user u cs ts) (\<lambda>ns. return (n # ns)))"

fun find_users :: "string list \<Rightarrow> nat \<Rightarrow> (goerr + foundUser list \<times> nat) prog" where
  "find_users [] skipped = return ([], skipped)"
| "find_users (i # is) skipped =
     bind (query_row (SelectUser i) (scan2 scan_string scan_string)) (\<lambda>r. case r of
       Inl err \<Rightarrow> if err = ErrNoRows then say (line (i @ '': no such user, skipped'')) (find_users is (skipped + 1)) else raise err
     | Inr (username, email) \<Rightarrow> attempt (query_all (SelectUserConnections i) (scan1 scan_string)) (\<lambda>conns.
         attempt (count_user i conns userTables) (\<lambda>counts.
         say (line (i @ '' ('' @ username @ '', '' @ email @ ''): '' @ counted userTables counts))
           (attempt (find_users is skipped) (\<lambda>(found, skipped).
              return (\<lparr>fu_id = i, fu_username = username, fu_email = email, fu_conns = conns\<rparr> # found, skipped))))))"

text \<open>The three loops over what was found: stop, delete, sweep.\<close>

fun destroy_user :: "env \<Rightarrow> string \<Rightarrow> string list \<Rightarrow> bool prog" where
  "destroy_user env u [] = Ret True"
| "destroy_user env u (c # cs) = bind (destroy env c) (\<lambda>problem.
     if problem \<noteq> '''' then
       say (line (u @ '': connection '' @ c @ '': liercd said '' @ problem @ '', skipping this user'')) (Ret False)
     else destroy_user env u cs)"

fun stop_users :: "env \<Rightarrow> foundUser list \<Rightarrow> nat \<Rightarrow> (foundUser list \<times> nat) prog" where
  "stop_users env [] skipped = Ret ([], skipped)"
| "stop_users env (u # us) skipped = bind (destroy_user env (fu_id u) (fu_conns u)) (\<lambda>ok.
     if \<not> ok then stop_users env us (skipped + 1)
     else bind (stop_users env us skipped) (\<lambda>(ready, skipped). Ret (u # ready, skipped)))"

fun delete_ready_users :: "foundUser list \<Rightarrow> nat \<Rightarrow> (goerr + foundUser list \<times> nat) prog" where
  "delete_ready_users [] skipped = return ([], skipped)"
| "delete_ready_users (u # us) skipped = attempt ctx_err (\<lambda>_. bind (deleteUser u) (\<lambda>r. case r of
     Inl err \<Rightarrow> say (line (fu_id u @ '': failed, nothing deleted: '' @ err_text err)) (delete_ready_users us (skipped + 1))
   | Inr _ \<Rightarrow> say (line (fu_id u @ '': deleted''))
       (attempt (delete_ready_users us skipped) (\<lambda>(deleted, skipped). return (u # deleted, skipped)))))"

fun sweep_late :: "int \<Rightarrow> foundUser list \<Rightarrow> (goerr + unit) prog" where
  "sweep_late lastLogID [] = return ()"
| "sweep_late lastLogID (u # us) = attempt (exec_sql (DeleteLateUserLog lastLogID (fu_conns u))) (\<lambda>n.
     (if n > 0 then say (line (fu_id u @ '': removed '' @ show_nat n @ '' late log row(s)'')) else (\<lambda>p. p))
       (sweep_late lastLogID us))"

text \<open>From reading the newest log row on.\<close>

definition sweep_and_report :: "foundUser list \<Rightarrow> foundUser list \<Rightarrow> int \<Rightarrow> foundUser list \<times> nat \<Rightarrow> (goerr + unit) prog" where
  "sweep_and_report found ready lastLogID x = (case x of (deleted, skipped) \<Rightarrow>
     attempt (sweep_late lastLogID deleted) (\<lambda>_.
     say (line (''deleted '' @ show_nat (length deleted) @ '' user(s), skipped '' @ show_nat skipped))
       (if length ready < length found \<or> length deleted < length ready
        then raise (Err (show_nat (length found - length deleted) @ '' user(s) not deleted''))
        else return ())))"

definition delete_stopped :: "foundUser list \<Rightarrow> int \<Rightarrow> int \<Rightarrow> foundUser list \<times> nat \<Rightarrow> (goerr + unit) prog" where
  "delete_stopped found lastLogID settle x = (case x of (ready, skipped) \<Rightarrow>
     attempt (if list_ex (\<lambda>u. fu_conns u \<noteq> []) ready then sleep (seconds settle) else return ()) (\<lambda>_.
     attempt (delete_ready_users ready skipped) (sweep_and_report found ready lastLogID)))"

definition delete_found :: "env \<Rightarrow> foundUser list \<Rightarrow> nat \<Rightarrow> int \<Rightarrow> (goerr + unit) prog" where
  "delete_found env found skipped settle =
     attempt (query_row SelectMaxLog (scan1 scan_int)) (\<lambda>lastLogID.
     bind (stop_users env found skipped) (delete_stopped found lastLogID settle))"

definition deleteUsers :: "env \<Rightarrow> bool \<Rightarrow> int \<Rightarrow> string list \<Rightarrow> (goerr + unit) prog" where
  "deleteUsers env del settle args =
     (if settle < 0 then raise negative_settle
      else ids_or (UsageError ''give user ids as arguments or on stdin'') env args (\<lambda>ids.
        attempt (find_users ids 0) (\<lambda>(found, skipped).
        if \<not> del then say (line ''dry run: nothing deleted; run with --delete to delete'') (return ())
        else delete_found env found skipped settle)))"

section \<open>prune-seen and prune-logs\<close>

definition pruneSeen :: "bool \<Rightarrow> string list \<Rightarrow> (goerr + unit) prog" where
  "pruneSeen del args =
     (if \<not> del then attempt (query_row CountStaleSeen (scan1 scan_int)) (\<lambda>n.
        say (line (show_int n @ '' seen row(s) to delete; run with --delete to delete them'')) (return ()))
      else attempt (exec_sql DeleteStaleSeen) (\<lambda>n.
        say (line (''deleted '' @ show_nat n @ '' seen row(s)'')) (return ())))"

text \<open>
  The batches of one connection, then those of all. The loop has no bound of its own: \<open>fuel\<close> is
  the number of batches it may delete, and \<open>None\<close> says that it was not enough.
\<close>

fun prune_batches :: "nat \<Rightarrow> nat \<Rightarrow> string \<Rightarrow> nat \<Rightarrow> (goerr + nat) option prog" where
  "prune_batches 0 batch c gone = Ret None"
| "prune_batches (Suc fuel) batch c gone = bind ctx_err (\<lambda>r. case r of
     Inl err \<Rightarrow> say (line (''deleted '' @ show_nat gone @ '' log row(s) before stopping'')) (Ret (Some (Inl err)))
   | Inr _ \<Rightarrow> bind (exec_sql (DeleteOrphanBatch c batch)) (\<lambda>r. case r of
       Inl err \<Rightarrow> Ret (Some (Inl err))
     | Inr n \<Rightarrow> if n < batch then Ret (Some (Inr (gone + n))) else prune_batches fuel batch c (gone + n)))"

fun prune_all :: "nat \<Rightarrow> nat \<Rightarrow> string list \<Rightarrow> nat \<Rightarrow> (goerr + nat) option prog" where
  "prune_all fuel batch [] gone = Ret (Some (Inr gone))"
| "prune_all fuel batch (c # cs) gone = bind (prune_batches fuel batch c gone) (\<lambda>r. case r of
     Some (Inr gone) \<Rightarrow> prune_all fuel batch cs gone
   | _ \<Rightarrow> Ret r)"

definition pruneLogs :: "nat \<Rightarrow> bool \<Rightarrow> int \<Rightarrow> string list \<Rightarrow> (goerr + unit) option prog" where
  "pruneLogs fuel del batch args =
     (if batch < 1 then Ret (Some (Inl (UsageError ''--batch needs a positive number'')))
      else if \<not> del then bind (query_row CountOrphanLog (scan1 scan_int)) (\<lambda>r. case r of
          Inl err \<Rightarrow> Ret (Some (Inl err))
        | Inr n \<Rightarrow> say (line (show_int n @ '' log row(s) to delete; run with --delete to delete them'')) (Ret (Some (Inr ()))))
      else bind (query_all SelectOrphanLogConnections (scan1 scan_string)) (\<lambda>r. case r of
          Inl err \<Rightarrow> Ret (Some (Inl err))
        | Inr conns \<Rightarrow> bind (prune_all fuel (nat batch) conns 0) (\<lambda>r. case r of
            None \<Rightarrow> Ret None
          | Some (Inl err) \<Rightarrow> Ret (Some (Inl err))
          | Some (Inr gone) \<Rightarrow> say (line (''deleted '' @ show_nat gone @ '' log row(s)'')) (Ret (Some (Inr ()))))))"

section \<open>Nothing is deleted before it is destroyed\<close>

text \<open>
  The statements that can delete rows of connection \<open>c\<close> of user \<open>u\<close> (its own row, and those of the
  log, seen and private tables), and liercd's answer that it does not run it. Of the statements of
  \<open>userTables\<close>, those on the connection and seen tables delete by the user, whatever was listed.
\<close>

fun deletes :: "string \<Rightarrow> string \<Rightarrow> action \<Rightarrow> bool" where
  "deletes u c (TxExec (DeleteConnectionRows t i)) \<longleftrightarrow> i = c"
| "deletes u c (TxExec (DeleteUserRows t v cs)) \<longleftrightarrow> c \<in> set cs \<or> (v = u \<and> (t = Connection \<or> t = Seen))"
| "deletes u c (Exec (DeleteLateLog is)) \<longleftrightarrow> c \<in> set is"
| "deletes u c (Exec (DeleteLateUserLog n cs)) \<longleftrightarrow> c \<in> set cs"
| "deletes u c _ \<longleftrightarrow> False"

definition destroyed_event :: "string \<Rightarrow> event \<Rightarrow> bool" where
  "destroyed_event c e \<longleftrightarrow>
     (\<exists>b res. e = (Http b POST (trimSlash (c @ ''/destroy'')) None, Responded res) \<and> Status res \<in> {200, 404})"

definition careful :: "string \<Rightarrow> string \<Rightarrow> 'a prog \<Rightarrow> bool" where
  "careful owner c p \<longleftrightarrow> (\<forall>es a. runs p es a \<longrightarrow> guarded (destroyed_event c) (\<lambda>e. deletes owner c (fst e)) es)"

abbreviation quiet :: "string \<Rightarrow> string \<Rightarrow> 'a prog \<Rightarrow> bool" where
  "quiet owner c \<equiv> only (\<lambda>x. \<not> deletes owner c x)"

lemma careful_quiet: "quiet owner c p \<Longrightarrow> careful owner c p"
  unfolding careful_def by (blast intro: guarded_none dest: only_runs)

lemma careful_bind:
  assumes "careful owner c p" "\<And>es a. runs p es a \<Longrightarrow> (\<exists>e\<in>set es. destroyed_event c e) \<or> careful owner c (k a)"
  shows "careful owner c (bind p k)"
  unfolding careful_def runs_bind
proof (intro allI impI, elim exE conjE)
  fix es b es1 a es2
  assume "es = es1 @ es2" "runs p es1 a" "runs (k a) es2 b"
  then show "guarded (destroyed_event c) (\<lambda>e. deletes owner c (fst e)) es"
    using assms(1) assms(2) [of es1 a] by (auto simp: guarded_append careful_def)
qed

lemma careful_attempt:
  assumes "careful owner c p" "\<And>es a. runs p es (Inr a) \<Longrightarrow> (\<exists>e\<in>set es. destroyed_event c e) \<or> careful owner c (k a)"
  shows "careful owner c (attempt p k)"
  unfolding attempt_def
proof (rule careful_bind [OF assms(1)])
  fix es r assume "runs p es r"
  then show "(\<exists>e\<in>set es. destroyed_event c e) \<or> careful owner c (case r of Inl e \<Rightarrow> Ret (Inl e) | Inr a \<Rightarrow> k a)"
    using assms(2) by (cases r) (auto simp: careful_def)
qed

lemma careful_Ret [simp]: "careful owner c (Ret a)"
  by (simp add: careful_def)

lemma careful_say [intro!]: "careful owner c p \<Longrightarrow> careful owner c (say s p)"
  by (auto simp: careful_def runs_say)

lemma careful_if: "(b \<Longrightarrow> careful owner c p) \<Longrightarrow> (\<not> b \<Longrightarrow> careful owner c q) \<Longrightarrow> careful owner c (if b then p else q)"
  by simp

text \<open>Destroying: quiet, and \<open>destroyed_event\<close> when it gives no problem.\<close>

definition routed :: "env \<Rightarrow> bool" where
  "routed env \<longleftrightarrow> (\<exists>hosts. Liercd env = NewRouted hosts LookupLiercd)"

lemma routed_OpenEnv [simp]: "routed (OpenEnv hosts stdin tty now)"
  by (auto simp: routed_def OpenEnv_def)

lemma destroy_quiet [only_simps]: "routed env \<Longrightarrow> quiet owner c (destroy env i)"
  unfolding routed_def destroy_def by (auto intro!: only_bind only_Do simp: only_simps simp del: Do_pinned split: sum.split)

lemma destroy_done:
  assumes "routed env" "runs (destroy env i) es ''''"
  shows "\<exists>e\<in>set es. destroyed_event i e"
proof -
  obtain hosts where "Liercd env = NewRouted hosts LookupLiercd" using assms(1) by (auto simp: routed_def)
  with assms(2) obtain es1 r es2 where es: "es = es1 @ es2" and do_runs: "runs (Do (NewRouted hosts LookupLiercd) POST (i @ ''/destroy'') None) es1 r"
    and k: "runs (case r of Inl err \<Rightarrow> Ret (err_text err)
      | Inr res \<Rightarrow> if Status res = 200 \<or> Status res = 404 then Ret '''' else Ret (statusLine (Status res))) es2 ''''"
    by (auto simp: destroy_def runs_bind simp del: Do_pinned)
  from do_runs show ?thesis
  proof (cases rule: lookup.Do_events)
    case (responded es1' b x)
    with k have "Status x = 200 \<or> Status x = 404" by (auto simp: statusLine_def split: if_splits)
    with responded es show ?thesis by (auto simp: destroyed_event_def)
  qed (use k in \<open>auto simp: described_def\<close>)
qed

lemma in_tx_only [only_simps]: "S Begin \<Longrightarrow> S Commit \<Longrightarrow> S Rollback \<Longrightarrow> only S p \<Longrightarrow> only S (in_tx p)"
  unfolding in_tx_def by (intro only_attempt only_bind) (simp_all add: only_simps)

lemma delete_tables_quiet: "i \<noteq> c \<Longrightarrow> quiet owner c (delete_tables i ts)"
  by (induction ts) (auto intro!: only_attempt simp: only_simps)

lemma deleteRows_quiet: "i \<noteq> c \<Longrightarrow> quiet owner c (deleteRows i)"
  by (simp add: deleteRows_def only_simps delete_tables_quiet)

lemma delete_user_tables_quiet: "c \<notin> set cs \<Longrightarrow> u \<noteq> owner \<Longrightarrow> quiet owner c (delete_user_tables u cs ts)"
  by (induction ts) (auto intro!: only_attempt simp: only_simps)

lemma deleteUser_quiet: "c \<notin> set (fu_conns u) \<Longrightarrow> fu_id u \<noteq> owner \<Longrightarrow> quiet owner c (deleteUser u)"
  by (simp add: deleteUser_def only_simps delete_user_tables_quiet)

lemma destroy_all_quiet: "routed env \<Longrightarrow> quiet owner c (destroy_all env is sk)"
  by (induction "is" arbitrary: sk) (auto intro!: only_bind simp: only_simps split: prod.split)

lemma wp_any: "(\<And>h a. Q h a) \<Longrightarrow> wp p Q h"
  by (simp add: wp_iff)

lemma wp_destroy:
  assumes "routed env"
  shows "wp (destroy env i) (\<lambda>h' p. set h \<subseteq> set h' \<and> (p = '''' \<longrightarrow> (\<exists>e\<in>set h'. destroyed_event i e))) h"
  unfolding wp_iff using destroy_done [OF assms] by auto

lemma wp_destroy_all:
  assumes "routed env"
  shows "wp (destroy_all env is sk)
    (\<lambda>h' (ready, _). set h \<subseteq> set h' \<and> (\<forall>i\<in>set ready. \<exists>e\<in>set h'. destroyed_event i e)) h"
proof (induction "is" arbitrary: sk h)
  case (Cons j js)
  show ?case unfolding destroy_all.simps wp_bind
  proof (rule wp_mono [OF wp_destroy [OF assms]], elim conjE)
    fix h1 :: "event list" and p :: string
    assume h1: "set h \<subseteq> set h1" "p = '''' \<longrightarrow> (\<exists>e\<in>set h1. destroyed_event j e)"
    show "wp (if p \<noteq> '''' then say (line (j @ '': liercd said '' @ p @ '', skipped'')) (destroy_all env js (sk + 1))
        else bind (destroy_all env js sk) (\<lambda>(ready, skipped). Ret (j # ready, skipped)))
      (\<lambda>h' (ready, _). set h \<subseteq> set h' \<and> (\<forall>i\<in>set ready. \<exists>e\<in>set h'. destroyed_event i e)) h1"
      unfolding wp_if wp_say wp_bind
    proof (intro conjI impI)
      show "wp (destroy_all env js (sk + 1)) (\<lambda>h' (ready, _). set h \<subseteq> set h' \<and> (\<forall>i\<in>set ready. \<exists>e\<in>set h'. destroyed_event i e))
          (h1 @ [(Print (line (j @ '': liercd said '' @ p @ '', skipped'')), Done)])"
        by (rule wp_mono [OF Cons.IH]) (use h1 in auto)
    next
      assume "\<not> p \<noteq> ''''"
      then obtain d where d: "d \<in> set h1" "destroyed_event j d" using h1(2) by blast
      show "wp (destroy_all env js sk) (\<lambda>h' a. wp (case a of (ready, skipped) \<Rightarrow> Ret (j # ready, skipped))
          (\<lambda>h' (ready, _). set h \<subseteq> set h' \<and> (\<forall>i\<in>set ready. \<exists>e\<in>set h'. destroyed_event i e)) h') h1"
      proof (rule wp_mono [OF Cons.IH])
        fix h2 :: "event list" and a :: "string list \<times> nat"
        assume "case a of (ready, _) \<Rightarrow> set h1 \<subseteq> set h2 \<and> (\<forall>i\<in>set ready. \<exists>e\<in>set h2. destroyed_event i e)"
        moreover obtain ready n where a: "a = (ready, n)" by (cases a)
        ultimately have "set h1 \<subseteq> set h2" "\<forall>i\<in>set ready. \<exists>e\<in>set h2. destroyed_event i e" by simp_all
        then have "set h \<subseteq> set h2" "\<forall>i\<in>set (j # ready). \<exists>e\<in>set h2. destroyed_event i e" using h1(1) d by fastforce+
        then show "wp (case a of (ready, skipped) \<Rightarrow> Ret (j # ready, skipped))
          (\<lambda>h' (ready, _). set h \<subseteq> set h' \<and> (\<forall>i\<in>set ready. \<exists>e\<in>set h'. destroyed_event i e)) h2" by (simp add: a)
      qed
    qed
  qed
qed simp

lemma delete_ready_quiet: "c \<notin> set is \<Longrightarrow> quiet owner c (delete_ready is done sk)"
  by (induction "is" arbitrary: "done" sk) (auto intro!: only_bind simp: only_simps deleteRows_quiet split: sum.split)

lemma wp_delete_ready:
  "wp (delete_ready is done sk) (\<lambda>_ (done', _, _). set done' \<subseteq> set done \<union> set is) h"
proof (induction "is" arbitrary: "done" sk h)
  case (Cons i "is")
  have IH: "wp (delete_ready is dn sk') (\<lambda>_ (done', _, _). set done' \<subseteq> set done \<union> set (i # is)) h'"
    if "set dn \<subseteq> insert i (set done)" for dn sk' h'
    by (rule wp_mono [OF Cons.IH]) (use that in auto)
  have del: "wp (deleteRows i) (\<lambda>h r. wp (case r of
         Inl err \<Rightarrow> say (line (i @ '': failed, nothing deleted: '' @ err_text err)) (delete_ready is done (sk + 1))
       | Inr counts \<Rightarrow> say (line (i @ '': deleted ('' @ counted connectionTables (map int counts) @ '')''))
           (delete_ready is (done @ [i]) sk)) (\<lambda>_ (done', _, _). set done' \<subseteq> set done \<union> set (i # is)) h) h'" for h'
    by (rule wp_any) (unfold wp_sum wp_say, intro conjI allI impI IH, auto)
  show ?case unfolding delete_ready.simps wp_bind wp_ctx_err sum.case wp.simps prod.case
    by (intro conjI allI impI; (rule del)?) auto
qed simp

lemma settle_and_delete_careful:
  assumes "c \<notin> set ready"
  shows "careful owner c (settle_and_delete settle (ready, sk))"
proof -
  have "careful owner c (sweep_done (dn, sk', err))" if "c \<notin> set dn" for dn sk' err
    using that by (auto simp: sweep_done_def only_simps intro!: careful_quiet only_bind split: sum.split)
  moreover have "c \<notin> set dn" if "runs (delete_ready ready [] sk) es (dn, sk', err)" for es dn sk' err
    using wp_runs [OF wp_delete_ready that] assms by auto
  ultimately have "careful owner c (bind (delete_ready ready [] sk) sweep_done)"
    by (intro careful_bind [OF careful_quiet [OF delete_ready_quiet [OF assms]]] disjI2) auto
  then have "careful owner c (bind (sleep settle) (case_sum (\<lambda>err. Ret (0, sk, Some err)) (\<lambda>_. bind (delete_ready ready [] sk) sweep_done)))"
    by (intro careful_bind [OF careful_quiet] disjI2) (auto simp: only_simps split: sum.split)
  then show ?thesis by (simp add: settle_and_delete_def)
qed

lemma destroyAndDelete_careful:
  assumes "routed env"
  shows "careful owner c (destroyAndDelete env ids settle)"
  unfolding destroyAndDelete_def
proof (rule careful_bind [OF careful_quiet [OF destroy_all_quiet [OF assms]]])
  fix es a assume "runs (destroy_all env ids 0) es a"
  moreover obtain ready sk where a: "a = (ready, sk)" by (cases a)
  ultimately have "\<exists>e\<in>set es. destroyed_event c e" if "c \<in> set ready"
    using wp_runs [OF wp_destroy_all [OF assms]] that by fastforce
  then show "(\<exists>e\<in>set es. destroyed_event c e) \<or> careful owner c (settle_and_delete settle a)"
    unfolding a using settle_and_delete_careful by blast
qed

lemma destroy_user_quiet: "routed env \<Longrightarrow> quiet owner c (destroy_user env u cs)"
  by (induction cs) (auto intro!: only_bind simp: only_simps)

lemma wp_destroy_user:
  assumes "routed env"
  shows "wp (destroy_user env u cs) (\<lambda>h' ok. set h \<subseteq> set h' \<and> (ok \<longrightarrow> (\<forall>c\<in>set cs. \<exists>e\<in>set h'. destroyed_event c e))) h"
proof (induction cs arbitrary: h)
  case (Cons c cs)
  show ?case unfolding destroy_user.simps wp_bind
  proof (rule wp_mono [OF wp_destroy [OF assms]], elim conjE)
    fix h1 :: "event list" and p :: string
    assume h1: "set h \<subseteq> set h1" "p = '''' \<longrightarrow> (\<exists>e\<in>set h1. destroyed_event c e)"
    have "wp (destroy_user env u cs)
        (\<lambda>h' ok. set h \<subseteq> set h' \<and> (ok \<longrightarrow> (\<forall>c\<in>set (c # cs). \<exists>e\<in>set h'. destroyed_event c e))) h1" if no_problem: "p = ''''"
    proof (rule wp_mono [OF Cons.IH], elim conjE, intro conjI impI)
      fix h2 :: "event list" and ok
      assume h2: "set h1 \<subseteq> set h2" "ok \<longrightarrow> (\<forall>c\<in>set cs. \<exists>e\<in>set h2. destroyed_event c e)"
      show "set h \<subseteq> set h2" using h1(1) h2(1) by (rule subset_trans)
      assume ok
      obtain d where "d \<in> set h1" "destroyed_event c d" using h1(2) no_problem by blast
      with h2 \<open>ok\<close> show "\<forall>c\<in>set (c # cs). \<exists>e\<in>set h2. destroyed_event c e" by (fastforce simp del: split_paired_Ex)
    qed
    with h1(1) show "wp (if p \<noteq> '''' then
         say (line (u @ '': connection '' @ c @ '': liercd said '' @ p @ '', skipping this user'')) (Ret False)
       else destroy_user env u cs)
       (\<lambda>h' ok. set h \<subseteq> set h' \<and> (ok \<longrightarrow> (\<forall>c\<in>set (c # cs). \<exists>e\<in>set h'. destroyed_event c e))) h1"
      by (auto simp: wp_say)
  qed
qed simp

lemma stop_users_quiet: "routed env \<Longrightarrow> quiet owner c (stop_users env us sk)"
  by (induction us arbitrary: sk) (auto intro!: only_bind destroy_user_quiet simp: only_simps split: prod.split)

definition stopped :: "event list \<Rightarrow> foundUser list \<Rightarrow> bool" where
  "stopped h ready \<longleftrightarrow> (\<forall>u\<in>set ready. \<forall>c\<in>set (fu_conns u). \<exists>e\<in>set h. destroyed_event c e)"

lemma wp_stop_users:
  assumes "routed env"
  shows "wp (stop_users env us sk) (\<lambda>h' (ready, _). set h \<subseteq> set h' \<and> stopped h' ready) h"
proof (induction us arbitrary: sk h)
  case (Cons u us)
  show ?case unfolding stop_users.simps wp_bind
  proof (rule wp_mono [OF wp_destroy_user [OF assms]], elim conjE)
    fix h1 :: "event list" and ok
    assume h1: "set h \<subseteq> set h1" "ok \<longrightarrow> (\<forall>c\<in>set (fu_conns u). \<exists>e\<in>set h1. destroyed_event c e)"
    have skip: "wp (stop_users env us (sk + 1)) (\<lambda>h' (ready, _). set h \<subseteq> set h' \<and> stopped h' ready) h1"
      by (rule wp_mono [OF Cons.IH]) (use h1(1) in \<open>clarsimp, blast\<close>)
    have stop: "wp (bind (stop_users env us sk) (\<lambda>(ready, skipped). Ret (u # ready, skipped)))
        (\<lambda>h' (ready, _). set h \<subseteq> set h' \<and> stopped h' ready) h1" if ok
      unfolding wp_bind
    proof (rule wp_mono [OF Cons.IH])
      fix h2 :: "event list" and a :: "foundUser list \<times> nat"
      assume "case a of (ready, _) \<Rightarrow> set h1 \<subseteq> set h2 \<and> stopped h2 ready"
      moreover obtain ready n where a: "a = (ready, n)" by (cases a)
      ultimately have h2: "set h1 \<subseteq> set h2" "stopped h2 ready" by simp_all
      then have "set h \<subseteq> set h2" "stopped h2 (u # ready)" using h1 that unfolding stopped_def by fastforce+
      then show "wp (case a of (ready, skipped) \<Rightarrow> Ret (u # ready, skipped))
          (\<lambda>h' (ready, _). set h \<subseteq> set h' \<and> stopped h' ready) h2" by (simp add: a)
    qed
    show "wp (if \<not> ok then stop_users env us (sk + 1)
        else bind (stop_users env us sk) (\<lambda>(ready, skipped). Ret (u # ready, skipped)))
      (\<lambda>h' (ready, _). set h \<subseteq> set h' \<and> stopped h' ready) h1"
      using skip stop by auto
  qed
qed (simp add: stopped_def)

lemma delete_ready_users_quiet: "\<forall>u\<in>set us. c \<notin> set (fu_conns u) \<and> fu_id u \<noteq> owner \<Longrightarrow> quiet owner c (delete_ready_users us sk)"
  by (induction us arbitrary: sk)
    (auto intro!: only_bind only_attempt simp: only_simps deleteUser_quiet split: sum.split prod.split)

lemma wp_delete_ready_users:
  "wp (delete_ready_users us sk) (\<lambda>_ r. \<forall>deleted n. r = Inr (deleted, n) \<longrightarrow> set deleted \<subseteq> set us) h"
proof (induction us arbitrary: sk h)
  case (Cons u us)
  have IH: "wp (delete_ready_users us k) (\<lambda>_ r. \<forall>deleted n. r = Inr (deleted, n) \<longrightarrow> set deleted \<subseteq> set (u # us)) h" for k h
    by (rule wp_mono [OF Cons.IH]) auto
  have IH2: "wp (attempt (delete_ready_users us sk) (\<lambda>(deleted, skipped). return (u # deleted, skipped)))
      (\<lambda>_ r. \<forall>deleted n. r = Inr (deleted, n) \<longrightarrow> set deleted \<subseteq> set (u # us)) h" for h
    unfolding wp_attempt by (rule wp_mono [OF Cons.IH]) (auto split: sum.split)
  have del: "wp (deleteUser u) (\<lambda>h r. wp (case r of
         Inl err \<Rightarrow> say (line (fu_id u @ '': failed, nothing deleted: '' @ err_text err)) (delete_ready_users us (sk + 1))
       | Inr _ \<Rightarrow> say (line (fu_id u @ '': deleted''))
           (attempt (delete_ready_users us sk) (\<lambda>(deleted, skipped). return (u # deleted, skipped))))
       (\<lambda>_ r. \<forall>deleted n. r = Inr (deleted, n) \<longrightarrow> set deleted \<subseteq> set (u # us)) h) h'" for h'
    by (rule wp_any) (unfold wp_sum wp_say, intro conjI allI impI IH IH2)
  show ?case unfolding delete_ready_users.simps wp_attempt wp_bind wp_ctx_err sum.case
    by (intro conjI allI impI; (rule del)?) auto
qed simp

lemma sweep_late_quiet: "\<forall>u\<in>set us. c \<notin> set (fu_conns u) \<Longrightarrow> quiet owner c (sweep_late n us)"
  by (induction us) (auto intro!: only_attempt simp: only_simps)

lemma delete_stopped_careful:
  assumes "\<forall>u\<in>set ready. c \<notin> set (fu_conns u) \<and> fu_id u \<noteq> owner"
  shows "careful owner c (delete_stopped found n settle (ready, sk))"
proof -
  have "careful owner c (sweep_and_report found ready n (deleted, k))" if "set deleted \<subseteq> set ready" for deleted k
  proof -
    have "quiet owner c (sweep_late n deleted)" using that assms by (intro sweep_late_quiet) blast
    then show ?thesis unfolding sweep_and_report_def
      by (intro careful_quiet) (auto intro!: only_attempt simp: only_simps)
  qed
  moreover have "set deleted \<subseteq> set ready" if "runs (delete_ready_users ready sk) es (Inr (deleted, k))" for es deleted k
    using wp_runs [OF wp_delete_ready_users that] by blast
  ultimately have "careful owner c (attempt (delete_ready_users ready sk) (sweep_and_report found ready n))"
    by (intro careful_attempt [OF careful_quiet [OF delete_ready_users_quiet [OF assms]]] disjI2) auto
  then show ?thesis unfolding delete_stopped_def prod.case
    by (rule careful_attempt [OF careful_quiet, OF _ disjI2, rotated]) (simp add: only_simps)
qed

lemma find_users_only:
  assumes "\<And>q. S (Query q)" "\<And>s. S (Print s)"
  shows "only S (find_users is sk)"
proof -
  have "only S (count_user u cs ts)" for u cs ts
    by (induction ts) (auto intro!: only_attempt simp: only_simps assms)
  then show ?thesis
    by (induction "is" arbitrary: sk) (auto intro!: only_bind only_attempt simp: only_simps assms split: sum.split prod.split)
qed

lemma find_connections_only:
  assumes "\<And>q. S (Query q)" "\<And>s. S (Print s)"
  shows "only S (find_connections is)"
proof -
  have "only S (count_connection i ts)" for i ts
    by (induction ts) (auto intro!: only_attempt simp: only_simps assms)
  then show ?thesis
    by (induction "is") (auto intro!: only_bind only_attempt simp: only_simps Let_def assms split: sum.split prod.split)
qed

text \<open>What was found lists the connection, if it is the owner's.\<close>

definition lists :: "string \<Rightarrow> string \<Rightarrow> foundUser list \<Rightarrow> bool" where
  "lists owner c us \<longleftrightarrow> (\<forall>u\<in>set us. fu_id u = owner \<longrightarrow> c \<in> set (fu_conns u))"

lemma wp_stop_users_subset: "wp (stop_users env us sk) (\<lambda>_ (ready, _). set ready \<subseteq> set us) h"
proof (induction us arbitrary: sk h)
  case (Cons u us)
  have IH: "wp (stop_users env us k) (\<lambda>_ (ready, _). set ready \<subseteq> set (u # us)) h" for k h
    by (rule wp_mono [OF Cons.IH]) auto
  have IH2: "wp (bind (stop_users env us sk) (\<lambda>(ready, skipped). Ret (u # ready, skipped))) (\<lambda>_ (ready, _). set ready \<subseteq> set (u # us)) h" for h
    unfolding wp_bind by (rule wp_mono [OF Cons.IH]) auto
  show ?case unfolding stop_users.simps wp_bind by (rule wp_any) (unfold wp_if, intro conjI impI IH IH2)
qed simp

lemma delete_found_careful:
  assumes "routed env" "lists owner c found"
  shows "careful owner c (delete_found env found sk settle)"
proof -
  have "careful owner c (bind (stop_users env found sk) (delete_stopped found n settle))" for n
  proof (rule careful_bind [OF careful_quiet [OF stop_users_quiet [OF assms(1)]]])
    fix es a assume runs: "runs (stop_users env found sk) es a"
    moreover obtain ready k where a: "a = (ready, k)" by (cases a)
    ultimately have "stopped es ready" using wp_runs [OF wp_stop_users [OF assms(1)]] by fastforce
    moreover have "set ready \<subseteq> set found" using wp_runs [OF wp_stop_users_subset runs] a by simp
    then have "lists owner c ready" using assms(2) unfolding lists_def by blast
    ultimately show "(\<exists>e\<in>set es. destroyed_event c e) \<or> careful owner c (delete_stopped found n settle a)"
      unfolding a stopped_def lists_def using delete_stopped_careful [of ready c owner] by blast
  qed
  then show ?thesis unfolding delete_found_def
    by (intro careful_attempt [OF careful_quiet] disjI2) (auto simp: only_simps)
qed

lemma careful_attempt': "quiet owner c p \<Longrightarrow> (\<And>a. careful owner c (k a)) \<Longrightarrow> careful owner c (attempt p k)"
  by (rule careful_attempt [OF careful_quiet]) auto

lemma delete_targets_careful: "routed env \<Longrightarrow> careful owner c (delete_targets env ids settle)"
  unfolding delete_targets_def
  by (rule careful_bind [OF destroyAndDelete_careful]) (auto intro!: careful_say split: option.split)

lemma connectionProblem_only: "(\<And>h. S (Resolve h)) \<Longrightarrow> only S (connectionProblem U getenv raw withDNS)"
  unfolding connectionProblem_def CheckHost_def
  by (auto intro!: only_bind simp: only_simps Let_def split: option.split json.split sum.split)

lemma check_all_only: "(\<And>h. S (Resolve h)) \<Longrightarrow> (\<And>s. S (Print s)) \<Longrightarrow> only S (check_all U getenv withDNS rows valid)"
  by (induction rows arbitrary: valid)
    (auto intro!: only_bind connectionProblem_only simp: only_simps split: prod.split)

lemma print_missing_only: "(\<And>s. S (Print s)) \<Longrightarrow> only S (print_missing found is)"
  by (induction "is") (auto simp: only_simps)

lemma delete_invalid_careful: "routed env \<Longrightarrow> careful owner c (delete_invalid env del unresolved settle invalid)"
  unfolding delete_invalid_def Let_def by (auto intro!: careful_say delete_targets_careful)

lemma checkConnections_careful: "routed env \<Longrightarrow> careful owner c (checkConnections U getenv env del unresolved noDNS settle args)"
  unfolding checkConnections_def
  by (auto intro!: careful_attempt careful_bind careful_say delete_invalid_careful
      simp: print_missing_only check_all_only only_simps careful_quiet split: sum.split)

lemma deleteConnections_careful: "routed env \<Longrightarrow> careful owner c (deleteConnections env del settle args)"
  unfolding deleteConnections_def ids_or_def
  by (auto intro!: careful_attempt' find_connections_only careful_say delete_targets_careful split: sum.split)

text \<open>
  What \<open>find_users\<close> found are the connections that the database listed of each user. So a run of
  delete-users is careful of a connection that every listing of its owner named.
\<close>

definition listings :: "string \<Rightarrow> string \<Rightarrow> event list \<Rightarrow> bool" where
  "listings owner c es \<longleftrightarrow> (\<forall>rows. (Query (SelectUserConnections owner), Rows rows) \<in> set es \<longrightarrow> [Text c] \<in> set rows)"

lemma scan_rows_mem: "scan_rows scan rows = Inr xs \<Longrightarrow> row \<in> set rows \<Longrightarrow> scan row = Inr a \<Longrightarrow> a \<in> set xs"
  by (induction rows arbitrary: xs) (auto split: sum.splits)

lemma wp_count_user: "wp (count_user u cs ts) (\<lambda>h' _. set h \<subseteq> set h') h"
  by (simp add: wp_iff)

definition found_listed :: "event list \<Rightarrow> event list \<Rightarrow> goerr + foundUser list \<times> nat \<Rightarrow> bool" where
  "found_listed h h' r \<longleftrightarrow> set h \<subseteq> set h' \<and> (\<forall>found k. r = Inr (found, k) \<longrightarrow> (\<forall>u\<in>set found. \<exists>rows.
     (Query (SelectUserConnections (fu_id u)), Rows rows) \<in> set h' \<and> scan_rows (scan1 scan_string) rows = Inr (fu_conns u)))"

lemma found_listed_Inl [simp]: "found_listed h h' (Inl e) \<longleftrightarrow> set h \<subseteq> set h'"
  by (simp add: found_listed_def)

lemma found_listed_mono: "found_listed h h' r \<Longrightarrow> set g \<subseteq> set h \<Longrightarrow> found_listed g h' r"
  unfolding found_listed_def by blast

lemma found_listed_Cons:
  "found_listed g h' (Inr (found, k)) \<Longrightarrow> set h \<subseteq> set g \<Longrightarrow> (Query (SelectUserConnections i), Rows rows) \<in> set g \<Longrightarrow>
     scan_rows (scan1 scan_string) rows = Inr conns \<Longrightarrow>
     found_listed h h' (Inr (\<lparr>fu_id = i, fu_username = name, fu_email = email, fu_conns = conns\<rparr> # found, k))"
  unfolding found_listed_def by fastforce

lemma wp_find_users: "wp (find_users is sk) (found_listed h) h"
proof (induction "is" arbitrary: sk h)
  case Nil
  then show ?case by (simp add: found_listed_def)
next
  case (Cons i "is")
  have more: "wp (find_users is k) (found_listed h) h'" if "set h \<subseteq> set h'" for k h'
    by (rule wp_mono [OF Cons.IH]) (rule found_listed_mono [OF _ that])
  have one: "wp (attempt (count_user i conns userTables) (\<lambda>counts.
         say (shown counts)
           (attempt (find_users is sk) (\<lambda>(found, skipped).
              return (\<lparr>fu_id = i, fu_username = name, fu_email = email, fu_conns = conns\<rparr> # found, skipped))))) (found_listed h) g"
    if g: "set h \<subseteq> set g" "(Query (SelectUserConnections i), Rows rows) \<in> set g" "scan_rows (scan1 scan_string) rows = Inr conns"
    for name email conns rows g shown
    unfolding wp_attempt [of "count_user i conns userTables"]
  proof (rule wp_mono [OF wp_count_user])
    fix h' :: "event list" and a :: "goerr + int list"
    assume h': "set g \<subseteq> set h'"
    have "wp (attempt (find_users is sk) (\<lambda>(found, skipped).
              return (\<lparr>fu_id = i, fu_username = name, fu_email = email, fu_conns = conns\<rparr> # found, skipped))) (found_listed h) (h' @ [x])" for x
      unfolding wp_attempt
    proof (rule wp_mono [OF Cons.IH])
      fix h2 and r :: "goerr + foundUser list \<times> nat"
      assume f: "found_listed (h' @ [x]) h2 r"
      have s: "set h \<subseteq> set (h' @ [x])" "(Query (SelectUserConnections i), Rows rows) \<in> set (h' @ [x])" using g h' by auto
      show "case r of Inl e \<Rightarrow> found_listed h h2 (Inl e)
        | Inr a \<Rightarrow> wp (case a of (found, skipped) \<Rightarrow>
            return (\<lparr>fu_id = i, fu_username = name, fu_email = email, fu_conns = conns\<rparr> # found, skipped)) (found_listed h) h2"
      proof (cases r)
        case (Inr a)
        then show ?thesis using f by (cases a) (simp add: found_listed_Cons [OF _ s(1) s(2) g(3)])
      next
        case (Inl e)
        then show ?thesis using f s(1) by (simp add: subset_trans)
      qed
    qed
    then show "case a of Inl e \<Rightarrow> found_listed h h' (Inl e)
        | Inr counts \<Rightarrow> wp (say (shown counts)
           (attempt (find_users is sk) (\<lambda>(found, skipped).
              return (\<lparr>fu_id = i, fu_username = name, fu_email = email, fu_conns = conns\<rparr> # found, skipped)))) (found_listed h) h'"
      using g h' by (simp only: wp_say split: sum.split) auto
  qed
  show ?case unfolding find_users.simps wp_bind wp_query_row
  proof (intro conjI allI impI)
    fix row rows
    show "wp (case scan2 scan_string scan_string row of
       Inl err \<Rightarrow> if err = ErrNoRows then say (line (i @ '': no such user, skipped'')) (find_users is (sk + 1)) else raise err
     | Inr (username, email) \<Rightarrow> attempt (query_all (SelectUserConnections i) (scan1 scan_string)) (\<lambda>conns.
         attempt (count_user i conns userTables) (\<lambda>counts.
         say (line (i @ '' ('' @ username @ '', '' @ email @ ''): '' @ counted userTables counts))
           (attempt (find_users is sk) (\<lambda>(found, skipped).
              return (\<lparr>fu_id = i, fu_username = username, fu_email = email, fu_conns = conns\<rparr> # found, skipped))))))
       (found_listed h) (h @ [(Query (SelectUser i), Rows (row # rows))])"
    proof (cases "scan2 scan_string scan_string row")
      case (Inr p)
      then show ?thesis
        by (cases p) (auto simp: wp_attempt [of "query_all q s" for q s] wp_query_all intro!: one split: sum.split)
    qed (auto simp: wp_say intro!: more)
  qed (auto simp: wp_say intro!: more)
qed

lemma deleteUsers_careful:
  assumes "routed env" "runs (deleteUsers env del settle args) es r" "es = xs @ e # ys" "deletes owner c (fst e)" "listings owner c xs"
  shows "\<exists>d\<in>set xs. destroyed_event c d"
proof -
  from assms(2-4) obtain ids where ids: "runs (attempt (find_users ids 0) (\<lambda>(found, skipped).
        if \<not> del then say (line ''dry run: nothing deleted; run with --delete to delete'') (return ())
        else delete_found env found skipped settle)) es r"
    by (auto simp: deleteUsers_def ids_or_def split: if_splits sum.splits)
  have quiet: "\<forall>e\<in>set fs. \<not> deletes owner c (fst e)" if "runs (find_users ids 0) fs q" for fs q
    using only_runs [OF find_users_only that, of "\<lambda>x. \<not> deletes owner c x"] by simp
  from ids consider err where "runs (find_users ids 0) es (Inl err)"
    | fs found sk gs where "es = fs @ gs" "runs (find_users ids 0) fs (Inr (found, sk))"
        "runs (if \<not> del then say (line ''dry run: nothing deleted; run with --delete to delete'') (return ())
        else delete_found env found sk settle) gs r"
    unfolding runs_attempt by fastforce
  then show ?thesis
  proof cases
    case 1
    with quiet assms(3,4) show ?thesis by auto
  next
    case (2 fs found sk gs)
    then have "es = fs @ gs" "\<forall>e\<in>set fs. \<not> deletes owner c (fst e)" using quiet by blast+
    then obtain xs' where xs: "xs = fs @ xs'" "gs = xs' @ e # ys"
      using assms(3,4) by (auto simp: append_eq_append_conv2 Cons_eq_append_conv)
    have "lists owner c found" unfolding lists_def
    proof (intro ballI impI)
      fix u assume u: "u \<in> set found" "fu_id u = owner"
      with wp_runs [OF wp_find_users 2(2)] obtain rows where
        rows: "(Query (SelectUserConnections owner), Rows rows) \<in> set fs" "scan_rows (scan1 scan_string) rows = Inr (fu_conns u)"
        unfolding found_listed_def by auto
      with assms(5) xs(1) have "[Text c] \<in> set rows" unfolding listings_def by auto
      then show "c \<in> set (fu_conns u)" by (rule scan_rows_mem [OF rows(2)]) simp
    qed
    then have "careful owner c (if \<not> del then say (line ''dry run: nothing deleted; run with --delete to delete'') (return ())
        else delete_found env found sk settle)" using assms(1) by (auto intro: delete_found_careful)
    then have "guarded (destroyed_event c) (\<lambda>e. deletes owner c (fst e)) gs" using 2(3) unfolding careful_def by blast
    then show ?thesis using assms(4) unfolding xs guarded_iff by fastforce
  qed
qed

text \<open>
  C22. Whatever liercd, the database and DNS answer, also when the command is interrupted between any
  two of its actions: before delete-connections, check-connections or delete-users sends a statement
  that deletes rows of a connection, liercd has answered that connection's destroy request with 200 or
  404; for delete-users if the connection was in the list of its owner's connections that the database
  gave. (One that was not, because it was created after that, loses its row undestroyed:
  \<open>deleteUser_misses_new_connection\<close>.)
\<close>

theorem delete_after_destroy:
  assumes "reaches p es q"
    "p \<in> {deleteConnections (OpenEnv hosts stdin tty now) del settle args, deleteUsers (OpenEnv hosts stdin tty now) del settle args,
       checkConnections U getenv (OpenEnv hosts stdin tty now) del unresolved noDNS settle args}"
    "es = xs @ e # ys" "deletes owner c (fst e)"
    "\<And>rows. (Query (SelectUserConnections owner), Rows rows) \<in> set xs \<Longrightarrow> [Text c] \<in> set rows"
  shows "\<exists>d\<in>set xs. destroyed_event c d"
proof -
  obtain es' a where rest: "runs q es' a" using runs_total [of q] by blast
  have runs: "runs p (xs @ e # ys @ es') a" using reaches_runs [OF assms(1) rest] assms(3) by simp
  show ?thesis
  proof (cases "p = deleteUsers (OpenEnv hosts stdin tty now) del settle args")
    case True
    show ?thesis
      by (rule deleteUsers_careful [OF routed_OpenEnv runs [unfolded True] refl assms(4)]) (use assms(5) in \<open>auto simp: listings_def\<close>)
  next
    case False
    then have "careful owner c p" using assms(2) by (auto intro!: checkConnections_careful deleteConnections_careful)
    then have "guarded (destroyed_event c) (\<lambda>e. deletes owner c (fst e)) (xs @ e # ys @ es')" using runs unfolding careful_def by blast
    then show ?thesis using assms(4) unfolding guarded_iff by blast
  qed
qed

section \<open>A dry run changes nothing\<close>

text \<open>
  Without \<^verbatim>\<open>--delete\<close> the three commands only query the database, resolve names and print.
\<close>

lemma dry_run_only:
  "only harmless (deleteConnections env False settle args)"
  "only harmless (deleteUsers env False settle args)"
  "only harmless (checkConnections U getenv env False unresolved noDNS settle args)"
  unfolding deleteConnections_def deleteUsers_def checkConnections_def ids_or_def
  by (auto intro!: only_attempt only_bind find_connections_only find_users_only print_missing_only check_all_only
      simp: only_simps delete_invalid_def split: sum.split prod.split)

section \<open>A user is deleted in one transaction\<close>

text \<open>
  What is gone of user \<open>u\<close> and the listed connections \<open>cs\<close>: the user's rows in the tables that are
  deleted from by user (user, connection, seen, pref, web push), and the rows of the connections in
  those that are deleted from by connection (log, seen, private). The log has a user column too, but
  the statement does not go by it: \<open>no_row\<close> says that no table has a row of the user's.
\<close>

definition gone :: "tables \<Rightarrow> string \<Rightarrow> string list \<Rightarrow> bool" where
  "gone t u cs \<longleftrightarrow> (\<forall>r\<in>set (users t). u_id r \<noteq> u) \<and> (\<forall>r\<in>set (connections t). c_user r \<noteq> u) \<and>
     (\<forall>r\<in>set (logs t). l_connection r \<notin> set cs) \<and> (\<forall>r\<in>set (seens t). s_user r \<noteq> u \<and> s_connection r \<notin> set cs) \<and>
     (\<forall>r\<in>set (privates t). p_connection r \<notin> set cs) \<and> (\<forall>r\<in>set (prefs t). fst r \<noteq> u) \<and> (\<forall>r\<in>set (web_pushes t). fst r \<noteq> u)"

definition no_row :: "tables \<Rightarrow> string \<Rightarrow> bool" where
  "no_row t u \<longleftrightarrow> (\<forall>r\<in>set (users t). u_id r \<noteq> u) \<and> (\<forall>r\<in>set (connections t). c_user r \<noteq> u) \<and>
     (\<forall>r\<in>set (logs t). l_user r \<noteq> u) \<and> (\<forall>r\<in>set (seens t). s_user r \<noteq> u) \<and>
     (\<forall>r\<in>set (prefs t). fst r \<noteq> u) \<and> (\<forall>r\<in>set (web_pushes t). fst r \<noteq> u)"

definition delete_user :: "foundUser \<Rightarrow> tables \<Rightarrow> tables" where
  "delete_user u t = apply_all (map (\<lambda>tab. DeleteUserRows tab (fu_id u) (fu_conns u)) userTables) t"

lemma delete_user_gone: "gone (delete_user u t) (fu_id u) (fu_conns u)"
  by (simp add: delete_user_def apply_all_def userTables_def gone_def)

lemma delete_user_no_row:
  "(\<forall>r\<in>set (logs t). l_user r = fu_id u \<longrightarrow> l_connection r \<in> set (fu_conns u)) \<longleftrightarrow> no_row (delete_user u t) (fu_id u)"
  by (auto simp: delete_user_def apply_all_def userTables_def no_row_def)

definition changes_tables :: "action \<Rightarrow> bool" where
  "changes_tables x \<longleftrightarrow> x = Commit \<or> (\<exists>s. x = Exec s)"

lemma result_delete_user_tables:
  "pending w = Some ss \<Longrightarrow> result (serve handle) (delete_user_tables u cs ts) w =
     (Inr (), w\<lparr>pending := Some (ss @ map (\<lambda>tab. DeleteUserRows tab u cs) ts)\<rparr>)"
proof (induction ts arbitrary: w ss)
  case (Cons t ts)
  have "result (serve handle) (tx_exec (DeleteUserRows t u cs)) w =
      (Inr (fst (execute (DeleteUserRows t u cs) (apply_all ss (db w)))), w\<lparr>pending := Some (ss @ [DeleteUserRows t u cs])\<rparr>)"
    using Cons.prems by (simp add: tx_exec_def result_Act del: execute.simps)
  then show ?case using Cons.IH [of "w\<lparr>pending := Some (ss @ [DeleteUserRows t u cs])\<rparr>" "ss @ [DeleteUserRows t u cs]"]
    by (simp add: result_attempt del: execute.simps)
qed simp

lemma result_deleteUser:
  "result (serve handle) (deleteUser u) w = (Inr (), w\<lparr>db := delete_user u (db w), pending := None\<rparr>)"
  unfolding deleteUser_def in_tx_def result_attempt
  by (simp add: begin_tx_def commit_def rollback_def result_Act result_bind result_attempt unit_reply_def
      result_delete_user_tables [where ss = "[]"] delete_user_def)

lemma runs_delete_user_tables:
  "runs (delete_user_tables u cs ts) es r \<Longrightarrow> Commit \<notin> fst ` set es \<and>
    (r = Inr () \<and> map fst es = map (\<lambda>t. TxExec (DeleteUserRows t u cs)) ts \<or> (\<exists>e. r = Inl e))"
proof (induction ts arbitrary: es)
  case (Cons t ts)
  from Cons.prems consider e where "es = [(TxExec (DeleteUserRows t u cs), Failed e)]" "r = Inl e"
    | n es2 where "es = (TxExec (DeleteUserRows t u cs), Affected n) # es2" "runs (delete_user_tables u cs ts) es2 r"
    by (auto simp: runs_attempt runs_tx_exec)
  then show ?case using Cons.IH by cases auto
qed simp

lemma runs_in_tx:
  assumes "runs (in_tx p) es r"
  obtains (not_begun) e where "es = [(Begin, Failed e)]" "r = Inl e"
  | (failed) es1 e where "es = (Begin, Done) # es1 @ [(Rollback, Done)]" "runs p es1 (Inl e)" "r = Inl e"
  | (not_committed) es1 a e where "es = (Begin, Done) # es1 @ [(Commit, Failed e), (Rollback, Done)]" "runs p es1 (Inr a)" "r = Inl e"
  | (committed) es1 a where "es = (Begin, Done) # es1 @ [(Commit, Done), (Rollback, Done)]" "runs p es1 (Inr a)" "r = Inr a"
proof -
  from assms consider e where "es = [(Begin, Failed e)]" "r = Inl e"
    | es2 where "es = (Begin, Done) # es2"
        "runs (bind (attempt p (\<lambda>a. attempt commit (\<lambda>_. return a))) (\<lambda>r. bind rollback (\<lambda>_. Ret r))) es2 r"
    by (auto simp: in_tx_def runs_attempt runs_begin_tx)
  then show thesis
  proof cases
    case 2
    then obtain es3 where es3: "es2 = es3 @ [(Rollback, Done)]" "runs (attempt p (\<lambda>a. attempt commit (\<lambda>_. return a))) es3 r"
      by (auto simp: runs_bind runs_rollback)
    then consider e where "runs p es3 (Inl e)" "r = Inl e"
      | es4 a es5 where "es3 = es4 @ es5" "runs p es4 (Inr a)" "runs (attempt commit (\<lambda>_. return a)) es5 r"
      by (auto simp: runs_attempt)
    then show thesis
    proof cases
      case 1
      with 2 es3 show thesis by (auto intro: failed)
    next
      case (2 es4 a es5)
      then have "(\<exists>e. es5 = [(Commit, Failed e)] \<and> r = Inl e) \<or> es5 = [(Commit, Done)] \<and> r = Inr a"
        by (auto simp: runs_attempt runs_commit)
      with 2 es3 \<open>es = (Begin, Done) # es2\<close> show thesis by (auto intro: not_committed committed)
    qed
  qed (rule not_begun)
qed

text \<open>
  C23. A user's deletion is done completely or not at all: \<open>deleteUser\<close> succeeds exactly when its
  transaction was committed, and then the transaction held the deletes of all seven tables. Whatever
  the tables held, these leave no row of the user in the user, connection, seen, pref and web push
  tables, and none of the listed connections in the log, seen and private tables; and no table has a
  row of the user's left exactly when the user's log rows were all of listed connections. When it
  fails nothing was committed.
\<close>

theorem deleteUser_all_or_nothing:
  assumes "runs (deleteUser u) es r"
  shows "r = Inr () \<and> (Commit, Done) \<in> set es \<and>
      map fst es = Begin # map (\<lambda>t. TxExec (DeleteUserRows t (fu_id u) (fu_conns u))) userTables @ [Commit, Rollback] \<and>
      (\<forall>t t'. t' = apply_all (map (\<lambda>tab. DeleteUserRows tab (fu_id u) (fu_conns u)) userTables) t \<longrightarrow>
         gone t' (fu_id u) (fu_conns u) \<and>
         ((\<forall>r\<in>set (logs t). l_user r = fu_id u \<longrightarrow> l_connection r \<in> set (fu_conns u)) \<longleftrightarrow> no_row t' (fu_id u))) \<or>
    (\<exists>e. r = Inl e) \<and> (Commit, Done) \<notin> set es"
proof -
  have gone: "\<forall>t t'. t' = apply_all (map (\<lambda>tab. DeleteUserRows tab (fu_id u) (fu_conns u)) userTables) t \<longrightarrow>
         gone t' (fu_id u) (fu_conns u) \<and>
         ((\<forall>r\<in>set (logs t). l_user r = fu_id u \<longrightarrow> l_connection r \<in> set (fu_conns u)) \<longleftrightarrow> no_row t' (fu_id u))"
    using delete_user_gone [of u] delete_user_no_row [of _ u] by (simp add: delete_user_def)
  show ?thesis using assms [unfolded deleteUser_def]
  proof (cases rule: runs_in_tx)
    case (failed es1 e)
    with runs_delete_user_tables [OF failed(2)] show ?thesis by force
  next
    case (not_committed es1 a e)
    with runs_delete_user_tables [OF not_committed(2)] show ?thesis by force
  next
    case (committed es1 a)
    with runs_delete_user_tables [OF committed(2)] gone show ?thesis by simp
  qed simp
qed

lemma deleteUser_all_or_nothing_witness:
  "(Commit, Done) \<in> set (fst (exec scripted (deleteUser \<lparr>fu_id = ''u'', fu_username = ''bob'', fu_email = ''b@x'', fu_conns = [''c'']\<rparr>)
     (Done # replicate 7 (Affected 1) @ [Done, Done])))"
proof -
  define p where "p = deleteUser \<lparr>fu_id = ''u'', fu_username = ''bob'', fu_email = ''b@x'', fu_conns = [''c'']\<rparr>"
  have r: "fst (snd (exec scripted p (Done # replicate 7 (Affected 1) @ [Done, Done]))) = Inr ()"
    unfolding p_def by code_simp
  obtain es a s where e: "exec scripted p (Done # replicate 7 (Affected 1) @ [Done, Done]) = (es, a, s)"
    by (cases "exec scripted p (Done # replicate 7 (Affected 1) @ [Done, Done])") auto
  from deleteUser_all_or_nothing [OF scripted.exec_runs [OF e [unfolded p_def]]] r e show ?thesis
    by (auto simp: p_def)
qed

text \<open>
  C28. What \<open>deleteUser\<close> does not see: a connection created after the user's connections were listed
  (so that it was not destroyed) loses its row with the others', but keeps its log and keeps running in liercd.
\<close>

theorem deleteUser_misses_new_connection:
  assumes "c \<in> set (connections (db w))" "c_user c = fu_id u" "c_id c \<notin> set (fu_conns u)"
  shows "\<exists>w'. result (serve handle) (deleteUser u) w = (Inr (), w') \<and> c \<notin> set (connections (db w')) \<and>
    main_liercd w' = main_liercd w \<and> next_liercd w' = next_liercd w \<and>
    (\<forall>l\<in>set (logs (db w)). l_connection l = c_id c \<longrightarrow> l \<in> set (logs (db w')))"
  unfolding result_deleteUser using assms
  by (auto simp: delete_user_def apply_all_def userTables_def)

section \<open>Pruning ends\<close>

lemma drop_first_filter: "\<not> n < length (filter P xs) \<Longrightarrow> drop_first n P xs = filter (\<lambda>x. \<not> P x) xs"
  by (induction n P xs rule: drop_first.induct) (auto split: nat.splits)

lemma filter_drop_first: "filter (\<lambda>x. \<not> P x) (drop_first n P xs) = filter (\<lambda>x. \<not> P x) xs"
  by (induction n P xs rule: drop_first.induct) (auto split: nat.splits)

lemma length_drop_first: "length (filter P (drop_first n P xs)) = length (filter P xs) - n"
  by (induction n P xs rule: drop_first.induct) (auto split: nat.splits)

definition without_logs :: "string \<Rightarrow> tables \<Rightarrow> tables" where
  "without_logs c t = t\<lparr>logs := filter (\<lambda>r. l_connection r \<noteq> c) (logs t)\<rparr>"

lemma result_ctx_err: "result (serve handle) ctx_err w = (Inr (), w)"
  by (simp add: ctx_err_def result_Act unit_reply_def)

lemma result_prune_batches:
  assumes "0 < batch"
  shows "\<not> exists_connection (db w) c \<Longrightarrow> count_connection_rows (db w) Log c < fuel \<Longrightarrow>
    result (serve handle) (prune_batches fuel batch c g) w =
      (Some (Inr (g + count_connection_rows (db w) Log c)), w\<lparr>db := without_logs c (db w)\<rparr>)"
proof (induction fuel arbitrary: w g)
  case (Suc fuel)
  let ?k = "count_connection_rows (db w) Log c"
  let ?w = "w\<lparr>db := (db w)\<lparr>logs := drop_first batch (\<lambda>r. l_connection r = c) (logs (db w))\<rparr>\<rparr>"
  have step: "result (serve handle) (exec_sql (DeleteOrphanBatch c batch)) w = (Inr (min batch ?k), ?w)"
    using Suc.prems(1) by (simp add: exec_sql_def result_Act)
  show ?case
  proof (cases "?k < batch")
    case True
    then have "(db w)\<lparr>logs := drop_first batch (\<lambda>r. l_connection r = c) (logs (db w))\<rparr> = without_logs c (db w)"
      by (simp add: without_logs_def drop_first_filter)
    with True show ?thesis by (simp add: result_bind result_ctx_err step del: count_connection_rows.simps)
  next
    case False
    have k: "count_connection_rows (db ?w) Log c = ?k - batch" by (simp add: length_drop_first)
    have "result (serve handle) (prune_batches fuel batch c (g + batch)) ?w =
        (Some (Inr (g + batch + (?k - batch))), ?w\<lparr>db := without_logs c (db ?w)\<rparr>)"
      unfolding k [symmetric]
    proof (rule Suc.IH)
      show "\<not> exists_connection (db ?w) c" using Suc.prems(1) by (simp add: exists_connection_def)
      show "count_connection_rows (db ?w) Log c < fuel" unfolding k using Suc.prems(2) False assms by linarith
    qed
    moreover have "?w\<lparr>db := without_logs c (db ?w)\<rparr> = w\<lparr>db := without_logs c (db w)\<rparr>"
      by (simp add: without_logs_def filter_drop_first)
    ultimately show ?thesis using False by (simp add: result_bind result_ctx_err step del: count_connection_rows.simps)
  qed
qed simp

lemma result_prune_all:
  assumes "0 < batch"
  shows "\<forall>c\<in>set cs. \<not> exists_connection (db w) c \<Longrightarrow> length (logs (db w)) < fuel \<Longrightarrow>
    \<exists>n. result (serve handle) (prune_all fuel batch cs g) w =
      (Some (Inr n), w\<lparr>db := (db w)\<lparr>logs := filter (\<lambda>r. l_connection r \<notin> set cs) (logs (db w))\<rparr>\<rparr>)"
proof (induction cs arbitrary: w g)
  case (Cons c cs)
  let ?w = "w\<lparr>db := without_logs c (db w)\<rparr>"
  have "count_connection_rows (db w) Log c < fuel"
    using le_less_trans [OF length_filter_le Cons.prems(2)] by simp
  then have step: "result (serve handle) (prune_batches fuel batch c g) w =
      (Some (Inr (g + count_connection_rows (db w) Log c)), ?w)"
    using Cons.prems(1) by (intro result_prune_batches assms) simp_all
  have "\<exists>n. result (serve handle) (prune_all fuel batch cs (g + count_connection_rows (db w) Log c)) ?w =
      (Some (Inr n), ?w\<lparr>db := (db ?w)\<lparr>logs := filter (\<lambda>r. l_connection r \<notin> set cs) (logs (db ?w))\<rparr>\<rparr>)"
  proof (rule Cons.IH)
    show "\<forall>c\<in>set cs. \<not> exists_connection (db ?w) c" using Cons.prems(1) by (simp add: exists_connection_def without_logs_def)
    show "length (logs (db ?w)) < fuel"
      using le_less_trans [OF length_filter_le Cons.prems(2)] by (simp add: without_logs_def)
  qed
  moreover have "?w\<lparr>db := (db ?w)\<lparr>logs := filter (\<lambda>r. l_connection r \<notin> set cs) (logs (db ?w))\<rparr>\<rparr> =
      w\<lparr>db := (db w)\<lparr>logs := filter (\<lambda>r. l_connection r \<notin> set (c # cs)) (logs (db w))\<rparr>\<rparr>"
    by (simp add: without_logs_def conj_commute)
  ultimately show ?case by (simp add: result_bind step del: count_connection_rows.simps)
qed simp

text \<open>
  C24. \<^verbatim>\<open>prune-logs --delete\<close> ends, whatever the batch size: with more batches than there are log rows it
  succeeds, and then exactly the log rows of connections that still exist are left.
\<close>

theorem pruneLogs_terminates:
  assumes "1 \<le> batch" "length (logs (db w)) < fuel"
  shows "\<exists>w'. result (serve handle) (pruneLogs fuel True batch args) w = (Some (Inr ()), w') \<and>
    logs (db w') = filter (\<lambda>r. exists_connection (db w) (l_connection r)) (logs (db w))"
proof -
  let ?P = "\<lambda>r. \<not> exists_connection (db w) (l_connection r)"
  let ?cs = "remdups (map l_connection (filter ?P (logs (db w))))"
  have scan: "scan_rows (scan1 scan_string) (map (\<lambda>c. [Text c]) cs) = Inr cs" for cs by (induction cs) auto
  then have q: "result (serve handle) (query_all SelectOrphanLogConnections (scan1 scan_string)) w = (Inr ?cs, w)"
    by (simp add: query_all_def result_attempt result_query)
  have "0 < nat batch" using assms(1) by simp
  from result_prune_all [OF this, of ?cs w fuel handle 0] assms(2) obtain n where
    p: "result (serve handle) (prune_all fuel (nat batch) ?cs 0) w =
      (Some (Inr n), w\<lparr>db := (db w)\<lparr>logs := filter (\<lambda>r. l_connection r \<notin> set ?cs) (logs (db w))\<rparr>\<rparr>)" by auto
  have "filter (\<lambda>r. l_connection r \<notin> set ?cs) (logs (db w)) = filter (\<lambda>r. exists_connection (db w) (l_connection r)) (logs (db w))"
    by (rule filter_cong) auto
  with p q assms(1) show ?thesis by (simp add: pruneLogs_def result_bind result_say)
qed

definition sample_tables :: tables where
  "sample_tables = \<lparr>users = [], connections = [\<lparr>c_id = ''c'', c_user = ''u'', c_config = ''{}'', c_liercd = None\<rparr>],
     logs = map (\<lambda>(i, c). \<lparr>l_id = i, l_connection = c, l_user = ''u'', l_highlight = False\<rparr>)
       [(1, ''c''), (2, ''d''), (3, ''d''), (4, ''d'')],
     seens = [], privates = [], prefs = [], web_pushes = [], clock = 0\<rparr>"

definition sample_world :: "LiercdServer world" where
  "sample_world = \<lparr>db = sample_tables, pending = None, w_hosts = \<lparr>Main = ''127.0.0.1'', Next = ''''\<rparr>,
     main_liercd = NewLiercd, next_liercd = NewLiercd, down = {}, dns = (\<lambda>_. []), stdout = '''', stderr = ''''\<rparr>"

lemma pruneLogs_terminates_witness:
  "\<exists>w'. result (serve ServeHTTP) (pruneLogs 5 True 2 []) sample_world = (Some (Inr ()), w') \<and>
    map l_id (logs (db w')) = [1]"
  using pruneLogs_terminates [of 2 sample_world 5 ServeHTTP "[]"]
  by (auto simp: sample_world_def sample_tables_def exists_connection_def)

lemma deleteUser_misses_new_connection_witness:
  "\<exists>w'. result (serve ServeHTTP) (deleteUser \<lparr>fu_id = ''u'', fu_username = ''bob'', fu_email = ''b@x'', fu_conns = []\<rparr>) sample_world =
     (Inr (), w') \<and> connections (db w') = []"
proof -
  let ?u = "\<lparr>fu_id = ''u'', fu_username = ''bob'', fu_email = ''b@x'', fu_conns = []\<rparr>"
  from deleteUser_misses_new_connection [of "\<lparr>c_id = ''c'', c_user = ''u'', c_config = ''{}'', c_liercd = None\<rparr>" sample_world ?u ServeHTTP]
  obtain w' where "result (serve ServeHTTP) (deleteUser ?u) sample_world = (Inr (), w')"
    by (auto simp: sample_world_def sample_tables_def)
  then show ?thesis
    by (auto simp: result_deleteUser delete_user_def apply_all_def userTables_def sample_world_def sample_tables_def)
qed

lemma delete_after_destroy_witness:
  "\<exists>es e xs ys. reaches (deleteUsers (OpenEnv \<lparr>Main = ''127.0.0.1'', Next = ''''\<rparr> None True 0) True 0 [''u'']) es (Ret (Inr ())) \<and>
     es = xs @ e # ys \<and> deletes ''u'' ''c'' (fst e) \<and> (\<exists>d\<in>set xs. destroyed_event ''c'' d)"
proof -
  let ?p = "deleteUsers (OpenEnv \<lparr>Main = ''127.0.0.1'', Next = ''''\<rparr> None True 0) True 0 [''u'']"
  let ?s = "Rows [[Text ''bob'', Text ''b@x'']] # Rows [[Text ''c'']] # replicate 7 (Rows [[Num 1]]) @ [Done, Rows [[Num 9]],
    Rows [[Null]], Responded \<lparr>Status = 200, Body = ''''\<rparr>, Done, Done, Done, Affected 1, Affected 1, Affected 1, Affected 1,
    Affected 1, Affected 1, Affected 1, Done, Done, Done, Affected 0, Done]"
  let ?es = "fst (exec scripted ?p ?s)"
  let ?list = "\<lambda>e. case e of (Query (SelectUserConnections u), Rows rows) \<Rightarrow> [Text ''c''] \<in> set rows | _ \<Rightarrow> True"
  have r: "fst (snd (exec scripted ?p ?s)) = Inr () \<and> list_ex (\<lambda>e. deletes ''u'' ''c'' (fst e)) ?es \<and> list_all ?list ?es" by code_simp
  then obtain es s where e: "exec scripted ?p ?s = (es, Inr (), s)" "list_ex (\<lambda>e. deletes ''u'' ''c'' (fst e)) es" "list_all ?list es"
    by (cases "exec scripted ?p ?s") auto
  have run: "reaches ?p es (Ret (Inr ()))" by (rule runs_reaches [OF scripted.exec_runs [OF e(1)]])
  from e(2) obtain x where "x \<in> set es" "deletes ''u'' ''c'' (fst x)" by (auto simp: list_ex_iff)
  then obtain xs ys where es: "es = xs @ x # ys" by (auto dest: split_list)
  have "\<exists>d\<in>set xs. destroyed_event ''c'' d"
    by (rule delete_after_destroy [OF run _ es \<open>deletes ''u'' ''c'' (fst x)\<close>, of _ None True 0 True 0 "[''u'']" undefined undefined True True])
      (use e(3) in \<open>auto simp: es list_all_iff dest!: bspec [where x = "(Query (SelectUserConnections ''u''), Rows rows)" for rows]\<close>)
  with run es \<open>deletes ''u'' ''c'' (fst x)\<close> show ?thesis by blast
qed

end
