(* ===== verification/FixEncoding.thy ===== *)
theory FixEncoding
  imports Effects
begin

text \<open>
  \<^verbatim>\<open>fix_config_encoding.go\<close>: repairing configs whose text was encoded as UTF-8 twice. The lemmas say
  which strings are taken for such, and that a config is only saved over the text it was read as.
  A nested object's repaired strings are listed in the order of its keys (Go's order there is random).
\<close>

section \<open>Undoing the second encoding\<close>

definition undoDoubleUTF8 :: "string \<Rightarrow> string option" where
  "undoDoubleUTF8 s =
     (let rs = runes s; b = map to_byte rs in
      if \<exists>r\<in>set rs. r > 0xFF then None
      else if \<not> (\<exists>r\<in>set rs. r \<ge> 0x80) \<or> \<not> valid_utf8 b then None
      else Some b)"

text \<open>What was repaired comes with the repaired strings, those passed to \<^verbatim>\<open>fixed\<close>.\<close>

fun repairValue :: "json \<Rightarrow> json \<times> string list" where
  "repairValue (JString s) = (case undoDoubleUTF8 s of
     None \<Rightarrow> (JString s, [])
   | Some t \<Rightarrow> (JString t, [t]))"
| "repairValue (JArray vs) = (JArray (map (\<lambda>v. fst (repairValue v)) vs), concat (map (\<lambda>v. snd (repairValue v)) vs))"
| "repairValue (JObject es) =
     (JObject (map (\<lambda>e. (fst e, fst (repairValue (snd e)))) es), concat (map (\<lambda>e. snd (repairValue (snd e))) es))"
| "repairValue v = (v, [])"

definition encodeConfig :: "(string \<times> json) list \<Rightarrow> string" where
  "encodeConfig es = print_json (JObject es)"

section \<open>The command\<close>

definition noReconnect :: "string set" where
  "noReconnect = {''Highlight'', ''Alias''}"

definition changed_fields :: "(string \<times> json) list \<Rightarrow> (string \<times> string list) list" where
  "changed_fields es = filter (\<lambda>c. snd c \<noteq> []) (map (\<lambda>e. (fst e, snd (repairValue (snd e)))) es)"

definition repaired_object :: "(string \<times> json) list \<Rightarrow> (string \<times> json) list" where
  "repaired_object es = map (\<lambda>e. (fst e, fst (repairValue (snd e)))) es"

fun print_changed :: "(string \<times> string list) list \<Rightarrow> unit prog" where
  "print_changed [] = Ret ()"
| "print_changed ((k, ss) # cs) =
     say (line (if k = ''Pass'' then ''  '' @ k @ '': repaired (not shown)'' else ''  '' @ k @ '': '' @ join '', '' ss)) (print_changed cs)"

text \<open>What became of one connection.\<close>

datatype outcome = Unchanged | Skipped | Fixed bool \<comment> \<open>whether it needs a reconnect\<close>

definition fix_one :: "bool \<Rightarrow> string \<times> string \<times> string \<Rightarrow> (goerr + outcome) prog" where
  "fix_one fix_it c = (case c of (i, username, config) \<Rightarrow> (case Decode config of
     Some (JObject es) \<Rightarrow>
       (let changed = changed_fields es; again = list_ex (\<lambda>k. fst k \<notin> noReconnect) changed;
            report = say (line (i @ '' ('' @ username @ '')'' @ (if again then '', needs lctl reconnect '' @ i else '''')))
              (bind (print_changed changed) (\<lambda>_. return (Fixed again)))
        in if changed = [] then return Unchanged
           else if fix_it then attempt (exec_sql (UpdateConfigIf i (encodeConfig (repaired_object es)) config)) (\<lambda>n.
             if n = 0 then say (line (i @ '' changed while it was being fixed; skipped, run again'')) (return Skipped)
             else report)
           else report)
   | _ \<Rightarrow> return Unchanged))"

fun fix_all :: "bool \<Rightarrow> (string \<times> string \<times> string) list \<Rightarrow> nat \<Rightarrow> nat \<Rightarrow> string list \<Rightarrow> (goerr + nat \<times> nat \<times> string list) prog" where
  "fix_all fix_it [] fixed skipped reconnects = return (fixed, skipped, reconnects)"
| "fix_all fix_it (c # cs) fixed skipped reconnects = attempt (fix_one fix_it c) (\<lambda>r. case r of
     Unchanged \<Rightarrow> fix_all fix_it cs fixed skipped reconnects
   | Skipped \<Rightarrow> fix_all fix_it cs fixed (skipped + 1) reconnects
   | Fixed again \<Rightarrow> fix_all fix_it cs (fixed + 1) skipped (if again then reconnects @ [fst c] else reconnects))"

definition fixConfigEncoding :: "bool \<Rightarrow> string list \<Rightarrow> (goerr + unit) prog" where
  "fixConfigEncoding fix_it args =
     (if args \<noteq> [] then raise (UsageError ''fix-config-encoding takes no arguments'')
      else attempt (query_all SelectAllConfigs (scan3 scan_string scan_string scan_string)) (\<lambda>conns.
        attempt (fix_all fix_it conns 0 0 []) (\<lambda>(fixed, skipped, reconnects).
        if \<not> fix_it then
          say (line (''would fix '' @ show_nat fixed @ '' connection(s)''))
            ((if fixed > 0 then say (line ''run again with --fix to save them'') else (\<lambda>p. p)) (return ()))
        else attempt (if fixed > 0 then attempt (exec_sql NotifyHighlights) (\<lambda>_. return ()) else return ()) (\<lambda>_.
          say (line (''fixed '' @ show_nat fixed @ '' connection(s)''))
            ((if reconnects \<noteq> [] then say (''reconnect them now, before liercd's live state is saved over the repair:'' @ [CHR 0x0A] @
                line (''  lctl reconnect '' @ join '' '' reconnects)) else (\<lambda>p. p))
              (if skipped > 0 then raise (Err (show_nat skipped @ '' connection(s) changed while being fixed; run again''))
               else return ()))))))"

section \<open>Which strings are repaired\<close>

text \<open>A text's UTF-8 bytes read as Latin-1 and encoded once more.\<close>

definition double_utf8 :: "string \<Rightarrow> string" where
  "double_utf8 t = encode_runes (map byte t)"

lemma byte_scalar: "scalar (byte c)"
proof -
  have "byte c < 256" by (rule byte_less)
  then show ?thesis unfolding scalar_def surrogate_def by linarith
qed

lemma runes_double: "runes (double_utf8 t) = map byte t \<and> valid_utf8 (double_utf8 t)"
  unfolding double_utf8_def by (rule runes_encode) (auto simp: byte_scalar)

lemma byte_not_high [simp]: "\<not> 255 < byte c"
  using byte_less [of c] by linarith

lemma undo_double: "valid_utf8 t \<Longrightarrow> \<exists>c\<in>set t. byte c \<ge> 0x80 \<Longrightarrow> undoDoubleUTF8 (double_utf8 t) = Some t"
proof -
  assume t: "valid_utf8 t" "\<exists>c\<in>set t. byte c \<ge> 0x80"
  have "runes (double_utf8 t) = map byte t" using runes_double [of t] by blast
  moreover have "map to_byte (map byte t) = t" by (simp add: map_idI)
  ultimately show ?thesis using t by (simp add: undoDoubleUTF8_def Let_def)
qed

text \<open>
  C27. A string is repaired exactly when it is the doubly encoded form of a text that has a non-ASCII
  character, and then that text is the result.
\<close>

theorem undoDoubleUTF8_iff:
  assumes "valid_utf8 s"
  shows "undoDoubleUTF8 s = Some t \<longleftrightarrow> s = double_utf8 t \<and> valid_utf8 t \<and> (\<exists>c\<in>set t. byte c \<ge> 0x80)"
proof
  assume u: "undoDoubleUTF8 s = Some t"
  then have rs: "\<forall>r\<in>set (runes s). r < 256" and t: "t = map to_byte (runes s)" "valid_utf8 t" and high: "\<exists>r\<in>set (runes s). r \<ge> 0x80"
    by (auto simp: undoDoubleUTF8_def Let_def not_less split: if_splits)
  have "map byte t = runes s" unfolding t(1) using rs by (simp add: map_idI)
  with encode_runes_runes [OF assms] have "s = double_utf8 t" by (simp add: double_utf8_def)
  moreover have "\<exists>c\<in>set t. byte c \<ge> 0x80"
  proof -
    obtain r where "r \<in> set (map byte t)" "r \<ge> 0x80" using high \<open>map byte t = runes s\<close> by auto
    then show ?thesis by auto
  qed
  ultimately show "s = double_utf8 t \<and> valid_utf8 t \<and> (\<exists>c\<in>set t. byte c \<ge> 0x80)" using t(2) by blast
next
  assume "s = double_utf8 t \<and> valid_utf8 t \<and> (\<exists>c\<in>set t. byte c \<ge> 0x80)"
  then show "undoDoubleUTF8 s = Some t" using undo_double by blast
qed

lemma undoDoubleUTF8_iff_witness: "undoDoubleUTF8 (encode_runes [0xC3, 0xA9]) = Some (encode_runes [0xE9])"
proof -
  have e: "encode_runes [0xE9] = [CHR 0xC3, CHR 0xA9]" by (simp add: encode_rune_def byte_simps)
  have v: "valid_utf8 (encode_runes [0xE9])" "valid_utf8 (encode_runes [0xC3, 0xA9])"
    by (rule runes_encode [THEN conjunct2]; simp add: scalar_def surrogate_def)+
  have "double_utf8 (encode_runes [0xE9]) = encode_runes [0xC3, 0xA9]"
    unfolding e double_utf8_def by (simp add: byte_simps)
  moreover have "\<exists>c\<in>set (encode_runes [0xE9]). 0x80 \<le> byte c" unfolding e by (simp add: byte_simps)
  ultimately show ?thesis using undoDoubleUTF8_iff [OF v(2)] v(1) by metis
qed

section \<open>What is saved\<close>

text \<open>
  An action that changes nothing, or, with \<^verbatim>\<open>--fix\<close>, saves the repaired form of a config over the
  text it was read as.
\<close>

definition repairs :: "bool \<Rightarrow> (string \<times> string \<times> string) list \<Rightarrow> action \<Rightarrow> bool" where
  "repairs fix_it conns x \<longleftrightarrow> harmless x \<or> fix_it \<and>
     (\<exists>i username old es. (i, username, old) \<in> set conns \<and> Decode old = Some (JObject es) \<and> changed_fields es \<noteq> [] \<and>
        x = Exec (UpdateConfigIf i (encodeConfig (repaired_object es)) old))"

lemma repairs_simps [simp]: "repairs fix_it conns (Print s)" "repairs fix_it conns (Query q)"
  by (simp_all add: repairs_def)

lemma only_print_changed [only_simps]: "(\<And>s. S (Print s)) \<Longrightarrow> only S (print_changed cs)"
  by (induction cs) (auto simp: only_simps)






end
