(* ===== verification/Raw.thy ===== *)
theory Raw
  imports Json
begin

text \<open>
  JSON kept as text (\<^verbatim>\<open>json.RawMessage\<close>), which is how the stream server copies liercd's values into
  events and configs: the raw values inside an array or object, and writing them back, which takes
  out the white space between tokens (\<open>compact\<close>). A raw value is \<open>''''\<close> when it is missing (Go's
  nil). Of members with the same name the last counts; that Go merges the objects or arrays of such
  members is not modelled. The lemmas say that the raw operations do to the texts what the values'
  operations do to the values (\<open>text_of\<close>, \<open>reads_as\<close>), so nothing else in a config changes when one
  member of it is replaced.
\<close>

section \<open>Raw values\<close>

type_synonym raw = string

text \<open>The raw value at the start of a text, and what follows it.\<close>

definition split_value :: "string \<Rightarrow> (raw \<times> string) option" where
  "split_value s = (let t = skip_ws s in case parse t of
     None \<Rightarrow> None
   | Some (_, r) \<Rightarrow> Some (take (length t - length r) t, r))"

text \<open>The elements after a \<open>[\<close> and the members after a \<open>{\<close>; the fuel is the length of the text.\<close>

fun raw_items :: "nat \<Rightarrow> string \<Rightarrow> raw list option" where
  "raw_items 0 s = None"
| "raw_items (Suc n) s = (case split_value s of
     None \<Rightarrow> None
   | Some (v, r) \<Rightarrow> (case skip_ws r of
       [] \<Rightarrow> None
     | c # t \<Rightarrow> if c = CHR '']'' then Some [v]
         else if c = CHR '','' then map_option (\<lambda>vs. v # vs) (raw_items n t)
         else None))"

definition raw_key :: "raw \<Rightarrow> string" where
  "raw_key k = (case decode_first k of Some (JString s) \<Rightarrow> s | _ \<Rightarrow> '''')"

fun raw_pairs :: "nat \<Rightarrow> string \<Rightarrow> (string \<times> raw) list option" where
  "raw_pairs 0 s = None"
| "raw_pairs (Suc n) s = (case split_value s of
     None \<Rightarrow> None
   | Some (k, r) \<Rightarrow> (case skip_ws r of
       [] \<Rightarrow> None
     | c # r \<Rightarrow> if c \<noteq> CHR '':'' then None
         else (case split_value r of
           None \<Rightarrow> None
         | Some (v, r) \<Rightarrow> (case skip_ws r of
             [] \<Rightarrow> None
           | c # t \<Rightarrow> if c = CHR ''}'' then Some [(raw_key k, v)]
               else if c = CHR '','' then map_option (\<lambda>es. (raw_key k, v) # es) (raw_pairs n t)
               else None))))"

text \<open>Decoding into a slice and into a struct: null and missing leave it empty, another type is an error.\<close>

definition as_array :: "raw \<Rightarrow> raw list option" where
  "as_array v = (if v = '''' \<or> v = ''null'' then Some []
     else if hd v \<noteq> CHR ''['' then None
     else if skip_ws (tl v) = '']'' then Some []
     else raw_items (length v) (tl v))"

definition as_object :: "raw \<Rightarrow> (string \<times> raw) list option" where
  "as_object v = (if v = '''' \<or> v = ''null'' then Some []
     else if hd v \<noteq> CHR ''{'' then None
     else if skip_ws (tl v) = ''}'' then Some []
     else raw_pairs (length v) (tl v))"

text \<open>\<^verbatim>\<open>json.Unmarshal\<close>'s raw value: the text must be one JSON value.\<close>

definition unmarshal :: "string \<Rightarrow> raw option" where
  "unmarshal body = (case decode_all body of None \<Rightarrow> None | Some _ \<Rightarrow> map_option fst (split_value body))"

text \<open>Struct fields match member names without regard to case, as Go folds them.\<close>

definition fold_rune :: "rune \<Rightarrow> rune" where
  "fold_rune r = (if 97 \<le> r \<and> r \<le> 122 then r - 32 else if r = 0x17F then 83 else if r = 0x212A then 75 else r)"

definition fold_name :: "string \<Rightarrow> rune list" where
  "fold_name s = map fold_rune (runes s)"

definition member :: "(string \<times> raw) list \<Rightarrow> string \<Rightarrow> raw" where
  "member es name = (case filter (\<lambda>e. fold_name (fst e) = fold_name name) es of
     [] \<Rightarrow> '''' | found \<Rightarrow> snd (last found))"

section \<open>Writing raw values\<close>

fun compact :: "bool \<Rightarrow> string \<Rightarrow> string" where
  "compact inside [] = []"
| "compact False (c # s) = (if is_ws c then compact False s else c # compact (c = quote_char) s)"
| "compact True (c # s) =
     (if c = backslash then (case s of [] \<Rightarrow> [c] | e # t \<Rightarrow> c # e # compact True t)
      else c # compact (c \<noteq> quote_char) s)"

definition marshal_raw :: "raw \<Rightarrow> string" where
  "marshal_raw v = (if v = '''' then ''null'' else compact False v)"

definition marshal_list :: "raw list \<Rightarrow> string" where
  "marshal_list vs = CHR ''['' # join '','' (map marshal_raw vs) @ '']''"

definition marshal_object :: "(string \<times> string) list \<Rightarrow> string" where
  "marshal_object es = CHR ''{'' # join '','' (map (\<lambda>e. print_string (fst e) @ CHR '':'' # snd e) es) @ ''}''"

definition jsonString :: "string \<Rightarrow> raw" where
  "jsonString s = print_string s"

section \<open>What the parser reads is where it is\<close>

text \<open>Strings: the text up to the closing quote alone decides.\<close>

lemma decode_rune_stop: "\<not> continues q \<Longrightarrow> decode_rune (c # xs @ q # r) = decode_rune (c # xs @ q # r')"
  by (cases xs; cases "tl xs"; cases "tl (tl xs)")
    (auto simp: decode_rune.simps second_ok_def Let_def)

lemma encode_rune_high:
  assumes "0x80 \<le> r" "b \<in> set (encode_rune r)"
  shows "128 \<le> byte b"
proof -
  have c: "128 \<le> byte (to_byte (0x80 + n mod 64))" for n using cont_byte(1) [of n] by (simp add: continues_def)
  have f: "128 \<le> byte (to_byte (k + n))" if "128 \<le> k" "k + n < 256" for k n :: nat using that by simp
  consider "r < 0x800" | "0x800 \<le> r" "\<not> scalar r" | "0x800 \<le> r" "scalar r" "r < 0x10000" | "scalar r" "0x10000 \<le> r" by linarith
  then show ?thesis
  proof cases
    case 1
    then have "r div 64 < 32" by (simp add: div_less_iff_less_mult)
    with 1 assms c [of r] f [of "0xC0" "r div 64"] show ?thesis by (auto simp: encode_rune_def)
  next
    case 2
    then show ?thesis using assms by (auto simp: encode_rune_def)
  next
    case 3
    then have "r div 64 div 64 < 16" by (simp add: div_less_iff_less_mult)
    with 3 assms c [of r] c [of "r div 64"] f [of "0xE0" "r div 64 div 64"] show ?thesis by (auto simp: encode_rune_def)
  next
    case 4
    then have "r div 64 div 64 div 64 < 5" by (simp add: div_less_iff_less_mult scalar_def)
    with 4 assms c [of r] c [of "r div 64"] c [of "r div 64 div 64"] f [of "0xF0" "r div 64 div 64 div 64"]
    show ?thesis by (auto simp: encode_rune_def)
  qed
qed

lemma compact_plain: "\<forall>b\<in>set w. b \<noteq> quote_char \<and> b \<noteq> backslash \<Longrightarrow> compact True (w @ s) = w @ compact True s"
  by (induction w) auto

lemma hex4_four:
  assumes "hex4 t = Some r"
  obtains w u where "t = w @ u" "length w = 4" "\<And>u'. hex4 (w @ u') = Some r" "\<forall>b\<in>set w. b \<noteq> quote_char \<and> b \<noteq> backslash"
proof -
  obtain a b c d u where t: "t = a # b # c # d # u"
    using assms by (auto elim: hex4.elims)
  have d: "hex4_digit quote_char = None" "hex4_digit backslash = None" by (simp_all add: hex4_digit_def)
  have "\<forall>x\<in>set [a, b, c, d]. x \<noteq> quote_char \<and> x \<noteq> backslash"
    using assms d by (auto simp: t split: option.splits)
  then show thesis using that [of "[a, b, c, d]" u] assms by (simp add: t)
qed

text \<open>\<open>string_text w t\<close>: \<open>w\<close> and a quote are read as the rest of a string that stands for \<open>t\<close>.\<close>

definition string_text :: "string \<Rightarrow> string \<Rightarrow> bool" where
  "string_text w t \<longleftrightarrow> (\<forall>r. unquote (w @ quote_char # r) = Some (t, r)) \<and>
     (\<forall>r. compact True (w @ quote_char # r) = w @ quote_char # compact False r)"

lemma low_surrogate_text:
  assumes "string_text w t"
  shows "low_surrogate q (w @ quote_char # r) = low_surrogate q (w @ quote_char # r')"
proof (cases "has_prefix (w @ [quote_char]) [backslash, CHR ''u'']")
  case True
  then obtain v where v: "w @ [quote_char] = backslash # CHR ''u'' # v" by (auto simp: has_prefix_iff)
  have "unquote (w @ [quote_char]) = Some (t, [])" using assms by (simp add: string_text_def)
  then have "hex4 v \<noteq> None" using v by (auto split: option.splits)
  then obtain h u where h: "v = h @ u" "length h = 4" by (metis hex4_four option.exhaust)
  obtain w' where w: "w = backslash # CHR ''u'' # w'" "v = w' @ [quote_char]"
    using v by (cases w; cases "tl w") (auto simp: quote_char_def)
  obtain p where p: "hex4 v = Some p" using \<open>hex4 v \<noteq> None\<close> by blast
  have "hex4 (w' @ quote_char # r) = Some p" for r
    by (rule hex4_four [OF p]) (metis append_Cons append_Nil append_assoc w(2))
  then show ?thesis by (simp add: low_surrogate_def w)
next
  case False
  have "\<not> has_prefix (w @ quote_char # r) [backslash, CHR ''u'']" for r
    using False by (cases w; cases "tl w") (auto simp: quote_char_def backslash_def)
  then show ?thesis by (simp add: low_surrogate_def)
qed

lemma unquote_text: "unquote s = Some (t, r) \<Longrightarrow> \<exists>w. s = w @ quote_char # r \<and> string_text w t"
proof (induction "length s" arbitrary: s t r rule: less_induct)
  case less
  obtain c v where s: "s = c # v" using less.prems by (cases s) auto
  have rest: "\<exists>w. u = w @ quote_char # r \<and> string_text w x" if "unquote u = Some (x, r)" "length u < length s" for u x r
    using less.hyps that by blast
  consider "c = quote_char" | "c = backslash" | "c \<noteq> quote_char" "c \<noteq> backslash" "byte c < 128"
    | "c \<noteq> quote_char" "c \<noteq> backslash" "128 \<le> byte c" by linarith
  then show ?case
  proof cases
    case 1
    then show ?thesis using less.prems s by (intro exI [of _ "[]"]) (auto simp: string_text_def)
  next
    case 3
    with less.prems s obtain x where x: "unquote v = Some (x, r)" "t = [c] @ x" "\<not> byte c < 32" by (auto split: if_splits)
    then obtain w where "v = w @ quote_char # r" "string_text w x" using rest s by fastforce
    then show ?thesis using 3 s x by (intro exI [of _ "c # w"]) (simp add: string_text_def)
  next
    case 4
    obtain q n where d: "decode_rune s = (q, n)" by fastforce
    then have n: "1 \<le> n" using decode_rune_width [of s q n] s by simp
    from 4 less.prems s d obtain x where x: "unquote (drop n s) = Some (x, r)" "t = encode_rune q @ x" by (auto split: if_splits)
    moreover have "length (drop n s) < length s" using n s by simp
    ultimately obtain w where w: "drop n s = w @ quote_char # r" "string_text w x" using rest by blast
    have len: "length (take n s) = n" using decode_rune_width [of s q n] d s by simp
    have "decode_rune (take n s @ w @ quote_char # r') = (q, n) \<and> (\<forall>b\<in>set (take n s). b \<noteq> quote_char \<and> b \<noteq> backslash)" for r'
    proof (cases "(q, n) = bad")
      case True
      then have "n = 1" by (simp add: bad_def)
      then have t: "take n s = [c]" and "s = c # w @ quote_char # r" using s w by auto
      moreover have "\<not> continues quote_char" by (simp add: continues_def)
      ultimately show ?thesis using decode_rune_stop [of quote_char c w r r'] d 4 by simp
    next
      case False
      note e = encode_decode [OF _ d False]
      have t: "take n s = encode_rune q" using e s by (metis append_eq_conv_conj list.discI)
      have "0x80 \<le> q"
      proof (rule ccontr)
        assume "\<not> 0x80 \<le> q"
        then have "encode_rune q = [to_byte q]" "byte (to_byte q) < 128" by (simp_all add: encode_rune_def)
        then show False using e(3) s 4 by (metis append_Cons append_Nil leD list.discI list.inject)
      qed
      then have "\<forall>b\<in>set (take n s). b \<noteq> quote_char \<and> b \<noteq> backslash"
        using encode_rune_high [of q] unfolding t by force
      moreover have "decode_rune (take n s @ w @ quote_char # r') = (q, n)" unfolding t using decode_encode e s by auto
      ultimately show ?thesis by blast
    qed
    moreover obtain m where m: "take n s = c # m" using s n by (cases n) auto
    moreover have "drop n (c # m @ z) = z" for z using len unfolding m by (metis append_Cons append_eq_conv_conj)
    ultimately have "string_text (take n s @ w) t"
      using w(2) x(2) 4 by (auto simp: string_text_def compact_plain)
    then show ?thesis using w(1) by (intro exI [of _ "take n s @ w"]) (metis append.assoc append_take_drop_id)
  next
    case 2
    obtain e v' where v: "v = e # v'" using less.prems 2 s by (auto split: list.splits)
    show ?thesis
    proof (cases "e = CHR ''u''")
      case False
      then obtain x u where x: "unescape e = Some x" "unquote v' = Some (u, r)" "t = [x] @ u"
        using less.prems 2 s v by (auto split: option.splits)
      moreover obtain w where w: "v' = w @ quote_char # r" "string_text w u" using rest [OF x(2)] s v by auto
      ultimately show ?thesis using 2 s v False
        by (intro exI [of _ "c # e # w"]) (simp add: string_text_def)
    next
      case True
      obtain q where q: "hex4 v' = Some q" using less.prems 2 s v True by (auto split: option.splits)
      obtain h u where h: "v' = h @ u" "length h = 4" "\<And>u'. hex4 (h @ u') = Some q" "\<forall>b\<in>set h. b \<noteq> quote_char \<and> b \<noteq> backslash"
        using hex4_four [OF q] by blast
      show ?thesis
      proof (cases "surrogate q \<and> low_surrogate q u \<noteq> None")
        case False
        let ?y = "encode_rune (if surrogate q then rune_error else q)"
        obtain x where x: "unquote u = Some (x, r)" "t = ?y @ x"
          using less.prems False 2 True s v h(1,2) q by (auto split: option.splits if_splits)
        moreover have "length u < length s" by (simp add: s v h)
        ultimately obtain w where w: "u = w @ quote_char # r" "string_text w x" using rest by blast
        have "surrogate q \<Longrightarrow> low_surrogate q (w @ quote_char # r') = None" for r'
          using False low_surrogate_text [OF w(2)] w(1) by metis
        then have "string_text (c # e # h @ w) t"
          using w(2) x(2) 2 True h(2-4) by (auto simp: string_text_def compact_plain)
        then show ?thesis using s v h(1) w(1) by (intro exI [of _ "c # e # h @ w"]) simp
      next
        case low: True
        then obtain p where p: "low_surrogate q u = Some p" by blast
        then obtain u1 where u: "u = backslash # CHR ''u'' # u1" and "hex4 u1 \<noteq> None"
          by (auto simp: low_surrogate_def has_prefix_iff split: if_splits option.splits)
        then obtain q' where q': "hex4 u1 = Some q'" by blast
        obtain g u2 where g: "u1 = g @ u2" "length g = 4" "\<And>u'. hex4 (g @ u') = Some q'" "\<forall>b\<in>set g. b \<noteq> quote_char \<and> b \<noteq> backslash"
          using hex4_four [OF q'] by blast
        have lp: "low_surrogate q (backslash # CHR ''u'' # g @ u') = Some p" for u'
          using p g(3) [of u2] g(3) [of u'] by (simp add: low_surrogate_def u g(1) split: if_splits)
        obtain x where x: "unquote u2 = Some (x, r)" "t = encode_rune p @ x"
          using less.prems low 2 True s v h(1,2) q p u g by (auto split: option.splits if_splits)
        moreover have "length u2 < length s" by (simp add: s v h u g)
        ultimately obtain w where w: "u2 = w @ quote_char # r" "string_text w x" using rest by blast
        have "string_text (c # e # h @ backslash # CHR ''u'' # g @ w) t"
          using w(2) x(2) 2 True h(2-4) g(2-4) low lp by (auto simp: string_text_def compact_plain)
        then show ?thesis using s v h(1) u g(1) w(1)
          by (intro exI [of _ "c # e # h @ backslash # CHR ''u'' # g @ w"]) simp
      qed
    qed
  qed
qed

text \<open>Numbers: cutting off what follows, or a part of it, changes nothing.\<close>

definition cuts :: "(string \<Rightarrow> (string \<times> string) option) \<Rightarrow> (char \<Rightarrow> bool) \<Rightarrow> bool" where
  "cuts f A \<longleftrightarrow> (\<forall>s l r z. f s = Some (l, r @ z) \<longrightarrow> f (l @ r) = Some (l, r) \<and> (\<forall>c\<in>set l. A c))"

lemma cutsI: "(\<And>s l r z. f s = Some (l, r @ z) \<Longrightarrow> f (l @ r) = Some (l, r) \<and> (\<forall>c\<in>set l. A c)) \<Longrightarrow> cuts f A"
  by (simp add: cuts_def)

lemma cutsD: "cuts f A \<Longrightarrow> f s = Some (l, r @ z) \<Longrightarrow> f (l @ r) = Some (l, r)"
  "cuts f A \<Longrightarrow> f s = Some (l, r @ z) \<Longrightarrow> \<forall>c\<in>set l. A c"
  unfolding cuts_def by blast+

definition number_char :: "char \<Rightarrow> bool" where
  "number_char c \<longleftrightarrow> is_digit c \<or> c \<in> {CHR ''.'', CHR ''+'', CHR ''-'', CHR ''e'', CHR ''E''}"

lemma digits_cut:
  assumes "dropWhile P s = r @ z"
  shows "takeWhile P (takeWhile P s @ r) = takeWhile P s" "dropWhile P (takeWhile P s @ r) = r"
proof -
  have "r = [] \<or> \<not> P (hd r)" using hd_dropWhile [of P s] assms by (cases r) auto
  then show "takeWhile P (takeWhile P s @ r) = takeWhile P s" "dropWhile P (takeWhile P s @ r) = r"
    by (cases r; auto simp: takeWhile_append dropWhile_append dest: set_takeWhileD)+
qed

lemma some_digits_cuts: "cuts some_digits number_char"
proof (rule cutsI)
  fix s l r z assume "some_digits s = Some (l, r @ z)"
  then show "some_digits (l @ r) = Some (l, r) \<and> (\<forall>c\<in>set l. number_char c)"
    using digits_cut [of is_digit "tl s" r z]
    by (cases s) (auto simp: number_char_def split: if_splits dest: set_takeWhileD)
qed

lemma number_int_cuts: "cuts number_int number_char"
proof (rule cutsI)
  fix s l r z assume "number_int s = Some (l, r @ z)"
  moreover have "is_digit (CHR ''0'')" by (simp add: is_digit_def byte_simps)
  ultimately show "number_int (l @ r) = Some (l, r) \<and> (\<forall>c\<in>set l. number_char c)"
    using digits_cut [of is_digit "tl s" r z]
    by (cases s) (auto simp: number_char_def split: if_splits dest: set_takeWhileD)
qed

lemma optional_sign_cuts: "cuts optional_sign number_char"
proof (rule cutsI)
  fix s l r z assume a: "optional_sign s = Some (l, r @ z)"
  then obtain c u where s: "s = c # u" by (cases s) auto
  show "optional_sign (l @ r) = Some (l, r) \<and> (\<forall>c\<in>set l. number_char c)"
  proof (cases "c = CHR ''+'' \<or> c = CHR ''-''")
    case True
    with a s obtain l' where "l = c # l'" "some_digits u = Some (l', r @ z)" by auto
    with True cutsD [OF some_digits_cuts] show ?thesis by (auto simp: number_char_def)
  next
    case False
    with a s have d: "some_digits (c # u) = Some (l, r @ z)" by simp
    then obtain l' where "l = c # l'" by (auto split: if_splits)
    with False cutsD [OF some_digits_cuts d] show ?thesis by (auto simp del: some_digits.simps)
  qed
qed

lemma emit_cuts:
  assumes "cuts g A" "A c" "emit [c] (g u) = Some (l, r @ z)"
  shows "\<exists>l'. l = c # l' \<and> g (l' @ r) = Some (l', r) \<and> (\<forall>c\<in>set l. A c)"
proof -
  obtain l' where l: "l = c # l'" "g u = Some (l', r @ z)" using assms(3) by auto
  with cutsD [OF assms(1) l(2)] assms(2) show ?thesis by simp
qed

lemma number_frac_cuts: "cuts number_frac number_char"
proof (rule cutsI)
  fix s l r z assume a: "number_frac s = Some (l, r @ z)"
  show "number_frac (l @ r) = Some (l, r) \<and> (\<forall>c\<in>set l. number_char c)"
  proof (cases "\<exists>u. s = CHR ''.'' # u")
    case True
    then obtain u where "emit [CHR ''.''] (some_digits u) = Some (l, r @ z)" using a by auto
    from emit_cuts [OF some_digits_cuts _ this] show ?thesis by (auto simp: number_char_def)
  next
    case False
    then show ?thesis using a by (cases s; cases r) (auto split: if_splits)
  qed
qed

lemma number_exp_cuts: "cuts number_exp number_char"
proof (rule cutsI)
  fix s l r z assume a: "number_exp s = Some (l, r @ z)"
  show "number_exp (l @ r) = Some (l, r) \<and> (\<forall>c\<in>set l. number_char c)"
  proof (cases "\<exists>c u. s = c # u \<and> c \<in> {CHR ''e'', CHR ''E''}")
    case True
    then obtain c u where "emit [c] (optional_sign u) = Some (l, r @ z)" "c \<in> {CHR ''e'', CHR ''E''}" using a by auto
    from emit_cuts [OF optional_sign_cuts _ this(1)] this(2) show ?thesis by (auto simp: number_char_def)
  next
    case False
    then show ?thesis using a by (cases s; cases r) (auto split: if_splits)
  qed
qed

lemma unsigned_number_cuts: "cuts unsigned_number number_char"
proof (rule cutsI)
  fix s l r z assume "unsigned_number s = Some (l, r @ z)"
  then obtain i s1 f s2 e where s: "number_int s = Some (i, s1)" "number_frac s1 = Some (f, s2)" "number_exp s2 = Some (e, r @ z)"
    "l = i @ f @ e"
    by (auto simp: unsigned_number_def split: option.splits)
  have "s1 = f @ e @ r @ z" "s2 = e @ r @ z" using number_split(2) [OF s(2)] number_split(4) [OF s(3)] by auto
  then show "unsigned_number (l @ r) = Some (l, r) \<and> (\<forall>c\<in>set l. number_char c)"
    using s cutsD [OF number_int_cuts, of s i "f @ e @ r" z] cutsD [OF number_frac_cuts, of s1 f "e @ r" z]
      cutsD [OF number_exp_cuts s(3)]
    by (auto simp: unsigned_number_def)
qed

lemma number_text:
  assumes "number s = Some (l, r)"
  shows "number l = Some (l, [])" "\<forall>c\<in>set l. number_char c"
proof -
  obtain c u where s: "s = c # u" using assms by (cases s) auto
  have "number l = Some (l, []) \<and> (\<forall>c\<in>set l. number_char c)"
  proof (cases "c = CHR ''-''")
    case True
    with assms s obtain l' where "l = c # l'" "unsigned_number u = Some (l', [] @ r)" by auto
    with True cutsD [OF unsigned_number_cuts this(2)] show ?thesis by (auto simp: number_char_def)
  next
    case False
    with assms s have d: "unsigned_number (c # u) = Some (l, [] @ r)" by simp
    moreover obtain l' where "l = c # l'" using unsigned_number_split [of "c # u" l r] d by (cases l) auto
    ultimately show ?thesis using False cutsD [OF unsigned_number_cuts d] by auto
  qed
  then show "number l = Some (l, [])" "\<forall>c\<in>set l. number_char c" by blast+
qed

lemma number_char_plain: "number_char c \<Longrightarrow> \<not> is_ws c \<and> c \<noteq> quote_char"
  by (auto simp: number_char_def is_ws_def is_digit_def quote_char_def byte_simps)

text \<open>
  \<open>kept f S t v\<close>: \<open>t\<close> is read by \<open>f\<close> as \<open>v\<close> whatever \<open>S\<close> follows it, also after the white space in
  it was taken out; and that depends on \<open>t\<close> alone.
\<close>

definition kept :: "(string \<Rightarrow> ('a \<times> string) option) \<Rightarrow> (string \<Rightarrow> bool) \<Rightarrow> string \<Rightarrow> 'a \<Rightarrow> bool" where
  "kept f S t v \<longleftrightarrow> (\<forall>r. S r \<longrightarrow> f (t @ r) = Some (v, r) \<and> f (compact False t @ r) = Some (v, r)) \<and>
     (\<forall>r. compact False (t @ r) = compact False t @ compact False r)"

lemma keptI:
  assumes "\<And>r. S r \<Longrightarrow> f (t @ r) = Some (v, r)" "\<And>r. S r \<Longrightarrow> f (u @ r) = Some (v, r)"
    "\<And>r. compact False (t @ r) = u @ compact False r"
  shows "kept f S t v"
proof -
  have "compact False t = u" using assms(3) [of "[]"] by simp
  with assms show ?thesis by (simp add: kept_def)
qed

lemma keptD:
  assumes "kept f S t v"
  shows "S r \<Longrightarrow> f (t @ r) = Some (v, r)" "S r \<Longrightarrow> f (compact False t @ r) = Some (v, r)"
    "compact False (t @ r) = compact False t @ compact False r"
  using assms unfolding kept_def by blast+

definition blank :: "string \<Rightarrow> bool" where
  "blank w \<longleftrightarrow> (\<forall>c\<in>set w. is_ws c)"

lemma skip_blank [simp]: "blank w \<Longrightarrow> skip_ws (w @ s) = skip_ws s"
  by (induction w) (auto simp: blank_def skip_ws_def)

lemma compact_blank [simp]: "blank w \<Longrightarrow> compact False (w @ s) = compact False s"
  by (induction w) (auto simp: blank_def)

lemma blank_split: "\<exists>w. s = w @ skip_ws s \<and> blank w"
  by (intro exI [of _ "takeWhile is_ws s"]) (auto simp: skip_ws_def blank_def dest: set_takeWhileD)

lemma ws_stops: "is_ws c \<Longrightarrow> stops (c # s)"
  unfolding is_ws_def by (elim insertE emptyE) (simp_all add: stops_def is_digit_def byte_simps)

lemma blank_stops: "blank w \<Longrightarrow> stops (c # r) \<Longrightarrow> stops (w @ c # r)"
  by (cases w) (simp_all add: blank_def ws_stops)

lemma compact_char: "\<not> is_ws c \<Longrightarrow> c \<noteq> quote_char \<Longrightarrow> compact False (c # s) = c # compact False s"
  by simp

lemma quote_not [simp]: "CHR '','' \<noteq> quote_char" "CHR '':'' \<noteq> quote_char" "CHR '']'' \<noteq> quote_char" "CHR ''}'' \<noteq> quote_char"
  "CHR ''['' \<noteq> quote_char" "CHR ''{'' \<noteq> quote_char"
  by (simp_all add: quote_char_def)

lemma parse_value_blank: "blank w \<Longrightarrow> parse_value n d (w @ s) = parse_value n d s"
  by (cases n) simp_all

lemma kept_blank: "blank w \<Longrightarrow> kept (parse_value n d) S t v \<Longrightarrow> kept (parse_value n d) S (w @ t) v"
  by (simp add: kept_def parse_value_blank)

abbreviation any_rest :: "string \<Rightarrow> bool" where
  "any_rest \<equiv> \<lambda>_. True"

lemma kept_last_element:
  assumes "kept (parse_value n d) stops t v" "blank w"
  shows "kept (parse_elements (Suc n) d) any_rest (t @ w @ '']'') [v]"
proof (rule keptI [where u = "compact False t @ '']''"])
  show "parse_elements (Suc n) d ((t @ w @ '']'') @ r) = Some ([v], r)" for r
    using keptD(1) [OF assms(1), of "w @ CHR '']'' # r"] blank_stops [OF assms(2), of "CHR '']''" r] assms(2)
    by (simp add: skip_ws_char)
  show "parse_elements (Suc n) d ((compact False t @ '']'') @ r) = Some ([v], r)" for r
    using keptD(2) [OF assms(1), of "CHR '']'' # r"] by (simp add: skip_ws_char)
  show "compact False ((t @ w @ '']'') @ r) = (compact False t @ '']'') @ compact False r" for r
    using keptD(3) [OF assms(1), of "w @ CHR '']'' # r"] assms(2) by simp
qed

lemma kept_more_elements:
  assumes "kept (parse_value n d) stops t v" "blank w" "kept (parse_elements n d) any_rest u vs"
  shows "kept (parse_elements (Suc n) d) any_rest (t @ w @ CHR '','' # u) (v # vs)"
proof (rule keptI [where u = "compact False t @ CHR '','' # compact False u"])
  show "parse_elements (Suc n) d ((t @ w @ CHR '','' # u) @ r) = Some (v # vs, r)" for r
    using keptD(1) [OF assms(1), of "w @ CHR '','' # u @ r"] blank_stops [OF assms(2), of "CHR '',''" "u @ r"] assms(2)
      keptD(1) [OF assms(3), of r] by (simp add: skip_ws_char)
  show "parse_elements (Suc n) d ((compact False t @ CHR '','' # compact False u) @ r) = Some (v # vs, r)" for r
    using keptD(2) [OF assms(1), of "CHR '','' # compact False u @ r"] keptD(2) [OF assms(3), of r] by (simp add: skip_ws_char)
  show "compact False ((t @ w @ CHR '','' # u) @ r) = (compact False t @ CHR '','' # compact False u) @ compact False r" for r
    using keptD(3) [OF assms(1), of "w @ CHR '','' # u @ r"] keptD(3) [OF assms(3), of r] assms(2) by simp
qed

text \<open>Members: a key, the colon, and the value.\<close>

lemma kept_last_member:
  assumes "blank w1" "string_text q k" "blank w2" "kept (parse_value n d) stops t v" "blank w3"
  shows "kept (parse_members (Suc n) d) any_rest (w1 @ quote_char # q @ quote_char # w2 @ CHR '':'' # t @ w3 @ ''}'') [(k, v)]"
proof (rule keptI [where u = "quote_char # q @ quote_char # CHR '':'' # compact False t @ ''}''"])
  note s = assms(2) [unfolded string_text_def, THEN conjunct1, rule_format]
    assms(2) [unfolded string_text_def, THEN conjunct2, rule_format]
  show "parse_members (Suc n) d ((w1 @ quote_char # q @ quote_char # w2 @ CHR '':'' # t @ w3 @ ''}'') @ r) = Some ([(k, v)], r)" for r
    using keptD(1) [OF assms(4), of "w3 @ CHR ''}'' # r"] blank_stops [OF assms(5), of "CHR ''}''" r] assms(1,3,5)
    by (simp add: skip_ws_char s)
  show "parse_members (Suc n) d ((quote_char # q @ quote_char # CHR '':'' # compact False t @ ''}'') @ r) = Some ([(k, v)], r)" for r
    using keptD(2) [OF assms(4), of "CHR ''}'' # r"] by (simp add: skip_ws_char s)
  show "compact False ((w1 @ quote_char # q @ quote_char # w2 @ CHR '':'' # t @ w3 @ ''}'') @ r) =
      (quote_char # q @ quote_char # CHR '':'' # compact False t @ ''}'') @ compact False r" for r
    using keptD(3) [OF assms(4), of "w3 @ CHR ''}'' # r"] assms(1,3,5) by (simp add: s)
qed

lemma kept_more_members:
  assumes "blank w1" "string_text q k" "blank w2" "kept (parse_value n d) stops t v" "blank w3"
    "kept (parse_members n d) any_rest u ms"
  shows "kept (parse_members (Suc n) d) any_rest
    (w1 @ quote_char # q @ quote_char # w2 @ CHR '':'' # t @ w3 @ CHR '','' # u) ((k, v) # ms)"
proof (rule keptI [where u = "quote_char # q @ quote_char # CHR '':'' # compact False t @ CHR '','' # compact False u"])
  note s = assms(2) [unfolded string_text_def, THEN conjunct1, rule_format]
    assms(2) [unfolded string_text_def, THEN conjunct2, rule_format]
  show "parse_members (Suc n) d ((w1 @ quote_char # q @ quote_char # w2 @ CHR '':'' # t @ w3 @ CHR '','' # u) @ r) =
      Some ((k, v) # ms, r)" for r
    using keptD(1) [OF assms(4), of "w3 @ CHR '','' # u @ r"] blank_stops [OF assms(5), of "CHR '',''" "u @ r"] assms(1,3,5)
      keptD(1) [OF assms(6), of r] by (simp add: skip_ws_char s)
  show "parse_members (Suc n) d ((quote_char # q @ quote_char # CHR '':'' # compact False t @ CHR '','' # compact False u) @ r) =
      Some ((k, v) # ms, r)" for r
    using keptD(2) [OF assms(4), of "CHR '','' # compact False u @ r"] keptD(2) [OF assms(6), of r] by (simp add: skip_ws_char s)
  show "compact False ((w1 @ quote_char # q @ quote_char # w2 @ CHR '':'' # t @ w3 @ CHR '','' # u) @ r) =
      (quote_char # q @ quote_char # CHR '':'' # compact False t @ CHR '','' # compact False u) @ compact False r" for r
    using keptD(3) [OF assms(4), of "w3 @ CHR '','' # u @ r"] keptD(3) [OF assms(6), of r] assms(1,3,5) by (simp add: s)
qed

text \<open>Values.\<close>

lemma kept_array:
  assumes "kept (parse_elements n (Suc d)) any_rest t vs" "d < max_depth"
  shows "kept (parse_value (Suc n) d) stops (CHR ''['' # t) (JArray vs)"
proof (rule keptI [where u = "CHR ''['' # compact False t"])
  have p: "parse_value (Suc n) d ((CHR ''['' # x) @ r) = Some (JArray vs, r)"
    if e: "parse_elements n (Suc d) (x @ r) = Some (vs, r)" for x r
  proof -
    obtain c u where "skip_ws (x @ r) = c # u" "starts c" using elements_starts [OF e] by blast
    then show ?thesis using e assms(2) starts_plain [of c] by (simp add: skip_ws_char)
  qed
  show "parse_value (Suc n) d ((CHR ''['' # t) @ r) = Some (JArray vs, r)" for r by (rule p) (simp add: keptD(1) [OF assms(1)])
  show "parse_value (Suc n) d ((CHR ''['' # compact False t) @ r) = Some (JArray vs, r)" for r
    by (rule p) (simp add: keptD(2) [OF assms(1)])
  show "compact False ((CHR ''['' # t) @ r) = (CHR ''['' # compact False t) @ compact False r" for r
    using keptD(3) [OF assms(1), of r] by simp
qed

lemma kept_object:
  assumes "kept (parse_members n (Suc d)) any_rest t ms" "d < max_depth"
  shows "kept (parse_value (Suc n) d) stops (CHR ''{'' # t) (JObject (members ms))"
proof (rule keptI [where u = "CHR ''{'' # compact False t"])
  have p: "parse_value (Suc n) d ((CHR ''{'' # x) @ r) = Some (JObject (members ms), r)"
    if e: "parse_members n (Suc d) (x @ r) = Some (ms, r)" for x r
  proof -
    obtain u where "skip_ws (x @ r) = quote_char # u" using members_starts [OF e] by blast
    then show ?thesis using e assms(2) by (simp add: skip_ws_char)
  qed
  show "parse_value (Suc n) d ((CHR ''{'' # t) @ r) = Some (JObject (members ms), r)" for r
    by (rule p) (simp add: keptD(1) [OF assms(1)])
  show "parse_value (Suc n) d ((CHR ''{'' # compact False t) @ r) = Some (JObject (members ms), r)" for r
    by (rule p) (simp add: keptD(2) [OF assms(1)])
  show "compact False ((CHR ''{'' # t) @ r) = (CHR ''{'' # compact False t) @ compact False r" for r
    using keptD(3) [OF assms(1), of r] by simp
qed

lemma kept_empty:
  assumes "blank w" "d < max_depth"
  shows "kept (parse_value (Suc n) d) stops (CHR ''{'' # w @ ''}'') (JObject [])"
    "kept (parse_value (Suc n) d) stops (CHR ''['' # w @ '']'') (JArray [])"
  using assms by (auto simp: kept_def skip_ws_char)

lemma kept_string:
  assumes "string_text q k"
  shows "kept (parse_value (Suc n) d) stops (quote_char # q @ [quote_char]) (JString k)"
  by (rule keptI [where u = "quote_char # q @ [quote_char]"]) (use assms in \<open>simp_all add: string_text_def skip_ws_char\<close>)

lemma kept_word:
  assumes "(t, v) \<in> {(''true'', JBool True), (''false'', JBool False), (''null'', JNull)}"
  shows "kept (parse_value (Suc n) d) stops t v"
  by (rule keptI [where u = t]) (use assms in \<open>auto simp: skip_ws_char expect_def quote_char_def is_ws_def\<close>)

lemma kept_number:
  assumes "number l = Some (l, [])" "\<forall>c\<in>set l. number_char c"
  shows "kept (parse_value (Suc n) d) stops l (JNumber l)"
proof (rule keptI [where u = l])
  obtain c s where l: "l = c # s" "is_digit c \<or> c = CHR ''-''" using number_starts [OF assms(1)] by blast
  then have c: "c \<noteq> CHR ''{''" "c \<noteq> CHR ''[''" "c \<noteq> quote_char" "c \<noteq> CHR ''t''" "c \<noteq> CHR ''f''" "c \<noteq> CHR ''n''" "\<not> is_ws c"
    by (auto simp: is_digit_def is_ws_def quote_char_def byte_simps)
  show "stops r \<Longrightarrow> parse_value (Suc n) d (l @ r) = Some (JNumber l, r)" for r
    using number_append [OF assms(1), of r] c by (simp add: l(1) skip_ws_char)
  then show "stops r \<Longrightarrow> parse_value (Suc n) d (l @ r) = Some (JNumber l, r)" for r .
  have "compact False (x @ r) = x @ compact False r" if "\<forall>c\<in>set x. number_char c" for x r
    using that by (induction x) (auto dest: number_char_plain)
  then show "compact False (l @ r) = l @ compact False r" for r using assms(2) by blast
qed

lemma blank_cons:
  assumes "skip_ws s = c # r"
  obtains w where "s = w @ c # r" "blank w"
  using blank_split [of s] assms by metis

lemma value_kept:
  assumes a: "parse_value (Suc n) d s = Some (v, r)"
    and elements: "\<And>s vs r. parse_elements n (Suc d) s = Some (vs, r) \<Longrightarrow> \<exists>t. s = t @ r \<and> kept (parse_elements n (Suc d)) any_rest t vs"
    and mems: "\<And>s ms r. parse_members n (Suc d) s = Some (ms, r) \<Longrightarrow> \<exists>t. s = t @ r \<and> kept (parse_members n (Suc d)) any_rest t ms"
  shows "\<exists>t. s = t @ r \<and> kept (parse_value (Suc n) d) stops t v"
proof -
  obtain c u where c: "skip_ws s = c # u" using a by (cases "skip_ws s") auto
  obtain w where w: "s = w @ c # u" "blank w" by (rule blank_cons [OF c])
  have fin: ?thesis if "c # u = t @ r" "kept (parse_value (Suc n) d) stops t v" for t
    using kept_blank [OF w(2) that(2)] w(1) that(1) by (intro exI [of _ "w @ t"]) simp
  consider (obj) "c = CHR ''{''" | (arr) "c = CHR ''[''" | (quo) "c = quote_char" | (t) "c = CHR ''t''" | (f) "c = CHR ''f''"
    | (n) "c = CHR ''n''" | (num) "c \<notin> {CHR ''{'', CHR ''['', quote_char, CHR ''t'', CHR ''f'', CHR ''n''}" by blast
  then show ?thesis
  proof cases
    case obj
    then have d: "d < max_depth" and ne: "skip_ws u \<noteq> []" using a c by (auto split: if_splits list.splits)
    then obtain e x where e: "skip_ws u = e # x" by (cases "skip_ws u") auto
    show ?thesis
    proof (cases "e = CHR ''}''")
      case True
      then have "v = JObject []" "r = x" using a c obj d e by auto
      moreover obtain w' where "u = w' @ e # x" "blank w'" by (rule blank_cons [OF e])
      ultimately show ?thesis using True obj kept_empty(1) [OF _ d] by (intro fin [of "c # w' @ ''}''"]) simp_all
    next
      case False
      then obtain ms where m: "parse_members n (Suc d) u = Some (ms, r)" "v = JObject (members ms)"
        using a c obj d e by (auto split: if_splits)
      then obtain t where "u = t @ r" "kept (parse_members n (Suc d)) any_rest t ms" using mems by blast
      then show ?thesis using obj m(2) kept_object [OF _ d] by (intro fin [of "c # t"]) simp_all
    qed
  next
    case arr
    then have d: "d < max_depth" and ne: "skip_ws u \<noteq> []" using a c by (auto split: if_splits list.splits)
    then obtain e x where e: "skip_ws u = e # x" by (cases "skip_ws u") auto
    show ?thesis
    proof (cases "e = CHR '']''")
      case True
      then have "v = JArray []" "r = x" using a c arr d e by auto
      moreover obtain w' where "u = w' @ e # x" "blank w'" by (rule blank_cons [OF e])
      ultimately show ?thesis using True arr kept_empty(2) [OF _ d] by (intro fin [of "c # w' @ '']''"]) simp_all
    next
      case False
      then obtain vs where m: "parse_elements n (Suc d) u = Some (vs, r)" "v = JArray vs"
        using a c arr d e by (auto split: if_splits)
      then obtain t where "u = t @ r" "kept (parse_elements n (Suc d)) any_rest t vs" using elements by blast
      then show ?thesis using arr m(2) kept_array [OF _ d] by (intro fin [of "c # t"]) simp_all
    qed
  next
    case quo
    then obtain k where k: "unquote u = Some (k, r)" "v = JString k" using a c by auto
    then obtain q where "u = q @ quote_char # r" "string_text q k" using unquote_text by blast
    then show ?thesis using quo k(2) kept_string by (intro fin [of "c # q @ [quote_char]"]) simp_all
  next
    case t
    then have "c # u = ''true'' @ r" "v = JBool True"
      using a c by (auto simp: expect_def has_prefix_iff quote_char_def split: if_splits)
    then show ?thesis using kept_word by (intro fin [of "''true''"]) simp_all
  next
    case f
    then have "c # u = ''false'' @ r" "v = JBool False"
      using a c by (auto simp: expect_def has_prefix_iff quote_char_def split: if_splits)
    then show ?thesis using kept_word by (intro fin [of "''false''"]) simp_all
  next
    case n
    then have "c # u = ''null'' @ r" "v = JNull"
      using a c by (auto simp: expect_def has_prefix_iff quote_char_def split: if_splits)
    then show ?thesis using kept_word by (intro fin [of "''null''"]) simp_all
  next
    case num
    then obtain l where l: "number (c # u) = Some (l, r)" "v = JNumber l" using a c by (auto simp del: number.simps)
    then show ?thesis using number_consumes [OF l(1)] number_text [OF l(1)] kept_number by (intro fin [of l]) simp_all
  qed
qed

lemma elements_iff:
  "parse_elements (Suc n) d s = Some (vs, r) \<longleftrightarrow> (\<exists>v x c y. parse_value n d s = Some (v, x) \<and> skip_ws x = c # y \<and>
     (c = CHR '']'' \<and> vs = [v] \<and> r = y \<or> c = CHR '','' \<and> (\<exists>ws. parse_elements n d y = Some (ws, r) \<and> vs = v # ws)))"
  by (auto split: option.splits list.splits if_splits)

lemma members_iff:
  "parse_members (Suc n) d s = Some (ms, r) \<longleftrightarrow> (\<exists>x1 k x2 x3 v x c y. skip_ws s = quote_char # x1 \<and> unquote x1 = Some (k, x2) \<and>
     skip_ws x2 = CHR '':'' # x3 \<and> parse_value n d x3 = Some (v, x) \<and> skip_ws x = c # y \<and>
     (c = CHR ''}'' \<and> ms = [(k, v)] \<and> r = y \<or> c = CHR '','' \<and> (\<exists>es. parse_members n d y = Some (es, r) \<and> ms = (k, v) # es)))"
  by (auto split: option.splits list.splits if_splits)

lemma parse_text:
  "parse_value n d s = Some (v, r) \<Longrightarrow> \<exists>t. s = t @ r \<and> kept (parse_value n d) stops t v"
  "parse_elements n d s = Some (vs, r) \<Longrightarrow> \<exists>t. s = t @ r \<and> kept (parse_elements n d) any_rest t vs"
  "parse_members n d s = Some (ms, r) \<Longrightarrow> \<exists>t. s = t @ r \<and> kept (parse_members n d) any_rest t ms"
proof (induction n arbitrary: d s v vs ms r)
  case (Suc n)
  { case 1 then show ?case by (rule value_kept) (fact Suc.IH)+ }
  { case 2
    then obtain v x c y where p: "parse_value n d s = Some (v, x)" "skip_ws x = c # y"
      "c = CHR '']'' \<and> vs = [v] \<and> r = y \<or> c = CHR '','' \<and> (\<exists>ws. parse_elements n d y = Some (ws, r) \<and> vs = v # ws)"
      unfolding elements_iff by blast
    obtain t where t: "s = t @ x" "kept (parse_value n d) stops t v" using Suc.IH(1) [OF p(1)] by blast
    obtain w where w: "x = w @ c # y" "blank w" by (rule blank_cons [OF p(2)])
    from p(3) show ?case
    proof (elim disjE conjE exE)
      assume "c = CHR '']''" "vs = [v]" "r = y"
      then show ?thesis using t w kept_last_element [OF t(2) w(2)] by (intro exI [of _ "t @ w @ '']''"]) (simp del: parse_elements.simps)
    next
      fix ws assume e: "c = CHR '',''" "parse_elements n d y = Some (ws, r)" "vs = v # ws"
      obtain u where "y = u @ r" "kept (parse_elements n d) any_rest u ws" using Suc.IH(2) [OF e(2)] by blast
      then show ?thesis using e t w kept_more_elements [OF t(2) w(2)] by (intro exI [of _ "t @ w @ CHR '','' # u"]) (simp del: parse_elements.simps)
    qed }
  { case 3
    then obtain x1 k x2 x3 v x c y where p: "skip_ws s = quote_char # x1" "unquote x1 = Some (k, x2)" "skip_ws x2 = CHR '':'' # x3"
      "parse_value n d x3 = Some (v, x)" "skip_ws x = c # y"
      "c = CHR ''}'' \<and> ms = [(k, v)] \<and> r = y \<or> c = CHR '','' \<and> (\<exists>es. parse_members n d y = Some (es, r) \<and> ms = (k, v) # es)"
      unfolding members_iff by blast
    obtain w1 where w1: "s = w1 @ quote_char # x1" "blank w1" by (rule blank_cons [OF p(1)])
    obtain q where q: "x1 = q @ quote_char # x2" "string_text q k" using unquote_text [OF p(2)] by blast
    obtain w2 where w2: "x2 = w2 @ CHR '':'' # x3" "blank w2" by (rule blank_cons [OF p(3)])
    obtain t where t: "x3 = t @ x" "kept (parse_value n d) stops t v" using Suc.IH(1) [OF p(4)] by blast
    obtain w3 where w3: "x = w3 @ c # y" "blank w3" by (rule blank_cons [OF p(5)])
    from p(6) show ?case
    proof (elim disjE conjE exE)
      assume "c = CHR ''}''" "ms = [(k, v)]" "r = y"
      then show ?thesis using w1(1) q(1) w2(1) t(1) w3(1) kept_last_member [OF w1(2) q(2) w2(2) t(2) w3(2)]
        by (intro exI [of _ "w1 @ quote_char # q @ quote_char # w2 @ CHR '':'' # t @ w3 @ ''}''"]) (simp del: parse_members.simps)
    next
      fix es assume e: "c = CHR '',''" "parse_members n d y = Some (es, r)" "ms = (k, v) # es"
      obtain u where "y = u @ r" "kept (parse_members n d) any_rest u es" using Suc.IH(3) [OF e(2)] by blast
      then show ?thesis using e w1(1) q(1) w2(1) t(1) w3(1) kept_more_members [OF w1(2) q(2) w2(2) t(2) w3(2)]
        by (intro exI [of _ "w1 @ quote_char # q @ quote_char # w2 @ CHR '':'' # t @ w3 @ CHR '','' # u"]) (simp del: parse_members.simps)
    qed }
qed simp_all

text \<open>More fuel or less depth change no result.\<close>

lemma parse_more:
  "parse_value n d s = Some (v, r) \<Longrightarrow> n \<le> m \<Longrightarrow> e \<le> d \<Longrightarrow> parse_value m e s = Some (v, r)"
  "parse_elements n d s = Some (vs, r) \<Longrightarrow> n \<le> m \<Longrightarrow> e \<le> d \<Longrightarrow> parse_elements m e s = Some (vs, r)"
  "parse_members n d s = Some (ms, r) \<Longrightarrow> n \<le> m \<Longrightarrow> e \<le> d \<Longrightarrow> parse_members m e s = Some (ms, r)"
proof (induction n arbitrary: d s v vs ms r m e)
  case (Suc n)
  { case 1
    then obtain k where m: "m = Suc k" "n \<le> k" by (cases m) auto
    obtain c u where c: "skip_ws s = c # u" using 1(1) by (cases "skip_ws s") auto
    have d: "d < max_depth \<Longrightarrow> e < max_depth" using 1 by simp
    have el: "parse_elements n (Suc d) u = Some (vs, r) \<Longrightarrow> parse_elements k (Suc e) u = Some (vs, r)" for vs
      using Suc.IH(2) [OF _ m(2)] 1(3) by simp
    have me: "parse_members n (Suc d) u = Some (ms, r) \<Longrightarrow> parse_members k (Suc e) u = Some (ms, r)" for ms
      using Suc.IH(3) [OF _ m(2)] 1(3) by simp
    show ?case using 1(1) c d el me unfolding m(1)
      by (auto simp del: number.simps split: list.splits if_splits) }
  { case 2
    then obtain k where m: "m = Suc k" "n \<le> k" by (cases m) auto
    show ?case using 2(1) Suc.IH(1,2) [OF _ m(2) 2(3)] unfolding m(1) elements_iff by blast }
  { case 3
    then obtain k where m: "m = Suc k" "n \<le> k" by (cases m) auto
    show ?case using 3(1) Suc.IH(1,3) [OF _ m(2) 3(3)] unfolding m(1) members_iff by blast }
qed simp_all

section \<open>Raw values stand for values\<close>

text \<open>\<open>text_of d v t\<close>: \<open>t\<close> is the text of \<open>v\<close>, \<open>d\<close> arrays and objects deep, with nothing around it.\<close>

definition text_of :: "nat \<Rightarrow> json \<Rightarrow> raw \<Rightarrow> bool" where
  "text_of d v t \<longleftrightarrow> (\<exists>n. parse_value n d t = Some (v, [])) \<and> skip_ws t = t"

lemma text_of_reads:
  assumes "text_of d v t"
  shows "reads_as d v (compact False t)" "reads_as d v t"
proof -
  obtain n where n: "parse_value n d t = Some (v, [])" using assms by (auto simp: text_of_def)
  then have k: "kept (parse_value n d) stops t v" using parse_text(1) [OF n] by simp
  show "reads_as d v (compact False t)" "reads_as d v t"
    unfolding reads_as_def using keptD(1,2) [OF k] by (blast intro: parse_more(1))+
qed

lemma reads_as_less: "reads_as d v t \<Longrightarrow> e \<le> d \<Longrightarrow> reads_as e v t"
  unfolding reads_as_def by (blast intro: parse_more(1))

lemma text_of_first: "text_of d v t \<Longrightarrow> \<exists>c u. t = c # u \<and> starts c"
  unfolding text_of_def by (metis value_starts)

lemma text_of_marshal: "text_of d v t \<Longrightarrow> reads_as d v (marshal_raw t)"
  using text_of_first [of d v t] text_of_reads(1) [of d v t] by (auto simp: marshal_raw_def)

lemma text_of_parse: "text_of 0 v t \<Longrightarrow> parse t = Some (v, [])"
  using reads_parse [OF text_of_reads(2), of v t "[]"] by simp

lemma split_value_text:
  assumes "parse_value n d s = Some (v, r)"
  shows "\<exists>t. split_value s = Some (t, r) \<and> text_of d v t"
proof -
  let ?s = "skip_ws s"
  have s: "parse_value n d ?s = Some (v, r)" using assms blank_split [of s] parse_value_blank by metis
  then have "parse_value (max n (2 * length ?s + 1)) 0 ?s = Some (v, r)" by (rule parse_more) simp_all
  moreover have "parse_value (max n (2 * length ?s + 1)) 0 ?s = parse_value (2 * length ?s + 1) 0 ?s"
    by (rule parse_fuel) simp_all
  ultimately have p: "parse ?s = Some (v, r)" by (simp add: parse_def)
  obtain t where t: "?s = t @ r" "kept (parse_value n d) stops t v" using parse_text(1) [OF s] by blast
  then have v: "parse_value n d t = Some (v, [])" using keptD(1) [OF t(2), of "[]"] by simp
  then obtain c u where c: "skip_ws t = c # u" using value_starts by blast
  have "skip_ws (t @ r) = t @ r" using t(1) by (simp add: skip_ws_def dropWhile_idem flip: t(1))
  then have "skip_ws t = t" using c length_skip_ws [of "tl t @ r"] by (cases t) (auto simp: skip_ws_def split: if_splits)
  then have "text_of d v t" using v by (auto simp: text_of_def)
  moreover have "split_value s = Some (t, r)" using p t(1) by (simp add: split_value_def Let_def)
  ultimately show ?thesis by blast
qed

lemma raw_items_texts:
  "parse_elements n d s = Some (vs, r) \<Longrightarrow> length s \<le> m \<Longrightarrow> \<exists>ts. raw_items m s = Some ts \<and> list_all2 (text_of d) vs ts"
proof (induction n arbitrary: s vs m)
  case (Suc n)
  obtain v x c y where p: "parse_value n d s = Some (v, x)" "skip_ws x = c # y"
    "c = CHR '']'' \<and> vs = [v] \<and> r = y \<or> c = CHR '','' \<and> (\<exists>ws. parse_elements n d y = Some (ws, r) \<and> vs = v # ws)"
    using Suc.prems(1) unfolding elements_iff by blast
  obtain t where t: "split_value s = Some (t, x)" "text_of d v t" using split_value_text [OF p(1)] by blast
  have l: "length y < length s" using parse_consumes(1) [OF p(1)] skip_ws_Cons [OF p(2)] by simp
  then obtain k where k: "m = Suc k" "length y \<le> k" using Suc.prems(2) by (cases m) auto
  from p(3) show ?case
  proof (elim disjE conjE exE)
    assume "c = CHR '']''" "vs = [v]"
    then show ?thesis using t p(2) k(1) by simp
  next
    fix ws assume e: "c = CHR '',''" "parse_elements n d y = Some (ws, r)" "vs = v # ws"
    obtain ts where "raw_items k y = Some ts" "list_all2 (text_of d) ws ts" using Suc.IH [OF e(2) k(2)] by blast
    then show ?thesis using e t p(2) k(1) by simp
  qed
qed simp

definition member_text_of :: "nat \<Rightarrow> string \<times> json \<Rightarrow> string \<times> raw \<Rightarrow> bool" where
  "member_text_of d e p \<longleftrightarrow> fst p = fst e \<and> valid_utf8 (fst e) \<and> text_of d (snd e) (snd p)"

lemma valid_append: "valid_utf8 s \<Longrightarrow> valid_utf8 t \<Longrightarrow> valid_utf8 (s @ t)"
  unfolding valid_utf8_iff by (metis (no_types, lifting) UnE encode_runes_simps(3) set_append)

lemma valid_encode: "valid_utf8 (encode_rune r)"
proof (cases "scalar r")
  case True
  then show ?thesis unfolding valid_utf8_iff by (intro exI [of _ "[r]"]) simp
next
  case False
  have s: "scalar rune_error" by (simp add: scalar_def surrogate_def rune_error_def)
  have "encode_rune r = encode_rune rune_error"
    using False by (auto simp: encode_rune_def s) (simp_all add: scalar_def surrogate_def rune_error_def)
  then show ?thesis using s unfolding valid_utf8_iff by (intro exI [of _ "[rune_error]"]) simp
qed

lemma valid_char: "byte c < 128 \<Longrightarrow> valid_utf8 [c]"
  using valid_encode [of "byte c"] by (simp add: encode_rune_def)

lemma unquote_first:
  assumes "unquote (c # s) = Some (t, r)"
  shows "t = '''' \<or> (\<exists>p x u. t = p @ x \<and> valid_utf8 p \<and> unquote u = Some (x, r) \<and> length u \<le> length s)"
proof -
  have e: "byte x < 128" if "unescape e = Some x" for e x
    using that by (auto simp: unescape_def byte_simps quote_char_def backslash_def split: if_splits)
  have first: ?thesis if "emit p (unquote u) = Some (t, r)" "valid_utf8 p" "length u \<le> length s" for p u
    using that by auto
  consider "c = quote_char" | "c = backslash" | "c \<noteq> quote_char" "c \<noteq> backslash" "byte c < 128"
    | "c \<noteq> quote_char" "c \<noteq> backslash" "128 \<le> byte c" by linarith
  then show ?thesis
  proof cases
    case 2
    obtain e v where s: "s = e # v" using assms 2 by (cases s) auto
    show ?thesis
    proof (cases "e = CHR ''u''")
      case True
      then obtain p u where "emit (encode_rune p) (unquote u) = Some (t, r)" "length u \<le> length s"
        using assms 2 s by (fastforce split: option.splits if_splits)
      then show ?thesis using first valid_encode by blast
    next
      case False
      then obtain x where "unescape e = Some x" "emit [x] (unquote v) = Some (t, r)"
        using assms 2 s by (auto split: option.splits)
      then show ?thesis by (intro first [of "[x]" v] valid_char e) (simp_all add: s)
    qed
  next
    case 3
    then have "emit [c] (unquote s) = Some (t, r)" using assms by (simp split: if_splits)
    then show ?thesis using 3 by (intro first [of "[c]" s] valid_char) simp_all
  next
    case 4
    obtain q n where d: "decode_rune (c # s) = (q, n)" by fastforce
    then have "1 \<le> n" using decode_rune_width by blast
    then show ?thesis using 4 assms d by (intro first [of "encode_rune q" "drop n (c # s)"] valid_encode) (auto split: if_splits)
  qed (use assms in simp)
qed

lemma unquote_valid_utf8: "unquote s = Some (t, r) \<Longrightarrow> valid_utf8 t"
proof (induction "length s" arbitrary: s t rule: less_induct)
  case less
  obtain c v where s: "s = c # v" using less.prems by (cases s) auto
  from unquote_first [OF less.prems [unfolded s]] show ?case
  proof (elim disjE exE conjE)
    assume "t = ''''" then show ?thesis by (simp add: valid_utf8_def)
  next
    fix p x u assume u: "t = p @ x" "valid_utf8 p" "unquote u = Some (x, r)" "length u \<le> length v"
    have "valid_utf8 x" by (rule less.hyps [OF _ u(3)]) (use u(4) s in simp)
    then show ?thesis using u(1,2) valid_append by simp
  qed
qed

lemma raw_pairs_texts:
  "parse_members n d s = Some (ms, r) \<Longrightarrow> length s \<le> m \<Longrightarrow>
    \<exists>ps. raw_pairs m s = Some ps \<and> list_all2 (member_text_of d) ms ps"
proof (induction n arbitrary: s ms m)
  case (Suc n)
  obtain x1 k x2 x3 v x c y where p: "skip_ws s = quote_char # x1" "unquote x1 = Some (k, x2)" "skip_ws x2 = CHR '':'' # x3"
    "parse_value n d x3 = Some (v, x)" "skip_ws x = c # y"
    "c = CHR ''}'' \<and> ms = [(k, v)] \<and> r = y \<or> c = CHR '','' \<and> (\<exists>es. parse_members n d y = Some (es, r) \<and> ms = (k, v) # es)"
    using Suc.prems(1) unfolding members_iff by blast
  have "parse_value (Suc 0) 0 s = Some (JString k, x2)" using p(1,2) by simp
  then obtain q where q: "split_value s = Some (q, x2)" "text_of 0 (JString k) q" using split_value_text by blast
  then have k: "raw_key q = k" by (simp add: raw_key_def decode_first_def text_of_parse)
  have valid: "valid_utf8 k" by (rule unquote_valid_utf8 [OF p(2)])
  obtain t where t: "split_value x3 = Some (t, x)" "text_of d v t" using split_value_text [OF p(4)] by blast
  have l: "length y < length s"
    using skip_ws_Cons [OF p(1)] unquote_consumes [OF p(2)] skip_ws_Cons [OF p(3)] parse_consumes(1) [OF p(4)] skip_ws_Cons [OF p(5)]
    by linarith
  then obtain j where j: "m = Suc j" "length y \<le> j" using Suc.prems(2) by (cases m) auto
  have e: "member_text_of d (k, v) (k, t)" using t(2) valid by (simp add: member_text_of_def)
  from p(6) show ?case
  proof (elim disjE conjE exE)
    assume "c = CHR ''}''" "ms = [(k, v)]"
    then show ?thesis using e q(1) k t(1) p(3,5) j(1) by simp
  next
    fix es assume m: "c = CHR '',''" "parse_members n d y = Some (es, r)" "ms = (k, v) # es"
    obtain ps where "raw_pairs j y = Some ps" "list_all2 (member_text_of d) es ps" using Suc.IH [OF m(2) j(2)] by blast
    then show ?thesis using m e q(1) k t(1) p(3,5) j(1) by simp
  qed
qed simp

text \<open>Decoding a raw value into a slice or a struct, and a body into a raw value.\<close>

lemma text_of_value:
  assumes "text_of d v t"
  obtains n c u where "t = c # u" "parse_value (Suc n) d (c # u) = Some (v, [])" "skip_ws (c # u) = c # u" "starts c"
proof -
  obtain n where n: "parse_value n d t = Some (v, [])" and s: "skip_ws t = t" using assms by (auto simp: text_of_def)
  obtain c u where c: "t = c # u" "starts c" using text_of_first [OF assms] by blast
  obtain m where "n = Suc m" using n by (cases n) auto
  then show thesis using that n s c by simp
qed

lemma starts_not: "starts c \<Longrightarrow> c \<noteq> CHR '']'' \<and> c \<noteq> CHR ''}''"
  using starts_plain by blast

lemma as_array_texts:
  assumes "text_of d v t"
  shows "case v of
      JNull \<Rightarrow> as_array t = Some []
    | JArray vs \<Rightarrow> (\<exists>ts. as_array t = Some ts \<and> list_all2 (text_of (Suc d)) vs ts)
    | _ \<Rightarrow> as_array t = None"
proof -
  obtain n c u where t: "t = c # u" and p: "parse_value (Suc n) d (c # u) = Some (v, [])" "skip_ws (c # u) = c # u"
    using assms by (rule text_of_value)
  show ?thesis
  proof (cases "c = CHR ''[''")
    case True
    then have d: "d < max_depth" and ne: "skip_ws u \<noteq> []" using p by (auto split: if_splits list.splits)
    then obtain e x where e: "skip_ws u = e # x" by (cases "skip_ws u") auto
    show ?thesis
    proof (cases "e = CHR '']''")
      case e': True
      then have "v = JArray []" "x = []" using p True d e by auto
      then show ?thesis using e e' True by (simp add: as_array_def t)
    next
      case False
      then obtain vs where vs: "parse_elements n (Suc d) u = Some (vs, [])" "v = JArray vs"
        using p True d e by (auto split: if_splits)
      obtain ts where "raw_items (length t) u = Some ts" "list_all2 (text_of (Suc d)) vs ts"
        using raw_items_texts [OF vs(1), of "length t"] t by auto
      then show ?thesis using vs(2) e False True by (simp add: as_array_def t)
    qed
  next
    case False
    have "(v = JNull \<longrightarrow> t = ''null'') \<and> (v \<noteq> JNull \<longrightarrow> t \<noteq> ''null'') \<and> (\<forall>vs. v \<noteq> JArray vs)"
      using p False t by (auto simp: expect_def has_prefix_iff quote_char_def split: if_splits list.splits simp del: number.simps)
    then show ?thesis using False t by (cases v) (auto simp: as_array_def)
  qed
qed

lemma as_object_texts:
  assumes "text_of d v t"
  shows "case v of
      JNull \<Rightarrow> as_object t = Some []
    | JObject ms \<Rightarrow> (\<exists>es ps. as_object t = Some ps \<and> ms = members es \<and> list_all2 (member_text_of (Suc d)) es ps)
    | _ \<Rightarrow> as_object t = None"
proof -
  obtain n c u where t: "t = c # u" and p: "parse_value (Suc n) d (c # u) = Some (v, [])" "skip_ws (c # u) = c # u"
    using assms by (rule text_of_value)
  show ?thesis
  proof (cases "c = CHR ''{''")
    case True
    then have d: "d < max_depth" and ne: "skip_ws u \<noteq> []" using p by (auto split: if_splits list.splits)
    then obtain e x where e: "skip_ws u = e # x" by (cases "skip_ws u") auto
    show ?thesis
    proof (cases "e = CHR ''}''")
      case e': True
      then have "v = JObject []" "x = []" using p True d e by auto
      then show ?thesis using e e' True by (simp add: as_object_def t members_def)
    next
      case False
      then obtain ms where ms: "parse_members n (Suc d) u = Some (ms, [])" "v = JObject (members ms)"
        using p True d e by (auto split: if_splits)
      obtain ps where "raw_pairs (length t) u = Some ps" "list_all2 (member_text_of (Suc d)) ms ps"
        using raw_pairs_texts [OF ms(1), of "length t"] t by auto
      then show ?thesis using ms(2) e False True by (auto simp: as_object_def t)
    qed
  next
    case False
    have "(v = JNull \<longrightarrow> t = ''null'') \<and> (v \<noteq> JNull \<longrightarrow> t \<noteq> ''null'') \<and> (\<forall>es. v \<noteq> JObject es)"
      using p False t by (auto simp: expect_def has_prefix_iff quote_char_def split: if_splits list.splits simp del: number.simps)
    then show ?thesis using False t by (cases v) (auto simp: as_object_def)
  qed
qed

lemma unmarshal_texts: "unmarshal body = Some t \<Longrightarrow> \<exists>v. decode_all body = Some v \<and> text_of 0 v t"
proof -
  assume u: "unmarshal body = Some t"
  then obtain v r where v: "decode_all body = Some v" "parse body = Some (v, r)"
    by (auto simp: unmarshal_def decode_all_def split: option.splits if_splits)
  then have "parse_value (2 * length body + 1) 0 body = Some (v, r)" by (simp add: parse_def)
  from split_value_text [OF this] u v(1) show ?thesis by (auto simp: unmarshal_def)
qed

lemma unmarshal_iff: "unmarshal body = None \<longleftrightarrow> decode_all body = None"
proof -
  have "\<exists>t. split_value body = Some (t, r)" if "parse body = Some (v, r)" for v r
    using split_value_text that unfolding parse_def by blast
  then show ?thesis by (auto simp: unmarshal_def decode_all_def split: option.splits if_splits)
qed

section \<open>Replacing a member of an object\<close>

lemma put_member_rel:
  assumes "list_all2 (\<lambda>e f. fst f = fst e \<and> R (snd e) (snd f)) es fs" "R v w"
  shows "list_all2 (\<lambda>e f. fst f = fst e \<and> R (snd e) (snd f)) (put_member k v es) (put_member k w fs)"
  using assms by (induction es fs rule: list_all2_induct) auto

lemma members_rel:
  assumes "list_all2 (\<lambda>e f. fst f = fst e \<and> R (snd e) (snd f)) es fs"
  shows "list_all2 (\<lambda>e f. fst f = fst e \<and> R (snd e) (snd f)) (members es) (members fs)"
proof -
  have "list_all2 (\<lambda>e f. fst f = fst e \<and> R (snd e) (snd f)) (fold (\<lambda>(k, v). put_member k v) es as) (fold (\<lambda>(k, v). put_member k v) fs bs)"
    if "list_all2 (\<lambda>e f. fst f = fst e \<and> R (snd e) (snd f)) as bs" for as bs
    using assms that
    by (induction es fs arbitrary: as bs rule: list_all2_induct) (auto simp: case_prod_beta intro!: put_member_rel)
  from this [of "[]" "[]"] show ?thesis by (simp add: members_def)
qed

lemma fst_put_member: "fst ` set (put_member k v es) = insert k (fst ` set es)"
  by (induction es) auto

lemma sorted_put_member: "sorted_wrt (<) (map fst es) \<Longrightarrow> sorted_wrt (<) (map fst (put_member k v es))"
proof (induction es)
  case (Cons e es)
  have "\<forall>f\<in>set (put_member k v es). fst e < fst f" if "fst e < k"
    using Cons.prems that fst_put_member [of k v es] by (fastforce simp: image_iff)
  then show ?case using Cons by (fastforce dest: less_trans)
qed simp

lemma sorted_members: "sorted_wrt (<) (map fst (members es))"
proof -
  have "sorted_wrt (<) (map fst (fold (\<lambda>(k, v). put_member k v) es as))" if "sorted_wrt (<) (map fst as)" for as
    using that by (induction es arbitrary: as) (auto simp: sorted_put_member)
  then show ?thesis by (simp add: members_def)
qed

lemma keys_members: "fst ` set (members es) = fst ` set es"
proof -
  have "fst ` set (fold (\<lambda>(k, v). put_member k v) es as) = fst ` set es \<union> fst ` set as" for as :: "(string \<times> 'a) list"
    by (induction es arbitrary: as) (simp_all add: fst_put_member case_prod_beta)
  then show ?thesis by (simp add: members_def)
qed

text \<open>The value behind a raw value, \<open>null\<close> for a missing one.\<close>

definition raw_value :: "nat \<Rightarrow> json \<Rightarrow> raw \<Rightarrow> bool" where
  "raw_value d v t \<longleftrightarrow> (if t = '''' then v = JNull else text_of d v t)"

lemma text_of_less: "text_of d v t \<Longrightarrow> e \<le> d \<Longrightarrow> text_of e v t"
  unfolding text_of_def by (blast intro: parse_more(1))

lemma raw_value_less: "raw_value d v t \<Longrightarrow> e \<le> d \<Longrightarrow> raw_value e v t"
  unfolding raw_value_def using text_of_less by (metis (full_types))

lemma raw_value_or: "raw_value d v t \<Longrightarrow> t = '''' \<or> (\<exists>v. text_of d v t)"
  by (auto simp: raw_value_def split: if_splits)

lemma marshal_list_reads:
  assumes "list_all2 (raw_value (Suc d)) vs ts" "d < max_depth"
  shows "reads_as d (JArray vs) (marshal_list ts)"
proof -
  have "list_all2 (reads_as (Suc d)) vs (map marshal_raw ts)"
    using assms(1) by (induction vs ts rule: list_all2_induct) (auto simp: raw_value_def marshal_raw_def reads_null text_of_reads(1) split: if_splits)
  from reads_array [OF this assms(2)] show ?thesis by (simp add: marshal_list_def)
qed

section \<open>Raw values of printed JSON\<close>

definition printable :: "json \<Rightarrow> bool" where
  "printable v \<longleftrightarrow> json_ok v \<and> depth v \<le> max_depth"

lemma printed_starts: "printable v \<Longrightarrow> \<exists>c u. print_json v = c # u \<and> starts c"
proof -
  assume v: "printable v"
  have "json_ok v \<Longrightarrow> \<exists>c s. print_json v = c # s \<and> starts c"
    by (cases v) (auto simp: starts_def print_string_def dest: number_starts)
  then show ?thesis using v by (simp add: printable_def)
qed

lemma split_print:
  assumes "printable v" "stops r"
  shows "split_value (print_json v @ r) = Some (print_json v, r)"
proof -
  obtain c u where c: "print_json v = c # u" "starts c" using printed_starts [OF assms(1)] by blast
  have "skip_ws (print_json v @ r) = print_json v @ r" using starts_plain [OF c(2)] by (simp add: c(1) skip_ws_char)
  then show ?thesis using parse_print [of v r] assms by (simp add: split_value_def Let_def printable_def)
qed

lemma unmarshal_print: "printable v \<Longrightarrow> unmarshal (print_json v) = Some (print_json v)"
  using split_print [of v "[]"] by (simp add: unmarshal_def decode_all_print printable_def)

lemma join_Cons: "\<exists>t. join sep (x # xs) = x @ t"
  by (cases xs) auto

lemma raw_items_print:
  "vs \<noteq> [] \<Longrightarrow> \<forall>v\<in>set vs. printable v \<Longrightarrow> length vs \<le> n \<Longrightarrow>
    raw_items n (join '','' (map print_json vs) @ '']'') = Some (map print_json vs)"
proof (induction vs arbitrary: n)
  case (Cons v vs)
  then obtain m where n: "n = Suc m" "length vs \<le> m" by (cases n) auto
  show ?case
  proof (cases vs)
    case Nil
    then show ?thesis using Cons.prems n(1) split_print [of v "'']''"] by (simp add: skip_ws_char)
  next
    case (Cons w ws)
    then show ?thesis using Cons.IH [of m] Cons.prems n split_print [of v "CHR '','' # join '','' (map print_json vs) @ '']''"]
      by (simp add: skip_ws_char)
  qed
qed simp

lemma as_array_print:
  assumes "\<forall>v\<in>set vs. printable v"
  shows "as_array (print_json (JArray vs)) = Some (map print_json vs)"
proof (cases vs)
  case Nil
  then show ?thesis by (simp add: as_array_def skip_ws_char)
next
  case (Cons v ws)
  have "length vs \<le> length (join '','' (map print_json vs))"
  proof -
    have "length vs \<le> length (join '','' (map print_json vs))" if "\<forall>v\<in>set vs. print_json v \<noteq> []" for vs
      using that by (induction vs rule: induct_list012) (auto simp: Suc_le_eq)
    then show ?thesis using assms printed_starts by fastforce
  qed
  then have "raw_items (length (print_json (JArray vs))) (join '','' (map print_json vs) @ '']'') = Some (map print_json vs)"
    by (intro raw_items_print) (use assms Cons in auto)
  moreover obtain c u where "print_json v = c # u" "starts c" using printed_starts assms Cons by force
  then obtain x where "join '','' (map print_json vs) = c # x" "c \<noteq> CHR '']''" "\<not> is_ws c"
    using join_Cons [of "'',''" "print_json v" "map print_json ws"] Cons starts_plain by auto
  ultimately show ?thesis by (simp add: as_array_def skip_ws_char)
qed

lemma printed_key:
  assumes "valid_utf8 k"
  shows "split_value (print_string k @ CHR '':'' # r) = Some (print_string k, CHR '':'' # r)" "raw_key (print_string k) = k"
proof -
  have p: "printable (JString k)" using assms by (simp add: printable_def)
  have "stops (CHR '':'' # r)" by (simp add: stops_def is_digit_def byte_simps)
  then show "split_value (print_string k @ CHR '':'' # r) = Some (print_string k, CHR '':'' # r)"
    using split_print [OF p] by simp
  show "raw_key (print_string k) = k"
    using decode_first_print [of "JString k"] assms by (simp add: raw_key_def)
qed

lemma raw_pairs_print:
  "es \<noteq> [] \<Longrightarrow> \<forall>e\<in>set es. valid_utf8 (fst e) \<and> printable (snd e) \<Longrightarrow> length es \<le> n \<Longrightarrow>
    raw_pairs n (join '','' (map (\<lambda>e. print_string (fst e) @ CHR '':'' # print_json (snd e)) es) @ ''}'') =
    Some (map (\<lambda>e. (fst e, print_json (snd e))) es)"
proof (induction es arbitrary: n)
  case (Cons e es)
  let ?t = "\<lambda>e. print_string (fst e) @ CHR '':'' # print_json (snd e)"
  obtain m where n: "n = Suc m" "length es \<le> m" using Cons.prems by (cases n) auto
  have e: "valid_utf8 (fst e)" "printable (snd e)" using Cons.prems by auto
  show ?case
  proof (cases es)
    case Nil
    then show ?thesis using e n(1) printed_key [OF e(1)] split_print [OF e(2), of "''}''"] by (simp add: skip_ws_char)
  next
    case (Cons f fs)
    then show ?thesis
      using Cons.IH [of m] Cons.prems n printed_key [OF e(1)] split_print [OF e(2), of "CHR '','' # join '','' (map ?t es) @ ''}''"]
      by (simp add: skip_ws_char)
  qed
qed simp

lemma as_object_print:
  assumes "\<forall>e\<in>set es. valid_utf8 (fst e) \<and> printable (snd e)"
  shows "as_object (print_json (JObject es)) = Some (map (\<lambda>e. (fst e, print_json (snd e))) es)"
proof (cases es)
  case Nil
  then show ?thesis by (simp add: as_object_def skip_ws_char)
next
  case (Cons e fs)
  let ?t = "\<lambda>e. print_string (fst e) @ CHR '':'' # print_json (snd e)"
  have "length es \<le> length (join '','' (map ?t es))" for es :: "(string \<times> json) list"
    by (induction es rule: induct_list012) auto
  then have "length es \<le> length (print_json (JObject es))" by (simp add: le_SucI)
  then have "raw_pairs (length (print_json (JObject es))) (join '','' (map ?t es) @ ''}'') = Some (map (\<lambda>e. (fst e, print_json (snd e))) es)"
    by (intro raw_pairs_print) (use assms Cons in auto)
  moreover obtain x where "join '','' (map ?t es) = quote_char # x"
    using join_Cons [of "'',''" "?t e" "map ?t fs"] Cons by (auto simp: print_string_def)
  ultimately show ?thesis by (simp add: as_object_def skip_ws_char)
qed

end
