(* ===== verification/Perl.thy ===== *)
theory Perl
  imports Raw Connconfig Registry
begin

text \<open>
  Perl's view of a raw JSON value (\<^verbatim>\<open>perlTrue\<close>, \<^verbatim>\<open>perlString\<close> of \<^verbatim>\<open>server.go\<close>), down to the 15
  digits of a number. Both trim the value first; a raw value has no white space around it.
\<close>

section \<open>Floats: strconv.ParseFloat and FormatFloat(f, 'g', 15, 64)\<close>

text \<open>
  The double nearest to \<open>n / d\<close>, ties to even, as \<open>m * 2 ^ p\<close>; \<open>None\<close> when it is out of range.
\<close>

definition floor_log2 :: "int \<Rightarrow> int \<Rightarrow> int" where
  "floor_log2 n d =
     (if n \<ge> d then int (log2_int (n div d))
      else (let q = (d + n - 1) div n in if q \<le> 1 then 0 else - (1 + int (log2_int (q - 1)))))"

definition nearest :: "int \<Rightarrow> int \<Rightarrow> (int \<times> int) option" where
  "nearest n d =
     (if n = 0 then Some (0, 0)
      else (let p = max (floor_log2 n d - 52) (- 1074);
                m = (if p \<ge> 0 then round_half_even n (d * 2 ^ nat p) else round_half_even (n * 2 ^ nat (- p)) d)
        in if p \<ge> 0 \<and> m * 2 ^ nat p \<ge> 2 ^ 1024 then None else Some (m, p)))"

definition ParseFloat :: "string \<Rightarrow> (bool \<times> int \<times> int) option" where
  "ParseFloat s =
     (if map_option snd (number s) \<noteq> Some '''' then None
      else (case literal_value s of (neg, n, d) \<Rightarrow> map_option (\<lambda>x. (neg, x)) (nearest n d)))"

text \<open>The exponent of the first decimal digit of \<open>a / b\<close>, and its 15 digits.\<close>

function log10_int :: "int \<Rightarrow> nat" where
  "log10_int n = (if n < 10 then 0 else Suc (log10_int (n div 10)))"
  by auto
termination by (relation "measure nat") auto

declare log10_int.simps [simp del]

definition floor_log10 :: "int \<Rightarrow> int \<Rightarrow> int" where
  "floor_log10 a b =
     (if a \<ge> b then int (log10_int (a div b))
      else (let q = (b + a - 1) div a in if q \<le> 1 then 0 else - (1 + int (log10_int (q - 1)))))"

definition digits15 :: "int \<Rightarrow> int \<Rightarrow> int \<times> int" where
  "digits15 a b =
     (let x = floor_log10 a b;
          m = (if x \<le> 14 then round_half_even (a * 10 ^ nat (14 - x)) b else round_half_even a (b * 10 ^ nat (x - 14)))
      in if m = 10 ^ 15 then (10 ^ 14, x + 1) else (m, x))"

function show_digits :: "int \<Rightarrow> string" where
  "show_digits n = (if n < 10 then [digit_char (nat n)] else show_digits (n div 10) @ [digit_char (nat (n mod 10))])"
  by auto
termination by (relation "measure nat") auto

declare show_digits.simps [simp del]

definition strip_zeros :: "string \<Rightarrow> string" where
  "strip_zeros ds = rev (dropWhile (\<lambda>c. c = CHR ''0'') (rev ds))"

text \<open>\<^verbatim>\<open>%e\<close> and \<^verbatim>\<open>%f\<close> of digits \<open>ds\<close> whose decimal point is after the first \<open>dp\<close> of them.\<close>

definition format_e :: "string \<Rightarrow> int \<Rightarrow> string" where
  "format_e ds dp =
     (let e = dp - 1; n = show_digits (abs e)
      in take 1 ds @ (if length ds > 1 then CHR ''.'' # drop 1 ds else '''') @
         CHR ''e'' # (if e < 0 then CHR ''-'' else CHR ''+'') # (if length n < 2 then CHR ''0'' # n else n))"

definition format_f :: "string \<Rightarrow> int \<Rightarrow> string" where
  "format_f ds dp =
     (if dp \<le> 0 then CHR ''0'' # CHR ''.'' # replicate (nat (- dp)) (CHR ''0'') @ ds
      else if int (length ds) \<le> dp then ds @ replicate (nat dp - length ds) (CHR ''0'')
      else take (nat dp) ds @ CHR ''.'' # drop (nat dp) ds)"

definition FormatFloat :: "bool \<times> int \<times> int \<Rightarrow> string" where
  "FormatFloat x = (case x of (neg, m, p) \<Rightarrow>
     (if neg then ''-'' else '''') @
     (if m = 0 then ''0''
      else (case digits15 (if p \<ge> 0 then m * 2 ^ nat p else m) (if p \<ge> 0 then 1 else 2 ^ nat (- p)) of (n, x) \<Rightarrow>
        (let ds = strip_zeros (show_digits n); dp = x + 1; nd = int (length ds);
             eprec = (if 15 > nd \<and> nd \<ge> dp then nd else 15)
         in if x < - 4 \<or> x \<ge> eprec then format_e ds dp else format_f ds dp))))"

section \<open>Perl's view of a raw value\<close>

definition perlTrue :: "raw \<Rightarrow> bool" where
  "perlTrue v =
     (if v \<in> {'''', ''null'', ''false'', dquote @ dquote, dquote @ ''0'' @ dquote} then False
      else (case ParseFloat v of Some (_, m, _) \<Rightarrow> m \<noteq> 0 | None \<Rightarrow> True))"

definition perlString :: "raw \<Rightarrow> string" where
  "perlString v =
     (if v = '''' \<or> v = ''null'' then ''''
      else if v = ''true'' then ''1''
      else if v = ''false'' then ''0''
      else (case (if hd v = quote_char then decode_all v else None) of
          Some (JString s) \<Rightarrow> s
        | _ \<Rightarrow> if ParseInt v \<noteq> None then v
            else (case ParseFloat v of Some f \<Rightarrow> FormatFloat f | None \<Rightarrow> v)))"

end
