(* ===== verification/Replay.thy ===== *)
theory Replay
  imports Perl Liercd
begin

text \<open>
  \<^verbatim>\<open>replay.go\<close> and the decoding half of \<^verbatim>\<open>Deliver\<close> (\<^verbatim>\<open>server.go\<close>): the fake events that bring a new stream
  up to date, the saving of channel lists when a stream ends, and what an NSQ message says. The
  status of every connection is fetched by a goroutine of its own; here one after the other, as
  each only concerns its own connection. What the code logs is left out. The lemmas say what is
  replayed, that it is all or nothing, how names are cut into lines, and what a save keeps.
\<close>

section \<open>A connection's status\<close>

record channel =
  ch_name :: raw
  ch_mode :: raw
  ch_topic :: raw
  ch_topic_user :: raw
  ch_topic_time :: raw
  ch_nicks :: "raw list option"

record status =
  st_id :: raw
  st_nick :: raw
  st_alias :: raw
  st_host :: raw
  st_connected :: raw
  st_registered :: raw
  st_isupport :: "raw list"
  st_caps :: "raw list"
  st_channels :: "channel list"

text \<open>\<^verbatim>\<open>json.Unmarshal\<close> into these; \<open>None\<close> is an error.\<close>

definition decode_channel :: "raw \<Rightarrow> channel option" where
  "decode_channel v = (case as_object v of
     None \<Rightarrow> None
   | Some es \<Rightarrow> (let nicks = member es ''Nicks'' in
       case (as_object (member es ''Topic''), as_array nicks) of
         (Some topic, Some ns) \<Rightarrow> Some
           \<lparr>ch_name = member es ''Name'', ch_mode = member es ''Mode'', ch_topic = member topic ''Topic'',
            ch_topic_user = member topic ''User'', ch_topic_time = member topic ''Time'',
            ch_nicks = (if nicks = '''' \<or> nicks = ''null'' then None else Some ns)\<rparr>
       | _ \<Rightarrow> None))"

fun map_all :: "('a \<Rightarrow> 'b option) \<Rightarrow> 'a list \<Rightarrow> 'b list option" where
  "map_all f [] = Some []"
| "map_all f (x # xs) = (case f x of None \<Rightarrow> None | Some y \<Rightarrow> map_option (\<lambda>ys. y # ys) (map_all f xs))"

definition decode_status :: "string \<Rightarrow> status option" where
  "decode_status body = (case Option.bind (unmarshal body) as_object of
     None \<Rightarrow> None
   | Some es \<Rightarrow>
       (case (as_object (member es ''Config''), as_object (member es ''Status''), as_array (member es ''Isupport''),
              as_array (member es ''CapsAcked''), Option.bind (as_array (member es ''Channels'')) (map_all decode_channel)) of
          (Some config, Some st, Some isupport, Some caps, Some channels) \<Rightarrow> Some
            \<lparr>st_id = member es ''Id'', st_nick = member es ''Nick'', st_alias = member config ''Alias'', st_host = member config ''Host'',
             st_connected = member st ''Connected'', st_registered = member es ''Registered'', st_isupport = isupport,
             st_caps = caps, st_channels = channels\<rparr>
        | _ \<Rightarrow> None))"

section \<open>Fake events\<close>

text \<open>An event before it is given a time: connection id, prefix, command and parameters.\<close>

type_synonym fake = "raw \<times> raw \<times> string \<times> raw list"

definition ircEvent :: "string \<Rightarrow> fake \<Rightarrow> string" where
  "ircEvent time e = (case e of (i, prefix, command, params) \<Rightarrow>
     sseEvent ''irc'' (marshal_object
       [(''ConnectionId'', marshal_raw i),
        (''Message'', marshal_object
          [(''Command'', print_string command), (''Prefix'', marshal_object [(''Name'', marshal_raw prefix)]),
           (''Params'', marshal_list params), (''Time'', time)])]) '''')"

definition liercdPrefix :: raw where
  "liercdPrefix = jsonString ''liercd''"

definition joinStrings :: "raw list \<Rightarrow> string" where
  "joinStrings vs = join '' '' (map perlString vs)"

definition push_connect :: "status \<Rightarrow> fake list" where
  "push_connect s =
     (st_id s, liercdPrefix, ''CREATE'', [st_nick s, if perlTrue (st_alias s) then st_alias s else st_host s]) #
     (if perlTrue (st_connected s) then [(st_id s, liercdPrefix, ''CONNECT'', [])] else [])"

definition push_welcome :: "status \<Rightarrow> fake list" where
  "push_welcome s =
     (st_id s, liercdPrefix, ''001'',
       [st_nick s, jsonString (''Welcome to the Internet Relay Network '' @ perlString (st_nick s))]) #
     (if st_isupport s \<noteq> [] then [(st_id s, liercdPrefix, ''005'', [st_nick s, jsonString (joinStrings (st_isupport s))])] else []) @
     (if st_caps s \<noteq> [] then
        [(st_id s, liercdPrefix, ''CAP'', [jsonString ''*'', jsonString ''ACK'', jsonString (joinStrings (st_caps s))])] else [])"

definition push_joins :: "status \<Rightarrow> fake list" where
  "push_joins s = map (\<lambda>ch. (st_id s, st_nick s, ''JOIN'', [ch_name ch])) (st_channels s)"

definition push_topics :: "status \<Rightarrow> fake list" where
  "push_topics s = concat (map (\<lambda>ch. if perlTrue (ch_topic ch) then
       [(st_id s, liercdPrefix, ''332'', [st_nick s, ch_name ch, ch_topic ch]),
        (st_id s, liercdPrefix, ''333'', [st_nick s, ch_name ch, ch_topic_user ch, ch_topic_time ch])]
     else []) (st_channels s))"

text \<open>Fifty names to a line.\<close>

function chunks :: "'a list \<Rightarrow> 'a list list" where
  "chunks xs = (if xs = [] then [] else take 50 xs # chunks (drop 50 xs))"
  by auto
termination by (relation "measure length") auto

declare chunks.simps [simp del]

definition push_nicks :: "status \<Rightarrow> fake list" where
  "push_nicks s = concat (map (\<lambda>ch. case ch_nicks ch of
       None \<Rightarrow> []
     | Some nicks \<Rightarrow>
         map (\<lambda>ns. (st_id s, liercdPrefix, ''353'', [st_nick s, jsonString ''='', ch_name ch, jsonString (joinStrings ns)])) (chunks nicks) @
         [(st_id s, liercdPrefix, ''366'', [st_nick s, ch_name ch, jsonString ''End of /NAMES list.''])]) (st_channels s))"

definition push_modes :: "status \<Rightarrow> fake list" where
  "push_modes s = concat (map (\<lambda>ch.
     if perlTrue (ch_mode ch) then [(st_id s, liercdPrefix, ''324'', [ch_name ch, ch_mode ch])] else []) (st_channels s))"

definition replay_events :: "status list \<Rightarrow> fake list" where
  "replay_events statuses =
     (let registered = filter (\<lambda>s. perlTrue (st_registered s)) statuses in
      concat (map push_connect statuses) @ concat (map push_welcome registered) @ concat (map push_joins registered) @
      concat (map push_topics registered) @ concat (map push_nicks registered) @ concat (map push_modes registered))"

section \<open>replay\<close>

text \<open>\<open>clock_at i\<close> is what \<^verbatim>\<open>hiresTime\<close> gives for the \<open>i\<close>-th event.\<close>

fun fetch_all :: "client \<Rightarrow> string list \<Rightarrow> status option list prog" where
  "fetch_all lc [] = Ret []"
| "fetch_all lc (i # is) = bind (FindOrRecreate lc i) (\<lambda>r.
     bind (fetch_all lc is) (\<lambda>rest. Ret ((case r of Inl _ \<Rightarrow> None | Inr body \<Rightarrow> decode_status body) # rest)))"

definition replay :: "client \<Rightarrow> (nat \<Rightarrow> string) \<Rightarrow> (string \<times> string) list \<Rightarrow> string list prog" where
  "replay lc clock_at conns = bind (fetch_all lc (map fst conns)) (\<lambda>got. Ret
     (case map_all (\<lambda>x. x) got of
        None \<Rightarrow> []
      | Some statuses \<Rightarrow> map (\<lambda>(i, e). ircEvent (clock_at i) e) (enumerate 0 (replay_events statuses))))"

section \<open>saveChannels\<close>

definition channel_names :: "string \<Rightarrow> (raw \<times> raw list) option" where
  "channel_names body = (case Option.bind (unmarshal body) as_object of
     None \<Rightarrow> None
   | Some es \<Rightarrow> (case Option.bind (as_array (member es ''Channels'')) (map_all as_object) of
       None \<Rightarrow> None
     | Some chs \<Rightarrow> Some (member es ''Id'', map (\<lambda>ch. member ch ''Name'') chs)))"

text \<open>The config with its \<^verbatim>\<open>Channels\<close> replaced, its other members as they were written.\<close>

definition with_channels :: "string \<Rightarrow> raw list \<Rightarrow> string option" where
  "with_channels config names = (case Option.bind (unmarshal config) as_object of
     None \<Rightarrow> None
   | Some es \<Rightarrow> Some (marshal_object (put_member ''Channels'' (marshal_list names) (map (\<lambda>(k, v). (k, marshal_raw v)) (members es)))))"

fun save_all :: "client \<Rightarrow> (string \<times> string) list \<Rightarrow> unit prog" where
  "save_all lc [] = Ret ()"
| "save_all lc ((i, config) # cs) = bind (Do lc GET (i @ ''/status'') None) (\<lambda>r.
     bind (case r of
         Inl _ \<Rightarrow> Ret ()
       | Inr res \<Rightarrow> (case channel_names (Body res) of
           None \<Rightarrow> Ret ()
         | Some (row, names) \<Rightarrow>
             if names = [] then Ret ()
             else (case with_channels config names of
                 None \<Rightarrow> Ret ()
               | Some b \<Rightarrow> bind (UpdateConfig (perlString row) b) (\<lambda>_. Ret ()))))
       (\<lambda>_. save_all lc cs))"

definition saveChannels :: "client \<Rightarrow> string \<Rightarrow> unit prog" where
  "saveChannels lc user = bind (Connections user) (\<lambda>r. case r of Inl _ \<Rightarrow> Ret () | Inr conns \<Rightarrow> save_all lc conns)"

section \<open>A message from NSQ\<close>

text \<open>The connection and the id a message names; \<open>None\<close> for a bad message.\<close>

definition decode_message :: "string \<Rightarrow> (string \<times> string) option" where
  "decode_message body = (case Option.bind (unmarshal body) as_object of
     None \<Rightarrow> None
   | Some es \<Rightarrow> (let mid = member es ''MessageId'' in
       Some (perlString (member es ''ConnectionId''), if perlTrue mid then perlString mid else '''')))"

text \<open>\<^verbatim>\<open>Deliver\<close>: the owner's lookup, then \<open>deliver\<close>; the state of the server before the lookup and after it.\<close>

definition message_owner :: "string \<Rightarrow> (goerr + string option) prog" where
  "message_owner cid = LookupOwner cid"

definition Deliver :: "string \<Rightarrow> server \<Rightarrow> (server \<Rightarrow> server) prog" where
  "Deliver body s = (case decode_message body of
     None \<Rightarrow> Ret id
   | Some (cid, mid) \<Rightarrow>
       if streams s = [] then Ret id
       else bind (message_owner cid) (\<lambda>r. case r of
           Inl _ \<Rightarrow> Ret id
         | Inr None \<Rightarrow> Ret id
         | Inr (Some owner) \<Rightarrow> Ret (deliver owner body mid)))"

section \<open>What is saved\<close>

lemma as_object_member:
  assumes "as_object t = Some ps" "t = '''' \<or> (\<exists>v. text_of d v t)"
  shows "\<exists>v. raw_value (Suc d) v (member ps name)"
proof -
  have "\<forall>p\<in>set ps. \<exists>v. text_of (Suc d) v (snd p)"
  proof (cases "t = ''''")
    case True
    then show ?thesis using assms(1) by (simp add: as_object_def)
  next
    case False
    then obtain v where v: "text_of d v t" using assms(2) by blast
    have rel: "list_all2 (member_text_of (Suc d)) es ps \<Longrightarrow> \<forall>p\<in>set ps. \<exists>v. text_of (Suc d) v (snd p)" for es
      by (induction es ps rule: list_all2_induct) (auto simp: member_text_of_def)
    from as_object_texts [OF v] assms(1) rel show ?thesis by (cases v) auto
  qed
  moreover have "member ps name = '''' \<or> (\<exists>p\<in>set ps. member ps name = snd p)"
  proof (cases "filter (\<lambda>e. fold_name (fst e) = fold_name name) ps")
    case (Cons x xs)
    then have "last (x # xs) \<in> set ps" using last_in_set [of "x # xs"] filter_is_subset [of _ ps] by (metis list.discI subsetD)
    then show ?thesis by (auto simp: member_def Cons)
  qed (simp add: member_def)
  ultimately show ?thesis unfolding raw_value_def by (metis (full_types))
qed

lemma as_array_member:
  assumes "as_array t = Some ts" "t = '''' \<or> (\<exists>v. text_of d v t)" "u \<in> set ts"
  shows "\<exists>v. text_of (Suc d) v u"
proof (cases "t = ''''")
  case True
  then show ?thesis using assms by (simp add: as_array_def)
next
  case False
  then obtain v where v: "text_of d v t" using assms(2) by blast
  have rel: "list_all2 (text_of (Suc d)) vs ts \<Longrightarrow> \<forall>u\<in>set ts. \<exists>v. text_of (Suc d) v u" for vs
    by (induction vs ts rule: list_all2_induct) auto
  from as_array_texts [OF v] assms(1,3) rel show ?thesis by (cases v) auto
qed

lemma map_all_iff: "map_all f xs = Some ys \<longleftrightarrow> list_all2 (\<lambda>x y. f x = Some y) xs ys"
proof (induction xs arbitrary: ys)
  case (Cons x xs)
  show ?case by (cases ys) (auto simp: Cons split: option.split)
qed auto

lemma channel_names_values:
  assumes "channel_names body = Some (i, names)"
  shows "\<exists>vs. list_all2 (raw_value 2) vs names"
proof -
  obtain t es chs objs where t: "unmarshal body = Some t" "as_object t = Some es" "as_array (member es ''Channels'') = Some chs"
    "map_all as_object chs = Some objs" "names = map (\<lambda>ch. member ch ''Name'') objs"
    using assms by (auto simp: channel_names_def split: option.splits Option.bind_splits)
  have "\<exists>v. text_of 0 v t" using unmarshal_texts [OF t(1)] by blast
  then obtain v where "raw_value 1 v (member es ''Channels'')" using as_object_member [OF t(2), of 0] by auto
  then have "\<And>u. u \<in> set chs \<Longrightarrow> \<exists>v. text_of 2 v u"
    using as_array_member [OF t(3) raw_value_or] by (metis Suc_1)
  then have "\<forall>o'\<in>set objs. \<exists>v. raw_value 3 v (member o' ''Name'')"
    using t(4) as_object_member [of _ _ 2] unfolding map_all_iff
    by (fastforce simp: list_all2_conv_all_nth in_set_conv_nth numeral_3_eq_3 numeral_2_eq_2)
  then have "\<forall>n\<in>set names. \<exists>v. raw_value 2 v n" using t(5) raw_value_less [of 3 _ _ 2] by fastforce
  then show ?thesis
  proof (induction names)
    case (Cons n ns)
    then obtain v vs where "raw_value 2 v n" "list_all2 (raw_value 2) vs ns" by auto
    then show ?case by (intro exI [of _ "v # vs"]) simp
  qed simp
qed

text \<open>The members of a config that is an object or null.\<close>

fun settings_of :: "json \<Rightarrow> (string \<times> json) list option" where
  "settings_of JNull = Some []"
| "settings_of (JObject ms) = Some ms"
| "settings_of _ = None"

lemma with_channels_settings:
  assumes "with_channels config names = Some text" "list_all2 (raw_value 2) vs names"
  shows "\<exists>ms. Option.bind (decode_all config) settings_of = Some ms \<and>
     decode_all text = Some (JObject (put_member ''Channels'' (JArray vs) ms))"
proof -
  obtain t ps where t: "unmarshal config = Some t" "as_object t = Some ps"
    and tx: "text = marshal_object (put_member ''Channels'' (marshal_list names) (map (\<lambda>(k, v). (k, marshal_raw v)) (members ps)))"
    using assms(1) by (auto simp: with_channels_def split: option.splits Option.bind_splits)
  obtain v where v: "decode_all config = Some v" "text_of 0 v t" using unmarshal_texts [OF t(1)] by blast
  obtain es where es: "settings_of v = Some (members es)" "list_all2 (member_text_of 1) es ps"
    using as_object_texts [OF v(2)] t(2) by (cases v) (auto simp: members_def)
  have rel: "list_all2 (\<lambda>e p. fst p = fst e \<and> text_of 1 (snd e) (snd p)) (members es) (members ps)"
    by (rule members_rel, rule list_all2_mono [OF es(2)]) (simp add: member_text_of_def)
  have d: "1 < max_depth" "0 < max_depth" by (simp_all add: max_depth_def)
  have "reads_as 1 (JArray vs) (marshal_list names)"
    by (rule marshal_list_reads [OF _ d(1)]) (use assms(2) in \<open>simp add: numeral_2_eq_2\<close>)
  then have put: "list_all2 (\<lambda>e p. fst p = fst e \<and> reads_as 1 (snd e) (snd p))
      (put_member ''Channels'' (JArray vs) (members es))
      (put_member ''Channels'' (marshal_list names) (map (\<lambda>(k, v). (k, marshal_raw v)) (members ps)))" (is "list_all2 _ ?es ?ps")
    by (intro put_member_rel) (use rel in \<open>auto simp: list_all2_map2 case_prod_beta elim!: list_all2_mono intro: text_of_marshal\<close>)
  have keys: "valid_utf8 k" if "k \<in> fst ` set ?es" for k
  proof -
    have "\<forall>e\<in>set es. valid_utf8 (fst e)"
      using es(2) by (induction es ps rule: list_all2_induct) (auto simp: member_text_of_def)
    moreover have "valid_utf8 ''Channels''" by (rule valid_ascii) (simp add: byte_simps)
    ultimately show ?thesis using that by (auto simp: fst_put_member keys_members)
  qed
  have "list_all2 (member_reads 1) ?es ?ps"
    using put keys by (auto simp: list_all2_conv_all_nth member_reads_def)
  from reads_object [OF this [unfolded One_nat_def] d(2)]
  have "reads_as 0 (JObject (members ?es)) text" by (simp add: tx marshal_object_def member_text_def [abs_def])
  moreover have "members ?es = ?es" by (rule members_sorted, rule sorted_put_member, rule sorted_members)
  ultimately show ?thesis using reads_decode_all v(1) es(1) by auto
qed

text \<open>
  What every update of a config in a run is: right after a status answer, for the connection whose
  status it was.
\<close>

definition saves :: "(string \<times> string) list \<Rightarrow> event list \<Rightarrow> sql \<Rightarrow> bool" where
  "saves conns before q \<longleftrightarrow> (\<exists>es i config b res row names vs ms new.
     (i, config) \<in> set conns \<and> before = es @ [(Http b GET (trimSlash (i @ ''/status'')) None, Responded res)] \<and>
     channel_names (Body res) = Some (row, names) \<and> names \<noteq> [] \<and> list_all2 (raw_value 2) vs names \<and>
     Option.bind (decode_all config) settings_of = Some ms \<and> q = UpdateConfigStmt new (perlString row) \<and>
     decode_all new = Some (JObject (put_member ''Channels'' (JArray vs) ms)))"

fun runs_statement :: "action \<Rightarrow> bool" where
  "runs_statement (Exec _) = True"
| "runs_statement (TxExec _) = True"
| "runs_statement _ = False"

definition only_saves :: "(string \<times> string) list \<Rightarrow> event list \<Rightarrow> bool" where
  "only_saves conns es \<longleftrightarrow> (\<forall>before x rep after. es = before @ (x, rep) # after \<longrightarrow> runs_statement x \<longrightarrow>
     (\<exists>q. x = Exec q \<and> saves conns before q))"

lemma snoc_split: "(xs @ [e] = before @ x # after) \<longleftrightarrow> (after = [] \<and> before = xs \<and> x = e) \<or> (\<exists>as. after = as @ [e] \<and> xs = before @ x # as)"
  by (cases after rule: rev_cases) auto

lemma only_saves_snoc:
  "only_saves conns (h @ [(x, rep)]) \<longleftrightarrow> only_saves conns h \<and> (runs_statement x \<longrightarrow> (\<exists>q. x = Exec q \<and> saves conns h q))"
  unfolding only_saves_def snoc_split by fastforce

lemma only_saves_append: "only_saves conns h \<Longrightarrow> \<forall>e\<in>set es. \<not> runs_statement (fst e) \<Longrightarrow> only_saves conns (h @ es)"
proof (induction es rule: rev_induct)
  case (snoc e es)
  then show ?case using only_saves_snoc [of conns "h @ es" "fst e" "snd e"] by simp
qed simp

lemma queries_no_statement: "queries es \<Longrightarrow> \<forall>e\<in>set es. \<not> runs_statement (fst e)"
proof
  fix e assume "queries es" "e \<in> set es"
  then show "\<not> runs_statement (fst e)" by (cases "fst e") (auto simp: queries_def)
qed

lemma wp_Do_saves:
  assumes "only_saves conns h"
    "\<And>h e. only_saves conns h \<Longrightarrow> Q h (Inl e)"
    "\<And>h b x. only_saves conns (h @ [(Http b m (trimSlash path) body, Responded x)]) \<Longrightarrow>
      Q (h @ [(Http b m (trimSlash path) body, Responded x)]) (Inr x)"
  shows "wp (Do (NewRouted hosts LookupLiercd) m path body) Q h"
proof (rule lookup.wp_Do)
  fix es b e x assume es: "queries es"
  then have h: "only_saves conns (h @ es)" using only_saves_append [OF assms(1)] queries_no_statement by blast
  show "Q (h @ es) (Inl e)" by (rule assms(2) [OF h])
  have h2: "only_saves conns ((h @ es) @ [(Http b m (trimSlash path) body, rep)])" for rep
    unfolding only_saves_snoc using h by simp
  show "Q (h @ es @ [(Http b m (trimSlash path) body, Failed e)]) (Inl e)" using assms(2) [OF h2] by simp
  show "Q (h @ es @ [(Http b m (trimSlash path) body, Responded x)]) (Inr x)" using assms(3) [OF h2] by simp
qed

lemma wp_save_all:
  "set cs \<subseteq> set conns \<Longrightarrow> only_saves conns h \<Longrightarrow>
    wp (save_all (NewRouted hosts LookupLiercd) cs) (\<lambda>es _. only_saves conns es) h"
proof (induction cs arbitrary: h)
  case (Cons c cs)
  obtain i config where c: "c = (i, config)" by (cases c) auto
  have IH: "wp (save_all (NewRouted hosts LookupLiercd) cs) (\<lambda>es _. only_saves conns es) h"
    if "only_saves conns h" for h using Cons that by simp
  show ?case unfolding c save_all.simps wp_bind
  proof (rule wp_Do_saves [OF Cons.prems(2)])
    fix h b x assume h: "only_saves conns (h @ [(Http b GET (trimSlash (i @ ''/status'')) None, Responded x)])"
    let ?h = "h @ [(Http b GET (trimSlash (i @ ''/status'')) None, Responded x)]"
    show "wp (case Inr x of Inl _ \<Rightarrow> Ret ()
        | Inr res \<Rightarrow> (case channel_names (Body res) of None \<Rightarrow> Ret ()
          | Some (row, names) \<Rightarrow> if names = [] then Ret ()
              else (case with_channels config names of None \<Rightarrow> Ret ()
                | Some b \<Rightarrow> bind (UpdateConfig (perlString row) b) (\<lambda>_. Ret ()))))
      (\<lambda>h a. wp (save_all (NewRouted hosts LookupLiercd) cs) (\<lambda>es _. only_saves conns es) h) ?h"
    proof (cases "channel_names (Body x)")
      case None
      then show ?thesis using IH [OF h] by simp
    next
      case (Some rn)
      obtain row names where rn: "channel_names (Body x) = Some (row, names)" using Some by (cases rn) auto
      show ?thesis
      proof (cases "names = [] \<or> with_channels config names = None")
        case True
        then show ?thesis using rn IH [OF h] by auto
      next
        case False
        then obtain new where new: "with_channels config names = Some new" and ne: "names \<noteq> []" by blast
        obtain vs where vs: "list_all2 (raw_value 2) vs names" using channel_names_values [OF rn] by blast
        obtain ms where "Option.bind (decode_all config) settings_of = Some ms"
          "decode_all new = Some (JObject (put_member ''Channels'' (JArray vs) ms))"
          using with_channels_settings [OF new vs] by blast
        then have "saves conns ?h (UpdateConfigStmt new (perlString row))"
          unfolding saves_def using rn ne vs Cons.prems(1) c by fastforce
        then have "only_saves conns (?h @ [(Exec (UpdateConfigStmt new (perlString row)), rep)])" for rep
          unfolding only_saves_snoc [of conns ?h] using h by blast
        then show ?thesis using rn ne new IH unfolding UpdateConfig_def by (simp add: wp_simps)
      qed
    qed
  qed (use IH in \<open>simp add: wp_simps\<close>)
qed simp

section \<open>What is replayed\<close>

lemma chunks_parts: "concat (chunks xs) = xs \<and> (\<forall>l\<in>set (chunks xs). l \<noteq> [] \<and> length l \<le> 50) \<and> length (chunks xs) = (length xs + 49) div 50"
proof (induction xs rule: chunks.induct)
  case (1 xs)
  show ?case
  proof (cases "xs = []")
    case False
    have "(length xs - 50 + 49) div 50 + 1 = (length xs + 49) div 50"
    proof (cases "50 \<le> length xs")
      case True
      then have "length xs + 49 = (length xs - 50 + 49) + 50" by simp
      then show ?thesis by (metis div_add_self2 Suc_eq_plus1 zero_neq_numeral)
    next
      case short: False
      then have "1 \<le> length xs" "length xs - 50 = 0" using False by (auto simp: Suc_le_eq)
      moreover have "(length xs + 49) div 50 = 1" using short calculation(1) by (intro div_nat_eqI) simp_all
      ultimately show ?thesis by simp
    qed
    then show ?thesis using 1 [OF False] False by (subst (1 2 3) chunks.simps) simp
  qed (simp add: chunks.simps)
qed

lemma concat_unique:
  "distinct (map k xs) \<Longrightarrow> x \<in> set xs \<Longrightarrow> (\<And>y. y \<in> set xs \<Longrightarrow> k y \<noteq> k x \<Longrightarrow> g y = []) \<Longrightarrow> concat (map g xs) = g x"
proof (induction xs)
  case (Cons y ys)
  show ?case
  proof (cases "x = y")
    case True
    have "concat (map g ys) = []"
      using Cons.prems True by (auto simp: image_iff)
    then show ?thesis using True by simp
  next
    case False
    then have "k y \<noteq> k x" using Cons.prems by auto
    then show ?thesis using Cons False by simp
  qed
qed simp

text \<open>The lines of names for a channel of a connection, and their ends.\<close>

definition names_sent :: "raw \<Rightarrow> raw \<Rightarrow> fake list \<Rightarrow> raw list" where
  "names_sent i ch evs = concat (map (\<lambda>(j, _, command, params).
     if j = i \<and> command = ''353'' \<and> params ! 2 = ch then [params ! 3] else []) evs)"

definition names_ended :: "raw \<Rightarrow> raw \<Rightarrow> fake list \<Rightarrow> nat" where
  "names_ended i ch evs = length (filter (\<lambda>(j, _, command, params). j = i \<and> command = ''366'' \<and> params ! 1 = ch) evs)"

lemma names_append [simp]:
  "names_sent i ch (xs @ ys) = names_sent i ch xs @ names_sent i ch ys" "names_sent i ch [] = []"
  "names_ended i ch (xs @ ys) = names_ended i ch xs + names_ended i ch ys" "names_ended i ch [] = 0"
  by (simp_all add: names_sent_def names_ended_def)

lemma names_concat:
  "names_sent i ch (concat xss) = concat (map (names_sent i ch) xss)"
  "names_ended i ch (concat xss) = sum_list (map (names_ended i ch) xss)"
  by (induction xss) simp_all

definition no_names :: "fake list \<Rightarrow> bool" where
  "no_names evs \<longleftrightarrow> (\<forall>(_, _, command, _)\<in>set evs. command \<noteq> ''353'' \<and> command \<noteq> ''366'')"

lemma no_names: "no_names evs \<Longrightarrow> names_sent i ch evs = [] \<and> names_ended i ch evs = 0"
  by (induction evs) (auto simp: no_names_def names_sent_def names_ended_def)

lemma no_names_simps [simp]:
  "no_names (concat (map push_connect ss))" "no_names (concat (map push_welcome ss))" "no_names (concat (map push_joins ss))"
  "no_names (concat (map push_topics ss))" "no_names (concat (map push_modes ss))"
  by (auto simp: no_names_def push_connect_def push_welcome_def push_joins_def push_topics_def push_modes_def split: if_splits)

definition push_channel_nicks :: "status \<Rightarrow> channel \<Rightarrow> fake list" where
  "push_channel_nicks s ch = (case ch_nicks ch of
       None \<Rightarrow> []
     | Some nicks \<Rightarrow>
         map (\<lambda>ns. (st_id s, liercdPrefix, ''353'', [st_nick s, jsonString ''='', ch_name ch, jsonString (joinStrings ns)])) (chunks nicks) @
         [(st_id s, liercdPrefix, ''366'', [st_nick s, ch_name ch, jsonString ''End of /NAMES list.''])])"

lemma push_nicks_channels: "push_nicks s = concat (map (push_channel_nicks s) (st_channels s))"
  by (simp add: push_nicks_def push_channel_nicks_def [abs_def])

lemma names_channel:
  "names_sent (st_id s) (ch_name ch) (push_channel_nicks s ch) =
     (case ch_nicks ch of None \<Rightarrow> [] | Some nicks \<Rightarrow> map (\<lambda>ns. jsonString (joinStrings ns)) (chunks nicks))"
  "names_ended (st_id s) (ch_name ch) (push_channel_nicks s ch) = (if ch_nicks ch = None then 0 else 1)"
  "i \<noteq> st_id s \<or> c \<noteq> ch_name ch \<Longrightarrow> names_sent i c (push_channel_nicks s ch) = [] \<and> names_ended i c (push_channel_nicks s ch) = 0"
  by (auto simp: names_sent_def names_ended_def push_channel_nicks_def comp_def filter_empty_conv split: option.split)

lemma sum_unique:
  "distinct (map k xs) \<Longrightarrow> x \<in> set xs \<Longrightarrow> (\<And>y. y \<in> set xs \<Longrightarrow> k y \<noteq> k x \<Longrightarrow> g y = 0) \<Longrightarrow> sum_list (map g xs) = (g x :: nat)"
proof (induction xs)
  case (Cons y ys)
  show ?case
  proof (cases "x = y")
    case True
    have "sum_list (map g ys) = 0"
      using Cons.prems True by (auto simp: image_iff)
    then show ?thesis using True by simp
  next
    case False
    then have "k y \<noteq> k x" using Cons.prems by auto
    then show ?thesis using Cons False by simp
  qed
qed simp

lemma names_status:
  assumes "distinct (map ch_name (st_channels s))" "ch \<in> set (st_channels s)" "ch_nicks ch = Some nicks"
  shows "names_sent (st_id s) (ch_name ch) (push_nicks s) = map (\<lambda>ns. jsonString (joinStrings ns)) (chunks nicks)"
    "names_ended (st_id s) (ch_name ch) (push_nicks s) = 1"
proof -
  have "concat (map (\<lambda>x. names_sent (st_id s) (ch_name ch) (push_channel_nicks s x)) (st_channels s)) =
      names_sent (st_id s) (ch_name ch) (push_channel_nicks s ch)"
    by (rule concat_unique [OF assms(1,2)]) (use names_channel(3) in metis)
  then show "names_sent (st_id s) (ch_name ch) (push_nicks s) = map (\<lambda>ns. jsonString (joinStrings ns)) (chunks nicks)"
    by (simp add: push_nicks_channels names_concat names_channel assms(3) comp_def)
  have "sum_list (map (\<lambda>x. names_ended (st_id s) (ch_name ch) (push_channel_nicks s x)) (st_channels s)) =
      names_ended (st_id s) (ch_name ch) (push_channel_nicks s ch)"
    by (rule sum_unique [OF assms(1,2)]) (use names_channel(3) in metis)
  then show "names_ended (st_id s) (ch_name ch) (push_nicks s) = 1"
    by (simp add: push_nicks_channels names_concat names_channel assms(3) comp_def)
qed

lemma names_other: "i \<noteq> st_id s \<Longrightarrow> names_sent i c (push_nicks s) = [] \<and> names_ended i c (push_nicks s) = 0"
  by (induction "st_channels s") (simp_all add: push_nicks_channels names_concat names_channel(3))

text \<open>One status per connection, from an answer with status 200.\<close>

definition status_answered :: "event list \<Rightarrow> string \<Rightarrow> status \<Rightarrow> bool" where
  "status_answered es i s \<longleftrightarrow> (\<exists>b res. (Http b GET (trimSlash (i @ ''/status'')) None, Responded res) \<in> set es \<and>
     Status res = 200 \<and> decode_status (Body res) = Some s)"

lemma fetched:
  assumes "runs (FindOrRecreate (NewRouted hosts LookupLiercd) i) es (Inr body)" "decode_status body = Some s"
  shows "status_answered es i s"
proof -
  have r: "recreate_result_ok i es (Inr body)" using wp_runs [OF lookup.recreate_result assms(1)] .
  have "es \<noteq> []"
  proof
    assume "es = []"
    then show False using assms(1)
      by (auto simp: FindOrRecreate_def LookupConfig_def runs_attempt runs_bind runs_query_row)
  qed
  then have "last es \<in> set es" by simp
  with r assms(2) show ?thesis
    unfolding recreate_result_ok_def status_answered_def
    by (auto split: prod.splits action.splits meth.splits option.splits reply.splits)
qed

lemma fetch_all_statuses:
  "runs (fetch_all (NewRouted hosts LookupLiercd) is) es got \<Longrightarrow> map_all (\<lambda>x. x) got = Some ss \<Longrightarrow>
    list_all2 (status_answered es) is ss"
proof (induction "is" arbitrary: es got ss)
  case (Cons i "is")
  obtain es1 r es2 rest where es: "es = es1 @ es2" "runs (FindOrRecreate (NewRouted hosts LookupLiercd) i) es1 r"
    "runs (fetch_all (NewRouted hosts LookupLiercd) is) es2 rest"
    "got = (case r of Inl _ \<Rightarrow> None | Inr body \<Rightarrow> decode_status body) # rest"
    using Cons.prems(1) by (auto simp: runs_bind)
  obtain body s ss' where s: "r = Inr body" "decode_status body = Some s" "map_all (\<lambda>x. x) rest = Some ss'" "ss = s # ss'"
    using Cons.prems(2) es(4) by (auto split: sum.splits option.splits)
  have "status_answered es1 i s" by (rule fetched [OF es(2) [unfolded s(1)] s(2)])
  then have "status_answered es i s" unfolding status_answered_def es(1) by auto
  moreover have "list_all2 (status_answered es) is ss'"
    by (rule list_all2_mono [OF Cons.IH [OF es(3) s(3)]]) (auto simp: status_answered_def es(1))
  ultimately show ?case using s(4) by simp
qed simp

lemma names_replay:
  "names_sent i c (replay_events ss) = concat (map (\<lambda>s. names_sent i c (push_nicks s)) (filter (\<lambda>s. perlTrue (st_registered s)) ss))"
  "names_ended i c (replay_events ss) = sum_list (map (\<lambda>s. names_ended i c (push_nicks s)) (filter (\<lambda>s. perlTrue (st_registered s)) ss))"
  by (simp_all add: replay_events_def Let_def no_names [OF no_names_simps(1)] no_names [OF no_names_simps(2)]
      no_names [OF no_names_simps(3)] no_names [OF no_names_simps(4)] no_names [OF no_names_simps(5)])
    (simp_all add: names_concat comp_def)

section \<open>Properties\<close>

text \<open>
  C29. A replay is all or nothing. If it sends anything, then every connection of the user had its
  status answered with 200 and that answer decoded, and what is sent is the events of all of them;
  each connection is announced by exactly one CREATE, in the order of the connections, before any
  other event but CREATE and CONNECT.
\<close>

theorem replay_all_or_nothing:
  assumes "runs (replay (NewRouted hosts LookupLiercd) clock_at conns) es evs" "evs \<noteq> []"
  shows "\<exists>statuses. list_all2 (status_answered es) (map fst conns) statuses \<and>
    evs = map (\<lambda>(n, e). ircEvent (clock_at n) e) (enumerate 0 (replay_events statuses)) \<and>
    map fst (filter (\<lambda>(_, _, command, _). command = ''CREATE'') (replay_events statuses)) = map st_id statuses \<and>
    (\<exists>first rest. replay_events statuses = first @ rest \<and> (\<forall>(_, _, command, _)\<in>set first. command \<in> {''CREATE'', ''CONNECT''}) \<and>
       (\<forall>(_, _, command, _)\<in>set rest. command \<notin> {''CREATE'', ''CONNECT''}))"
proof -
  obtain got where got: "runs (fetch_all (NewRouted hosts LookupLiercd) (map fst conns)) es got"
    "evs = (case map_all (\<lambda>x. x) got of None \<Rightarrow> []
      | Some statuses \<Rightarrow> map (\<lambda>(i, e). ircEvent (clock_at i) e) (enumerate 0 (replay_events statuses)))"
    using assms(1) by (auto simp: replay_def runs_bind)
  then obtain ss where ss: "map_all (\<lambda>x. x) got = Some ss"
    "evs = map (\<lambda>(i, e). ircEvent (clock_at i) e) (enumerate 0 (replay_events ss))"
    using assms(2) by (auto split: option.splits)
  define rest where "rest = (let registered = filter (\<lambda>s. perlTrue (st_registered s)) ss in
      concat (map push_welcome registered) @ concat (map push_joins registered) @
      concat (map push_topics registered) @ concat (map push_nicks registered) @ concat (map push_modes registered))"
  have split: "replay_events ss = concat (map push_connect ss) @ rest" by (simp add: replay_events_def rest_def Let_def)
  have first: "\<forall>(_, _, command, _)\<in>set (concat (map push_connect ss)). command \<in> {''CREATE'', ''CONNECT''}"
    by (auto simp: push_connect_def)
  have later: "\<forall>(_, _, command, _)\<in>set rest. command \<notin> {''CREATE'', ''CONNECT''}"
    by (auto simp: rest_def Let_def push_welcome_def push_joins_def push_topics_def push_nicks_def push_modes_def
        split: if_splits option.splits)
  have "map fst (filter (\<lambda>(_, _, command, _). command = ''CREATE'') (concat (map push_connect ss))) = map st_id ss"
    by (induction ss) (auto simp: push_connect_def)
  moreover have "filter (\<lambda>(_, _, command, _). command = ''CREATE'') rest = []"
    using later by (fastforce simp: filter_empty_conv)
  ultimately have "map fst (filter (\<lambda>(_, _, command, _). command = ''CREATE'') (replay_events ss)) = map st_id ss"
    unfolding split by simp
  then show ?thesis using fetch_all_statuses [OF got(1) ss(1)] ss(2) split first later by blast
qed

text \<open>
  C30. The names a client gets for a channel are the channel's names: for a registered connection
  and a channel of it with names, its 353 lines carry, in order, all of them and nothing else, each
  line 1 to 50, in as few lines as that takes, and exactly one 366 ends them, also when there are no
  names.
\<close>

theorem replay_names:
  assumes "distinct (map st_id statuses)" "s \<in> set statuses" "perlTrue (st_registered s)"
    and "distinct (map ch_name (st_channels s))" "ch \<in> set (st_channels s)" "ch_nicks ch = Some nicks"
  shows "\<exists>ls. names_sent (st_id s) (ch_name ch) (replay_events statuses) = map (\<lambda>ns. jsonString (joinStrings ns)) ls \<and>
    concat ls = nicks \<and> (\<forall>l\<in>set ls. 1 \<le> length l \<and> length l \<le> 50) \<and> length ls = (length nicks + 49) div 50 \<and>
    names_ended (st_id s) (ch_name ch) (replay_events statuses) = 1"
proof -
  let ?reg = "filter (\<lambda>s. perlTrue (st_registered s)) statuses"
  have d: "distinct (map st_id ?reg)" "s \<in> set ?reg" using assms(1-3) by (auto simp: distinct_map_filter)
  have "concat (map (\<lambda>x. names_sent (st_id s) (ch_name ch) (push_nicks x)) ?reg) = names_sent (st_id s) (ch_name ch) (push_nicks s)"
    by (rule concat_unique [OF d]) (use names_other in metis)
  moreover have "sum_list (map (\<lambda>x. names_ended (st_id s) (ch_name ch) (push_nicks x)) ?reg) = names_ended (st_id s) (ch_name ch) (push_nicks s)"
    by (rule sum_unique [OF d]) (use names_other in metis)
  ultimately have "names_sent (st_id s) (ch_name ch) (replay_events statuses) = map (\<lambda>ns. jsonString (joinStrings ns)) (chunks nicks)"
    "names_ended (st_id s) (ch_name ch) (replay_events statuses) = 1"
    using names_status [OF assms(4-6)] by (simp_all add: names_replay)
  then show ?thesis using chunks_parts [of nicks] by (intro exI [of _ "chunks nicks"]) (auto simp: Suc_le_eq)
qed

definition busy_status :: status where
  "busy_status = \<lparr>st_id = jsonString ''c'', st_nick = jsonString ''bob'', st_alias = '''', st_host = jsonString ''irc'',
     st_connected = ''true'', st_registered = ''true'', st_isupport = [], st_caps = [],
     st_channels = [\<lparr>ch_name = jsonString ''#a'', ch_mode = '''', ch_topic = '''', ch_topic_user = '''', ch_topic_time = '''',
       ch_nicks = Some (replicate 60 (jsonString ''al''))\<rparr>]\<rparr>"

lemma replay_names_witness:
  "\<exists>ls. names_sent (st_id busy_status) (jsonString ''#a'') (replay_events [busy_status]) = map (\<lambda>ns. jsonString (joinStrings ns)) ls \<and>
     concat ls = replicate 60 (jsonString ''al'') \<and> length ls = 2"
proof -
  have "perlTrue (st_registered busy_status)"
    by (simp add: busy_status_def perlTrue_def ParseFloat_def unsigned_number_def is_digit_def byte_simps dquote_def)
  then show ?thesis
    using replay_names [of "[busy_status]" busy_status "hd (st_channels busy_status)" "replicate 60 (jsonString ''al'')"]
    by (simp add: busy_status_def) blast
qed

lemma fold_ascii: "\<forall>c\<in>set s. byte c < 128 \<Longrightarrow> fold_name s = map (\<lambda>c. fold_rune (byte c)) s"
  by (simp add: fold_name_def runes_ascii)

lemma member_one: "member [(k, v)] n = (if fold_name k = fold_name n then v else '''')"
  by (simp add: member_def)

text \<open>A connection that runs and reports nothing but its id.\<close>

definition plain_status :: json where
  "plain_status = JObject [(''Id'', JString ''c1'')]"

lemma printable_plain: "printable plain_status"
  by (auto simp: printable_def plain_status_def max_depth_def byte_simps intro!: valid_ascii)

lemma decode_plain_status:
  "decode_status (print_json plain_status) = Some \<lparr>st_id = print_string ''c1'', st_nick = '''', st_alias = '''', st_host = '''',
     st_connected = '''', st_registered = '''', st_isupport = [], st_caps = [], st_channels = []\<rparr>"
proof -
  have "as_object (print_json plain_status) = Some [(''Id'', print_string ''c1'')]"
    unfolding plain_status_def by (subst as_object_print) (auto simp: printable_def max_depth_def byte_simps intro!: valid_ascii)
  moreover have "\<forall>n\<in>set [''Nick'', ''Config'', ''Status'', ''Isupport'', ''CapsAcked'', ''Channels'', ''Registered'']. fold_name ''Id'' \<noteq> fold_name n"
    by (simp add: fold_ascii byte_simps fold_rune_def)
  moreover have "as_object '''' = Some []" "as_array '''' = Some []" "member [] n = ''''" for n
    by (simp_all add: as_object_def as_array_def member_def)
  ultimately show ?thesis
    by (simp add: decode_status_def unmarshal_print [OF printable_plain] member_one)
qed

lemma replay_all_or_nothing_witness:
  "\<exists>es statuses. runs (replay (NewRouted two_hosts LookupLiercd) (\<lambda>_. ''1'') [(''c1'', ''{}'')]) es
       [ircEvent ''1'' (jsonString ''c1'', liercdPrefix, ''CREATE'', ['''', ''''])] \<and>
     list_all2 (status_answered es) [''c1''] statuses"
proof -
  let ?x = "\<lparr>Status = 200, Body = print_json plain_status\<rparr>"
  let ?es = "[(Query (SelectConfig ''c1''), Rows [[Text ''{}'']]), (Query (SelectLiercd ''c1''), Rows [[Null]]),
     (Http ''http://liercd:5005'' GET ''c1/status'' None, Responded ?x)]"
  have e: "exec scripted (FindOrRecreate (NewRouted two_hosts LookupLiercd) ''c1'') [Rows [[Text ''{}'']], Rows [[Null]], Responded r] =
      ([(Query (SelectConfig ''c1''), Rows [[Text ''{}'']]), (Query (SelectLiercd ''c1''), Rows [[Null]]),
        (Http ''http://liercd:5005'' GET ''c1/status'' None, Responded r)], Inr (Body r), [])" if "Status r = 200" for r
    using that
    by (simp add: FindOrRecreate_def LookupConfig_def LookupLiercd_def query_row_def query_def attempt_def Do_def base_def cut_def
        http_def two_hosts_def exec_bind baseURL_def SplitHostPort_def last_colon_def del: Do_pinned)
  have "runs (FindOrRecreate (NewRouted two_hosts LookupLiercd) ''c1'') ?es (Inr (print_json plain_status))"
    using scripted.exec_runs [OF e [of ?x]] by simp
  then have "runs (fetch_all (NewRouted two_hosts LookupLiercd) [''c1'']) ?es [decode_status (print_json plain_status)]"
    by (auto simp: runs_bind)
  moreover have "perlTrue '''' = False" by (simp add: perlTrue_def)
  ultimately have run: "runs (replay (NewRouted two_hosts LookupLiercd) (\<lambda>_. ''1'') [(''c1'', ''{}'')]) ?es
      [ircEvent ''1'' (jsonString ''c1'', liercdPrefix, ''CREATE'', ['''', ''''])]"
    unfolding replay_def runs_bind
    by (intro exI [of _ ?es] exI [of _ "[decode_status (print_json plain_status)]"] exI [of _ "[]"])
      (simp add: decode_plain_status replay_events_def push_connect_def jsonString_def)
  then show ?thesis using replay_all_or_nothing [OF run] by auto
qed

text \<open>
  C31. Saving the channel lists keeps every other setting. In every run, whatever is answered, the
  statements a save performs are updates of configs, each right after liercd answered a status
  request for a connection that was listed for the user; the new config is the one that was listed
  with its \<^verbatim>\<open>Channels\<close> set to the names liercd reported, of which there is at least one, and
  every other member with the value it had.
\<close>

theorem saveChannels_keeps_settings:
  assumes "runs (saveChannels (NewRouted hosts LookupLiercd) user) es ()"
  shows "\<exists>rep rest. es = (Query (SelectConnections user), rep) # rest \<and>
    (\<forall>before x rep' after. rest = before @ (x, rep') # after \<longrightarrow> runs_statement x \<longrightarrow>
      (\<exists>rows conns q. rep = Rows rows \<and> scan_rows (scan2 scan_string scan_bytes) rows = Inr conns \<and> x = Exec q \<and> saves conns before q))"
proof -
  obtain es1 r es2 where es: "es = es1 @ es2" "runs (Connections user) es1 r"
    "runs (case r of Inl _ \<Rightarrow> Ret () | Inr conns \<Rightarrow> save_all (NewRouted hosts LookupLiercd) conns) es2 ()"
    using assms unfolding saveChannels_def runs_bind by blast
  from es(2) consider e where "es1 = [(Query (SelectConnections user), Failed e)]" "r = Inl e"
    | rows where "es1 = [(Query (SelectConnections user), Rows rows)]" "r = scan_rows (scan2 scan_string scan_bytes) rows"
    by (auto simp: Connections_def query_all_def runs_attempt runs_query)
  then show ?thesis
  proof cases
    case 1
    then show ?thesis using es by auto
  next
    case 2
    show ?thesis
    proof (cases r)
      case (Inl e)
      then show ?thesis using es 2 by auto
    next
      case (Inr conns)
      have "only_saves conns []" by (simp add: only_saves_def)
      then have "only_saves conns es2"
        using wp_runs [OF wp_save_all [OF subset_refl]] es(3) Inr by simp
      then have step: "\<exists>q. x = Exec q \<and> saves conns before q" if "es2 = before @ (x, rep') # after" "runs_statement x" for before x rep' after
        using that unfolding only_saves_def by blast
      have scan: "scan_rows (scan2 scan_string scan_bytes) rows = Inr conns" using 2 Inr by simp
      show ?thesis
      proof (intro exI [of _ "Rows rows"] exI [of _ es2] conjI allI impI)
        show "es = (Query (SelectConnections user), Rows rows) # es2" using es(1) 2 by simp
        fix before x rep' after assume "es2 = before @ (x, rep') # after" "runs_statement x"
        then obtain q where "x = Exec q \<and> saves conns before q" using step by blast
        then show "\<exists>rows' conns q. Rows rows = Rows rows' \<and> scan_rows (scan2 scan_string scan_bytes) rows' = Inr conns \<and>
            x = Exec q \<and> saves conns before q"
          using scan by (intro exI [of _ rows] exI [of _ conns] exI [of _ q]) simp
      qed
    qed
  qed
qed

lemma saveChannels_keeps_settings_witness:
  "\<exists>es new vs. runs (saveChannels (NewRouted two_hosts LookupLiercd) ''bob'') es () \<and>
     (Exec (UpdateConfigStmt new ''c1''), Affected 1) \<in> set es \<and>
     decode_all new = Some (JObject [(''Channels'', JArray vs), (''Host'', JString ''irc'')])"
proof -
  let ?ms = "[(''Channels'', JArray [JString ''#a'']), (''Host'', JString ''irc'')]"
  let ?config = "print_json (JObject ?ms)"
  let ?st = "JObject [(''Channels'', JArray [JObject [(''Name'', JString ''#b'')]]), (''Id'', JString ''c1'')]"
  let ?res = "\<lparr>Status = 200, Body = print_json ?st\<rparr>"
  have ok: "printable (JObject ?ms)" "printable ?st" "printable (JArray [JObject [(''Name'', JString ''#b'')]])"
    "printable (JString ''c1'')" "printable (JString ''#b'')" "printable (JObject [(''Name'', JString ''#b'')])"
    by (simp_all add: printable_def max_depth_def byte_simps valid_ascii less_char_def)
  have v: "valid_utf8 ''Channels''" "valid_utf8 ''Id''" "valid_utf8 ''Name''"
    by (simp_all add: byte_simps valid_ascii)
  have obj: "as_object (print_json ?st) = Some [(''Channels'', print_json (JArray [JObject [(''Name'', JString ''#b'')]])), (''Id'', print_string ''c1'')]"
    "as_object (print_json (JObject [(''Name'', JString ''#b'')])) = Some [(''Name'', print_string ''#b'')]"
    using as_object_print [of "[(''Channels'', JArray [JObject [(''Name'', JString ''#b'')]]), (''Id'', JString ''c1'')]"]
      as_object_print [of "[(''Name'', JString ''#b'')]"] ok v by (simp_all del: print_json.simps(5,6))
  have arr: "as_array (print_json (JArray [JObject [(''Name'', JString ''#b'')]])) = Some [print_json (JObject [(''Name'', JString ''#b'')])]"
    using as_array_print [of "[JObject [(''Name'', JString ''#b'')]]"] ok by (simp del: print_json.simps(5,6))
  have fold: "fold_name ''Channels'' \<noteq> fold_name ''Id''" by (simp add: fold_ascii byte_simps fold_rune_def)
  have names: "channel_names (print_json ?st) = Some (print_string ''c1'', [print_string ''#b''])"
    using fold by (simp add: channel_names_def unmarshal_print [OF ok(2)] obj arr member_def del: print_json.simps(5,6))
  have q: "print_string s = Json.quote_char # concat (map escape_rune (scan_runes s)) @ [Json.quote_char]" for s by (simp add: print_string_def)
  have "decode_all (print_string ''c1'') = Some (JString ''c1'')"
    using decode_all_print [of "JString ''c1''"] ok(4) by (simp add: printable_def)
  then have row: "perlString (print_string ''c1'') = ''c1''"
    by (simp add: perlString_def q Json.quote_char_def)
  have dec: "decode_all ?config = Some (JObject ?ms)" using ok(1) by (intro decode_all_print) (simp_all add: printable_def)
  obtain ps where ps: "as_object ?config = Some ps" "unmarshal ?config = Some ?config"
    using as_object_texts [of 0 "JObject ?ms"] unmarshal_texts [of ?config] dec unmarshal_print [OF ok(1)] by auto
  obtain new where new: "with_channels ?config [print_string ''#b''] = Some new"
    by (simp only: with_channels_def ps Option.bind.simps option.case)
  let ?es = "[(Query (SelectConnections ''bob''), Rows [[Text ''c1'', Text ?config]]), (Query (SelectLiercd ''c1''), Rows [[Null]]),
    (Http ''http://liercd:5005'' GET ''c1/status'' None, Responded ?res), (Exec (UpdateConfigStmt new ''c1''), Affected 1)]"
  have serve: "exec scripted (saveChannels (NewRouted two_hosts LookupLiercd) ''bob'')
      [Rows [[Text ''c1'', Text c]], Rows [[Null]], Responded r, Affected 1] =
      ([(Query (SelectConnections ''bob''), Rows [[Text ''c1'', Text c]]), (Query (SelectLiercd ''c1''), Rows [[Null]]),
        (Http ''http://liercd:5005'' GET ''c1/status'' None, Responded r), (Exec (UpdateConfigStmt n ''c1''), Affected 1)], (), [])"
    if "channel_names (Body r) = Some (i, names)" "names \<noteq> []" "perlString i = ''c1''" "with_channels c names = Some n" for c r i names n
    using that
    by (simp add: saveChannels_def Connections_def query_all_def UpdateConfig_def LookupLiercd_def query_row_def query_def attempt_def
        Do_def base_def cut_def http_def two_hosts_def exec_bind baseURL_def SplitHostPort_def last_colon_def exec_sql_def del: Do_pinned)
  have run: "runs (saveChannels (NewRouted two_hosts LookupLiercd) ''bob'') ?es ()"
    by (rule scripted.exec_runs [OF serve [of ?res "print_string ''c1''" "[print_string ''#b'']" ?config new]])
      (use names row new in \<open>simp_all del: print_json.simps(5,6)\<close>)
  let ?before = "[(Query (SelectLiercd ''c1''), Rows [[Null]]), (Http ''http://liercd:5005'' GET ''c1/status'' None, Responded ?res)]"
  obtain rep rest where s: "?es = (Query (SelectConnections ''bob''), rep) # rest"
    "\<And>before x rep' after. rest = before @ (x, rep') # after \<Longrightarrow> runs_statement x \<Longrightarrow>
      (\<exists>rows conns q. rep = Rows rows \<and> scan_rows (scan2 scan_string scan_bytes) rows = Inr conns \<and> x = Exec q \<and> saves conns before q)"
    using saveChannels_keeps_settings [OF run] by blast
  have r: "rest = ?before @ (Exec (UpdateConfigStmt new ''c1''), Affected 1) # []" "rep = Rows [[Text ''c1'', Text ?config]]"
    using s(1) by simp_all
  from s(2) [OF r(1) runs_statement.simps(1) [THEN iffD2, OF TrueI], unfolded r(2)] obtain rows conns q where
    c: "scan_rows (scan2 scan_string scan_bytes) rows = Inr conns" "Rows [[Text ''c1'', Text ?config]] = Rows rows"
      "Exec (UpdateConfigStmt new ''c1'') = Exec q" "saves conns ?before q"
    by blast
  then have "conns = [(''c1'', ?config)]" by auto
  with c(3,4) obtain ms vs where "Option.bind (decode_all ?config) settings_of = Some ms"
    "decode_all new = Some (JObject (put_member ''Channels'' (JArray vs) ms))"
    unfolding saves_def by auto
  then have "decode_all new = Some (JObject [(''Channels'', JArray vs), (''Host'', JString ''irc'')])"
    by (auto simp: dec less_char_def byte_simps simp del: print_json.simps(5,6))
  then show ?thesis using run by (intro exI [of _ ?es] exI [of _ new] exI [of _ vs]) simp
qed

text \<open>
  C32. Editing a config as text refines editing it as a value: whatever the config's text, replacing
  its \<^verbatim>\<open>Channels\<close> member among raw values and decoding the result is the same as decoding the
  config and setting the member of the object, and one fails exactly when the other does.
\<close>

theorem with_channels_refines:
  assumes "list_all2 (raw_value 2) vs names"
  shows "Option.bind (with_channels config names) decode_all =
    map_option (\<lambda>ms. JObject (put_member ''Channels'' (JArray vs) ms)) (Option.bind (decode_all config) settings_of)"
proof (cases "with_channels config names")
  case (Some new)
  then show ?thesis using with_channels_settings [OF Some assms] by auto
next
  case None
  have "Option.bind (decode_all config) settings_of = None"
  proof (cases "unmarshal config")
    case None
    then show ?thesis by (simp add: unmarshal_iff)
  next
    case (Some t)
    obtain v where v: "decode_all config = Some v" "text_of 0 v t" using unmarshal_texts [OF Some] by blast
    have "as_object t = None" using None Some by (auto simp: with_channels_def split: option.splits)
    then show ?thesis using as_object_texts [OF v(2)] v(1) by (cases v) auto
  qed
  then show ?thesis using None by simp
qed

lemma with_channels_refines_witness:
  "Option.bind (with_channels (print_json (JObject [(''Host'', JString ''irc'')])) ['''']) decode_all =
     Some (JObject [(''Channels'', JArray [JNull]), (''Host'', JString ''irc'')])"
proof -
  have "decode_all (print_json (JObject [(''Host'', JString ''irc'')])) = Some (JObject [(''Host'', JString ''irc'')])"
    by (rule decode_all_print) (simp_all add: max_depth_def byte_simps valid_ascii)
  moreover have "list_all2 (raw_value 2) [JNull] ['''']" by (simp add: raw_value_def)
  ultimately show ?thesis using with_channels_refines [of "[JNull]" "['''']" "print_json (JObject [(''Host'', JString ''irc'')])"]
    by (simp add: less_char_def byte_simps del: print_json.simps)
qed

end
