(* ===== verification/Http.thy ===== *)
theory Http
  imports Replay Session
begin

text \<open>
  The HTTP side of the stream server (\<^verbatim>\<open>server.go\<close>, \<^verbatim>\<open>stats.go\<close> and the ends of \<^verbatim>\<open>serveStream\<close> in
  \<^verbatim>\<open>writer.go\<close>): who a request is from, where it goes, and what is answered. A handler first asks the
  database (a program, \<open>serve_http\<close>) and then acts on the registry under its lock (\<open>respond\<close>); an
  event stream then goes through the steps of \<^theory_text>\<open>Registry\<close> and ends with \<open>close_work\<close>. The property
  says that a request reaches a stream or a ping only as the user its cookie proves it is from.
\<close>

section \<open>Requests and answers\<close>

text \<open>
  Of a request: its method, path, first \<^verbatim>\<open>chats\<close> cookie, first \<^verbatim>\<open>Lierc-Key\<close> header and first \<^verbatim>\<open>user\<close>
  of its query (empty for none).
\<close>

record request =
  rq_method :: string
  rq_path :: string
  rq_cookie :: "string option"
  rq_key :: "string option"
  rq_user :: string

record answer =
  code :: nat
  headers :: "(string \<times> string) list"
  content :: string

definition writeJSON :: "nat \<Rightarrow> json \<Rightarrow> answer" where
  "writeJSON c v = (let b = print_json v in
     \<lparr>code = c, headers = [(''Content-Type'', ''application/javascript;charset=utf-8''), (''Content-Length'', show_nat (length b))],
      content = b\<rparr>)"

definition writeError :: "nat \<Rightarrow> string \<Rightarrow> answer" where
  "writeError c msg = writeJSON c (JObject [(''status'', JString ''error''), (''error'', JString msg)])"

definition unverifiedBody :: json where
  "unverifiedBody = JObject [(''status'', JString ''error''), (''error'', JString ''Confirm your email address first''),
     (''unverified'', JBool True)]"

text \<open>\<^verbatim>\<open>http.Error\<close>.\<close>

definition http_error :: "nat \<Rightarrow> string \<Rightarrow> answer" where
  "http_error c text = \<lparr>code = c,
     headers = [(''Content-Type'', ''text/plain; charset=utf-8''), (''X-Content-Type-Options'', ''nosniff'')],
     content = text @ [CHR 0x0A]\<rparr>"

section \<open>The handler\<close>

text \<open>The id in a wake ping's path: slashes, an id without a slash, and \<^verbatim>\<open>/ping\<close>.\<close>

definition pingPath :: "string \<Rightarrow> string option" where
  "pingPath path = (let t = dropWhile (\<lambda>c. c = CHR ''/'') path; i = takeWhile (\<lambda>c. c \<noteq> CHR ''/'') t in
     if path \<noteq> '''' \<and> hd path = CHR ''/'' \<and> i \<noteq> '''' \<and> dropWhile (\<lambda>c. c \<noteq> CHR ''/'') t = ''/ping'' then Some i else None)"

text \<open>\<^verbatim>\<open>user\<close>: the error response, or the user.\<close>

definition user :: "string \<Rightarrow> request \<Rightarrow> (answer + string) prog" where
  "user secret rq = (let u = cookie_user (rq_cookie rq) secret in
     bind (if u \<noteq> '''' then UserState u else return (False, False)) (\<lambda>r. case r of
       Inl _ \<Rightarrow> Ret (Inl (http_error 500 ''Internal Server Error''))
     | Inr (ok, unverified) \<Rightarrow>
         if \<not> ok then Ret (Inl (writeError 401 ''unauthorized''))
         else if unverified then Ret (Inl (writeJSON 403 unverifiedBody))
         else Ret (Inr u)))"

text \<open>What a request comes to: an answer, the stats, a ping of a user's stream, or a stream.\<close>

datatype served = Answered answer | StatsOf string | PingOf string string | StreamOf string "(string \<times> string) list"

definition serveStats :: "string \<Rightarrow> request \<Rightarrow> served" where
  "serveStats key rq = (if rq_key rq = Some key then StatsOf (rq_user rq) else Answered (writeError 400 ''Invalid key''))"

definition serve_user :: "request \<Rightarrow> string \<Rightarrow> served prog" where
  "serve_user rq u =
     (if pingPath (rq_path rq) \<noteq> None \<and> rq_method rq = ''POST'' then Ret (PingOf u (the (pingPath (rq_path rq))))
      else bind (Connections u) (\<lambda>r. case r of
        Inl _ \<Rightarrow> Ret (Answered (http_error 500 ''Internal Server Error''))
      | Inr conns \<Rightarrow> Ret (StreamOf u conns)))"

definition serve_http :: "string \<Rightarrow> string \<Rightarrow> request \<Rightarrow> served prog" where
  "serve_http secret key rq =
     (if rq_path rq = ''/stats'' then Ret (serveStats key rq)
      else bind (user secret rq) (\<lambda>r. case r of Inl a \<Rightarrow> Ret (Answered a) | Inr u \<Rightarrow> serve_user rq u))"

text \<open>\<^verbatim>\<open>stats\<close> as JSON; Go's map is written with its keys in order.\<close>

definition json_int :: "int \<Rightarrow> json" where
  "json_int n = JNumber (show_int n)"

definition stats_json :: "string \<Rightarrow> server \<Rightarrow> json" where
  "stats_json u s =
     (if u \<noteq> '''' \<and> u \<noteq> ''0'' then
        JArray (map (\<lambda>(rem, ag, cr). JObject [(''remote'', JString rem), (''agent'', case ag of None \<Rightarrow> JNull | Some a \<Rightarrow> JString a),
          (''created'', json_int cr)]) (stats_user s u))
      else JObject (members (map (\<lambda>(u, n). (u, json_int (int n))) (stats_counts s))))"

text \<open>Under the lock: the answer of what is no stream, and the registry after it.\<close>

fun respond :: "string \<Rightarrow> served \<Rightarrow> server \<Rightarrow> answer \<times> server" where
  "respond time (Answered a) s = (a, s)"
| "respond time (StatsOf u) s = (writeJSON 200 (stats_json u s), s)"
| "respond time (PingOf u i) s = (case servePing time u i s of (found, s') \<Rightarrow>
     (if found then \<lparr>code = 204, headers = [], content = ''''\<rparr> else writeError 404 ''unknown stream'', s'))"
| "respond time (StreamOf u conns) s =
     (\<lparr>code = 200, headers = [(''Content-Type'', ''text/event-stream;charset=utf-8'')], content = ''''\<rparr>, s)"

text \<open>The remote address of a new stream: without its port, if it has one.\<close>

definition remote_of :: "string \<Rightarrow> string" where
  "remote_of addr = (case SplitHostPort addr of Some (h, _) \<Rightarrow> h | None \<Rightarrow> addr)"

text \<open>The close work of a stream, after it was stopped and deregistered.\<close>

definition close_work :: "client \<Rightarrow> string \<Rightarrow> unit prog" where
  "close_work lc u = bind (saveChannels lc u) (\<lambda>_. bind (SaveLastLogin u) (\<lambda>_. Ret ()))"

section \<open>Properties\<close>

lemma runs_UserState:
  assumes "runs (UserState u) es (Inr (True, False))"
  shows "\<exists>rows. es = [(Query (SelectUserState u), Rows ([Bool False] # rows))]"
proof -
  obtain a where a: "runs (query_row (SelectUserState u) (scan1 scan_bool)) es a"
    and r: "Inr (True, False) = (case a of Inl e \<Rightarrow> if e = ErrNoRows then Inr (False, False) else Inl e | Inr b \<Rightarrow> Inr (True, b))"
    using assms unfolding UserState_def
    by (rule runs_bind_Ret [THEN exE, rotated]) (auto split: sum.splits if_splits)
  then have "a = Inr False" by (auto split: sum.splits if_splits)
  moreover have "row = [Bool False]" if "scan1 scan_bool row = Inr False" for row
    using that by (cases row; cases "tl row"; cases "hd row") auto
  ultimately show ?thesis using a by (auto simp: runs_query_row)
qed

lemma runs_user:
  assumes "runs (user secret rq) es (Inr v)"
  shows "v = cookie_user (rq_cookie rq) secret \<and> cookie_user (rq_cookie rq) secret \<noteq> '''' \<and>
    runs (UserState (cookie_user (rq_cookie rq) secret)) es (Inr (True, False))"
proof -
  let ?u = "cookie_user (rq_cookie rq) secret"
  let ?k = "\<lambda>r. case r of Inl _ \<Rightarrow> Ret (Inl (http_error 500 ''Internal Server Error''))
     | Inr (ok, unverified) \<Rightarrow> if \<not> ok then Ret (Inl (writeError 401 ''unauthorized''))
         else if unverified then Ret (Inl (writeJSON 403 unverifiedBody)) else Ret (Inr ?u)"
  obtain a where a: "runs (if ?u \<noteq> '''' then UserState ?u else return (False, False)) es a" "?k a = Ret (Inr v)"
    using assms unfolding user_def Let_def
    by (rule runs_bind_Ret [THEN exE, rotated]) (auto split: sum.split prod.split)
  then have "a = Inr (True, False)" "v = ?u" by (auto split: sum.splits prod.splits if_splits)
  with a(1) show ?thesis by (auto split: if_splits)
qed

lemma runs_serve_user:
  assumes "runs (serve_user rq u) es r"
  shows "(\<exists>i. r = PingOf u i) \<or> (\<exists>conns. r = StreamOf u conns) \<or> (\<exists>a. r = Answered a)"
proof (cases "pingPath (rq_path rq) \<noteq> None \<and> rq_method rq = ''POST''")
  case True
  then show ?thesis using assms by (auto simp: serve_user_def)
next
  case False
  let ?k = "\<lambda>r. case r of Inl _ \<Rightarrow> Ret (Answered (http_error 500 ''Internal Server Error'')) | Inr conns \<Rightarrow> Ret (StreamOf u conns)"
  have "runs (bind (Connections u) ?k) es r"
    using assms unfolding serve_user_def if_not_P [OF False] .
  then show ?thesis unfolding runs_bind by (elim exE conjE) (auto split: sum.splits)
qed

text \<open>
  C33. Only the user gets the user's stream. Whatever the database answers, a request is served as a
  stream or a ping of a user only if its cookie is that user's, signed with the secret, and the
  database had just said that the user exists and is not waiting to verify its email; the stats are
  only given out for the key; and a ping changes nothing but streams of that user.
\<close>

theorem only_own_streams:
  assumes "runs (serve_http secret key rq) es r"
  shows "(\<forall>u i conns. r = PingOf u i \<or> r = StreamOf u conns \<longrightarrow>
      (\<exists>cookie rows. rq_cookie rq = Some cookie \<and> ReadPerl cookie secret = Some u \<and>
         (Query (SelectUserState u), Rows ([Bool False] # rows)) \<in> set es)) \<and>
    (\<forall>u. r = StatsOf u \<longrightarrow> rq_path rq = ''/stats'' \<and> rq_key rq = Some key) \<and>
    (\<forall>u i time s p. r = PingOf u i \<longrightarrow> registry_ok s \<longrightarrow> suser (heap s p) \<noteq> u \<longrightarrow> heap (snd (respond time r s)) p = heap s p)"
proof (cases "rq_path rq = ''/stats''")
  case True
  then show ?thesis using assms by (auto simp: serve_http_def serveStats_def split: if_splits)
next
  case False
  let ?u = "cookie_user (rq_cookie rq) secret"
  obtain es1 a es2 where es: "es = es1 @ es2" "runs (user secret rq) es1 a"
    "runs (case a of Inl a \<Rightarrow> Ret (Answered a) | Inr u \<Rightarrow> serve_user rq u) es2 r"
    using assms False unfolding serve_http_def by (auto simp: runs_bind)
  show ?thesis
  proof (cases a)
    case (Inl x)
    then show ?thesis using es by auto
  next
    case (Inr v)
    have "v = ?u \<and> ?u \<noteq> '''' \<and> runs (UserState ?u) es1 (Inr (True, False))"
      using es(2) unfolding Inr by (rule runs_user)
    then have v: "v = ?u" "?u \<noteq> ''''" and q: "\<exists>rows. (Query (SelectUserState ?u), Rows ([Bool False] # rows)) \<in> set es"
      using runs_UserState es(1) by fastforce+
    obtain cookie where c: "rq_cookie rq = Some cookie" "ReadPerl cookie secret = Some ?u"
      using v(2) by (auto simp: cookie_user_def split: option.splits)
    have r: "(\<exists>i. r = PingOf ?u i) \<or> (\<exists>conns. r = StreamOf ?u conns) \<or> (\<exists>a. r = Answered a)"
      using runs_serve_user es(3) unfolding Inr v(1) by auto
    moreover have "heap (snd (respond time (PingOf ?u i) s)) p = heap s p" if "registry_ok s" "suser (heap s p) \<noteq> ?u" for time i s p
    proof (cases "map_of (user_streams s ?u) i")
      case (Some q)
      then have "suser (heap s q) = ?u" using user_entry(2) [OF that(1), of i q ?u] map_of_SomeD by fast
      then have "q \<noteq> p" using that(2) by auto
      then show ?thesis using Some by (simp add: servePing_def pingLocked_def offerLocked_def offer_def stop_def)
    qed (simp add: servePing_def)
    ultimately show ?thesis using c q by auto
  qed
qed

theorem only_own_streams_witness:
  "\<exists>cookie es. PerlCookie ''4Lyq'' ''test-secret'' = Some cookie \<and>
     (Query (SelectUserState ''4Lyq''), Rows [[Bool False]]) \<in> set es \<and>
     runs (serve_http ''test-secret'' ''key'' \<lparr>rq_method = ''POST'', rq_path = ''//5Ab/ping'', rq_cookie = Some cookie,
       rq_key = None, rq_user = ''''\<rparr>) es (PingOf ''4Lyq'' ''5Ab'') \<and>
     ReadPerl cookie ''test-secret'' = Some ''4Lyq''"
proof -
  obtain cookie where c: "PerlCookie ''4Lyq'' ''test-secret'' = Some cookie"
    by (simp add: PerlCookie_def Let_def)
  then have u: "cookie_user (Some cookie) ''test-secret'' = ''4Lyq''" using cookie_user_PerlCookie [of "''4Lyq''"] by simp
  let ?rq = "\<lparr>rq_method = ''POST'', rq_path = ''//5Ab/ping'', rq_cookie = Some cookie, rq_key = None, rq_user = ''''\<rparr>"
  let ?es = "[(Query (SelectUserState ''4Lyq''), Rows [[Bool False]])]"
  have r: "runs (serve_http ''test-secret'' ''key'' ?rq) ?es (PingOf ''4Lyq'' ''5Ab'')"
    by (simp add: serve_http_def user_def u UserState_def runs_Act_iff query_row_def query_def attempt_def serve_user_def pingPath_def Let_def)
  show ?thesis using only_own_streams [OF r] c r by (intro exI [of _ cookie] exI [of _ ?es]) auto
qed

end
