(* ===== verification/Duration.thy ===== *)
theory Duration
  imports Perl Lctl Effects
begin

text \<open>
  The times and durations of the admin commands: \<^verbatim>\<open>time.ParseDuration\<close> with its overflow checks and
  its floating-point fractions, \<^verbatim>\<open>parseSince\<close> of \<^verbatim>\<open>inactive_users.go\<close>, and how a time is shown
  (\<^verbatim>\<open>when\<close>, \<^verbatim>\<open>ago\<close> of \<^verbatim>\<open>user_info.go\<close>). Times are nanoseconds since 1970 UTC. The lemmas bound
  what \<open>parseSince\<close> gives.
\<close>

section \<open>Package time: ParseDuration\<close>

text \<open>A double as a fraction.\<close>

definition float_frac :: "(int \<times> int) option \<Rightarrow> (int \<times> int) option" where
  "float_frac x = map_option (\<lambda>(m, p). if p \<ge> 0 then (m * 2 ^ nat p, 1) else (m, 2 ^ nat (- p))) x"

text \<open>\<^verbatim>\<open>leadingInt\<close>: \<open>None\<close> is its overflow error.\<close>

fun leadingInt :: "int \<Rightarrow> string \<Rightarrow> (int \<times> string) option" where
  "leadingInt x [] = Some (x, [])"
| "leadingInt x (c # s) =
     (if \<not> is_digit c then Some (x, c # s)
      else if x > 2 ^ 63 div 10 then None
      else (let y = x * 10 + (int (byte c) - 48) in if y > 2 ^ 63 then None else leadingInt y s))"

text \<open>
  \<^verbatim>\<open>leadingFraction\<close>: the digits as a number, until it would overflow, and the power of ten as a
  double (a whole number; \<open>None\<close> is infinity).
\<close>

definition times_ten :: "int option \<Rightarrow> int option" where
  "times_ten s = Option.bind s (\<lambda>n. map_option (\<lambda>(a, b). a div b) (float_frac (nearest (n * 10) 1)))"

fun leadingFraction :: "bool \<Rightarrow> int \<Rightarrow> int option \<Rightarrow> string \<Rightarrow> int \<times> int option \<times> string" where
  "leadingFraction over x scale [] = (x, scale, [])"
| "leadingFraction over x scale (c # s) =
     (if \<not> is_digit c then (x, scale, c # s)
      else if over \<or> x > (2 ^ 63 - 1) div 10 then leadingFraction True x scale s
      else (let y = x * 10 + (int (byte c) - 48) in
        if y > 2 ^ 63 then leadingFraction True x scale s else leadingFraction False y (times_ten scale) s))"

text \<open>\<^verbatim>\<open>uint64(float64(f) * (float64(unit) / scale))\<close>.\<close>

definition fraction_of :: "int \<Rightarrow> int \<Rightarrow> int option \<Rightarrow> int" where
  "fraction_of f unit scale = (case scale of
     None \<Rightarrow> 0
   | Some s \<Rightarrow> (case (float_frac (nearest f 1), float_frac (nearest unit s)) of
       (Some (a, b), Some (c, d)) \<Rightarrow> (case float_frac (nearest (a * c) (b * d)) of Some (n, m) \<Rightarrow> n div m | None \<Rightarrow> 0)
     | _ \<Rightarrow> 0))"

definition unitMap :: "string \<Rightarrow> int option" where
  "unitMap u = map_of
     [(''ns'', 1), (''us'', 1000), (CHR 0xC2 # CHR 0xB5 # ''s'', 1000), (CHR 0xCE # CHR 0xBC # ''s'', 1000), (''ms'', 1000000),
      (''s'', 1000000000), (''m'', 60000000000), (''h'', 3600000000000)] u"

text \<open>One number with its unit: its nanoseconds and the rest. Then the loop over them.\<close>

definition dur_item :: "string \<Rightarrow> (int \<times> string) option" where
  "dur_item s =
     (if s = '''' \<or> \<not> (hd s = CHR ''.'' \<or> is_digit (hd s)) then None
      else Option.bind (leadingInt 0 s) (\<lambda>(v, s1).
        case (if s1 \<noteq> '''' \<and> hd s1 = CHR ''.'' then leadingFraction False 0 (Some 1) (tl s1) else (0, Some 1, s1)) of
          (f, scale, s2) \<Rightarrow>
            (let dot = (s1 \<noteq> '''' \<and> hd s1 = CHR ''.''); pre = (length s1 \<noteq> length s);
                 post = (dot \<and> length s2 \<noteq> length (tl s1));
                 u = takeWhile (\<lambda>c. \<not> (c = CHR ''.'' \<or> is_digit c)) s2
             in if \<not> pre \<and> \<not> post then None
                else Option.bind (unitMap u) (\<lambda>unit.
                  if v > 2 ^ 63 div unit then None
                  else (let w = v * unit + (if f > 0 then fraction_of f unit scale else 0)
                    in if f > 0 \<and> w > 2 ^ 63 then None else Some (w, drop (length u) s2))))))"

function dur_loop :: "int \<Rightarrow> string \<Rightarrow> int option" where
  "dur_loop d s =
     (if s = '''' then Some d
      else (case dur_item s of
          None \<Rightarrow> None
        | Some (v, s') \<Rightarrow> if \<not> length s' < length s then None
            else (let d' = (d + v) mod 2 ^ 64 in if d' > 2 ^ 63 then None else dur_loop d' s')))"
  by auto
termination by (relation "measure (\<lambda>(d, s). length s)") auto

declare dur_loop.simps [simp del]

definition ParseDuration :: "string \<Rightarrow> int option" where
  "ParseDuration s0 =
     (let neg = (s0 \<noteq> '''' \<and> hd s0 = CHR ''-'');
          s = (if s0 \<noteq> '''' \<and> (hd s0 = CHR ''-'' \<or> hd s0 = CHR ''+'') then tl s0 else s0)
      in if s = ''0'' then Some 0
         else if s = '''' then None
         else (case dur_loop 0 s of
             None \<Rightarrow> None
           | Some d \<Rightarrow> if neg then Some (wrap64 (- d)) else if d > 2 ^ 63 - 1 then None else Some d))"

section \<open>parseSince\<close>

definition parseSince :: "string \<Rightarrow> int option" where
  "parseSince s =
     (if s \<noteq> '''' \<and> last s = CHR ''d'' then
        (case ParseInt (butlast s) of
           None \<Rightarrow> None
         | Some n \<Rightarrow> if n \<le> 0 \<or> n > 100000 then None else Some (wrap64 (wrap64 (n * 24) * 3600000000000)))
      else (case ParseDuration s of None \<Rightarrow> None | Some d \<Rightarrow> if d > 0 then Some d else None))"

section \<open>Showing a time\<close>

text \<open>\<^verbatim>\<open>Format("2006-01-02 15:04")\<close>: the civil date of a day counted from 1970-01-01.\<close>

definition civil :: "int \<Rightarrow> int \<times> int \<times> int" where
  "civil day =
     (let z = day + 719468; era = z div 146097; doe = z mod 146097;
          yoe = (doe - doe div 1460 + doe div 36524 - doe div 146096) div 365;
          doy = doe - (365 * yoe + yoe div 4 - yoe div 100);
          mp = (5 * doy + 2) div 153;
          d = doy - (153 * mp + 2) div 5 + 1;
          m = (if mp < 10 then mp + 3 else mp - 9)
      in (yoe + era * 400 + (if m \<le> 2 then 1 else 0), m, d))"

definition pad_int :: "nat \<Rightarrow> int \<Rightarrow> string" where
  "pad_int w n = (if n < 0 then CHR ''-'' # pad_digits w (nat (- n)) else pad_digits w (nat n))"

definition format_time :: "int \<Rightarrow> string" where
  "format_time t =
     (let minutes = t div 60000000000; day = minutes div 1440; m = minutes mod 1440
      in case civil day of (year, month, mday) \<Rightarrow>
        pad_int 4 year @ ''-'' @ pad_int 2 month @ ''-'' @ pad_int 2 mday @ '' '' @ pad_int 2 (m div 60) @ '':'' @ pad_int 2 (m mod 60))"

text \<open>\<^verbatim>\<open>now.Sub(t)\<close> saturates; \<^verbatim>\<open>d.Hours()\<close> is the sum of two doubles, and its 24th part another.\<close>

definition time_sub :: "int \<Rightarrow> int \<Rightarrow> int" where
  "time_sub now t = max (- (2 ^ 63)) (min (2 ^ 63 - 1) (now - t))"

definition units_trunc :: "int \<Rightarrow> int \<Rightarrow> int \<Rightarrow> int" where
  "units_trunc unit per d = (case float_frac (nearest (d mod unit) unit) of
     None \<Rightarrow> 0
   | Some (a, b) \<Rightarrow> (case float_frac (nearest (d div unit * b + a) b) of
       None \<Rightarrow> 0
     | Some (a, b) \<Rightarrow> (case float_frac (nearest a (b * per)) of None \<Rightarrow> 0 | Some (a, b) \<Rightarrow> a div b)))"

definition ago :: "int \<Rightarrow> int \<Rightarrow> string" where
  "ago now t =
     (let d = time_sub now t in
      if d < 0 then ''in the future''
      else if d < 3600000000000 then show_int (units_trunc 60000000000 1 d) @ '' minutes ago''
      else if d < 172800000000000 then show_int (units_trunc 3600000000000 1 d) @ '' hours ago''
      else show_int (units_trunc 3600000000000 24 d) @ '' days ago'')"

definition when' :: "int \<Rightarrow> int option \<Rightarrow> string \<Rightarrow> string" where
  "when' now t none = (case t of None \<Rightarrow> none | Some t \<Rightarrow> format_time t @ '' UTC ('' @ ago now t @ '')'')"

section \<open>Bounds\<close>

lemma ParseDuration_bounds:
  assumes "ParseDuration s = Some d"
  shows "- (2 ^ 63) \<le> d \<and> d < 2 ^ 63"
proof -
  have wrap: "- (2 ^ 63) \<le> wrap64 n \<and> wrap64 n < 2 ^ 63" for n
    unfolding wrap64_def using pos_mod_bound [of "2 ^ 64" "n + 2 ^ 63"] pos_mod_sign [of "2 ^ 64" "n + 2 ^ 63"] by simp
  have loop: "0 \<le> e \<Longrightarrow> dur_loop e t = Some d' \<Longrightarrow> 0 \<le> d'" for e t d'
  proof (induction e t rule: dur_loop.induct)
    case (1 e t)
    from 1(2,3) show ?case
      unfolding dur_loop.simps [of e t] by (auto simp: Let_def split: if_splits option.splits dest!: 1(1) [rotated -1])
  qed
  from assms show ?thesis using wrap loop [of 0]
    unfolding ParseDuration_def Let_def by (fastforce split: if_splits option.splits)
qed

lemma parseSince_bounds:
  assumes "parseSince s = Some d"
  shows "0 < d \<and> d < 2 ^ 63"
proof -
  have "wrap64 (wrap64 (n * 24) * 3600000000000) = n * 86400000000000" if "0 < n" "n \<le> 100000" for n
    using that by (simp add: wrap64_def)
  then show ?thesis using assms ParseDuration_bounds [of s d]
    unfolding parseSince_def by (auto split: if_splits option.splits)
qed

end
