(* ===== verification/Revive.thy ===== *)
theory Revive
  imports Duration
begin

text \<open>
  The command that starts what liercd is not running (\<^verbatim>\<open>revive.go\<close>): waiting for the instance to
  answer, the connections of recently active users, and the paced starts. The lemmas say that the
  wait ends, after how many probes, and that no more than a batch is started between two pauses, of
  the listed connections only.
\<close>

section \<open>waitForInstance\<close>

text \<open>
  What was waited is an \<open>int\<close>: the code's 64 bits of nanoseconds only differ when \<^verbatim>\<open>--wait\<close> is within
  two seconds of the longest duration, 292 years.
\<close>

lemma bind_cong [fundef_cong]: "p = q \<Longrightarrow> (\<And>a. f a = g a) \<Longrightarrow> bind p f = bind q g"
  by (simp add: ext [of f g])

lemma attempt_cong [fundef_cong]: "p = q \<Longrightarrow> (\<And>a. f a = g a) \<Longrightarrow> attempt p f = attempt q g"
  by (simp add: ext [of f g])

definition reviveProbe :: int where
  "reviveProbe = 2000000000"

function wait_loop :: "client \<Rightarrow> string \<Rightarrow> int \<Rightarrow> int \<Rightarrow> (goerr + unit) prog" where
  "wait_loop lc inst wait waited = bind (Do lc GET ''portmap'' None) (\<lambda>r. case r of
     Inr _ \<Rightarrow> return ()
   | Inl err \<Rightarrow>
       if waited \<ge> wait then
         raise (Err (''liercd '' @ inst @ '' didn't answer within '' @ show_duration wait @ '': '' @ err_text err))
       else attempt (sleep reviveProbe) (\<lambda>_. wait_loop lc inst wait (waited + reviveProbe)))"
  by pat_completeness auto
termination
  by (relation "measure (\<lambda>(lc, inst, wait, waited). nat (wait - waited))") (auto simp: reviveProbe_def)

declare wait_loop.simps [simp del]

definition waitForInstance :: "env \<Rightarrow> string \<Rightarrow> int \<Rightarrow> (goerr + unit) prog" where
  "waitForInstance env inst wait = (case For (Liercd env) inst of
     Inl err \<Rightarrow> raise err
   | Inr lc \<Rightarrow> wait_loop lc inst wait 0)"

section \<open>revive\<close>

text \<open>\<^verbatim>\<open>main\<close> is a NULL or empty column; the empty instance means every one.\<close>

definition stored_instance :: "string \<Rightarrow> string" where
  "stored_instance inst = (if inst = ''main'' then '''' else inst)"

definition bad_instance :: "string \<Rightarrow> bool" where
  "bad_instance inst \<longleftrightarrow> inst \<noteq> '''' \<and> inst \<noteq> ''main'' \<and> inst \<noteq> ''next''"

definition instances_are :: "string \<Rightarrow> goerr" where
  "instances_are inst = UsageError (''instances are main or next, not '' @ quote inst)"

text \<open>The flags that are refused, in the order they are checked.\<close>

definition revive_flags :: "string list \<Rightarrow> string \<Rightarrow> int \<Rightarrow> int \<Rightarrow> int \<Rightarrow> goerr option" where
  "revive_flags args inst batch pause wait =
     (if args \<noteq> [] then Some (UsageError ''revive takes no arguments'')
      else if bad_instance inst then Some (instances_are inst)
      else if batch < 1 then Some (UsageError ''--batch must be at least 1'')
      else if pause < 0 then Some (UsageError ''--pause can't be negative'')
      else if wait < 0 then Some (UsageError ''--wait can't be negative'')
      else if wait > 0 \<and> inst = '''' then Some (UsageError ''--wait needs --instance'')
      else None)"

definition batch_pause :: "int \<Rightarrow> int \<Rightarrow> nat \<Rightarrow> (goerr + unit) prog" where
  "batch_pause batch pause n =
     (if n > 0 \<and> int n mod batch = 0 then say (line (''pausing '' @ show_duration pause)) (sleep pause) else return ())"

fun revive_loop :: "env \<Rightarrow> int \<Rightarrow> int \<Rightarrow> (string \<times> string) list \<Rightarrow> nat \<Rightarrow> nat \<Rightarrow> (goerr + nat \<times> nat) prog" where
  "revive_loop env batch pause [] started failed = return (started, failed)"
| "revive_loop env batch pause ((i, config) # conns) started failed = attempt ctx_err (\<lambda>_.
     bind (Do (Liercd env) GET (i @ ''/status'') None) (\<lambda>r.
       if (case r of Inl _ \<Rightarrow> False | Inr status \<Rightarrow> Status status = 200)
       then revive_loop env batch pause conns started failed
       else attempt (batch_pause batch pause (started + failed)) (\<lambda>_.
         bind (Do (Liercd env) POST (i @ ''/create'') (Some config)) (\<lambda>r. case r of
           Inl err \<Rightarrow> say (line (i @ '': '' @ err_text err)) (revive_loop env batch pause conns started (failed + 1))
         | Inr res \<Rightarrow>
             if Status res \<noteq> 200
             then say (line (i @ '': '' @ statusLine (Status res))) (revive_loop env batch pause conns started (failed + 1))
             else say (line (''started '' @ i)) (revive_loop env batch pause conns (started + 1) failed)))))"

text \<open>The first argument of the query is the duration, in nanoseconds as everywhere.\<close>

definition revive_listed :: "env \<Rightarrow> int \<Rightarrow> string \<Rightarrow> int \<Rightarrow> int \<Rightarrow> (goerr + unit) prog" where
  "revive_listed env age inst batch pause =
     attempt (query_all (SelectRevive age inst (stored_instance inst)) (scan2 scan_string scan_string)) (\<lambda>conns.
     attempt (revive_loop env batch pause conns 0 0) (\<lambda>(started, failed).
     say (line (''started '' @ show_nat started @ '', failed '' @ show_nat failed))
       (if failed > 0 then raise (Err (show_nat failed @ '' connection(s) failed to start'')) else return ())))"

definition revive :: "env \<Rightarrow> string \<Rightarrow> string \<Rightarrow> int \<Rightarrow> int \<Rightarrow> int \<Rightarrow> string list \<Rightarrow> (goerr + unit) prog" where
  "revive env age inst batch pause wait args =
     (case ParseDuration age of
        None \<Rightarrow> raise (UsageError ''--since needs a duration such as 48h'')
      | Some d \<Rightarrow>
          if d \<le> 0 then raise (UsageError ''--since needs a duration such as 48h'')
          else (case revive_flags args inst batch pause wait of
              Some err \<Rightarrow> raise err
            | None \<Rightarrow>
                attempt (if wait > 0 then waitForInstance env inst wait else return ()) (\<lambda>_.
                  revive_listed env d inst batch pause)))"

section \<open>The wait ends\<close>

text \<open>The probes left after waiting for \<open>waited\<close>, the last one included.\<close>

definition probes :: "int \<Rightarrow> nat" where
  "probes left = Suc (nat ((left + reviveProbe - 1) div reviveProbe))"

lemma probes_step: "0 < left \<Longrightarrow> probes left = Suc (probes (left - reviveProbe))"
  unfolding probes_def reviveProbe_def by linarith

lemma probes_done: "left \<le> 0 \<Longrightarrow> probes left = 1"
  unfolding probes_def reviveProbe_def by linarith

definition probe :: "string \<Rightarrow> action" where
  "probe b = Http b GET ''portmap'' None"

text \<open>A try that failed and the wait after it.\<close>

definition failed_try :: "string \<Rightarrow> goerr \<Rightarrow> event list" where
  "failed_try b e = [(probe b, Failed e), (Sleep reviveProbe, Done)]"

definition waited_out :: "string \<Rightarrow> nat \<Rightarrow> event list \<Rightarrow> goerr + unit \<Rightarrow> bool" where
  "waited_out b n es r \<longleftrightarrow> (\<exists>errs last. es = concat (map (failed_try b) errs) @ last \<and> length errs < n \<and>
     ((\<exists>x. last = [(probe b, Responded x)] \<and> r = Inr ()) \<or>
      (\<exists>e e'. last = [(probe b, Failed e)] \<and> Suc (length errs) = n \<and> r = Inl e') \<or>
      (\<exists>e e'. last = [(probe b, Failed e), (Sleep reviveProbe, Failed e')] \<and> r = Inl e')))"

lemma waited_out_Cons: "waited_out b n es r \<Longrightarrow> waited_out b (Suc n) (failed_try b e @ es) r"
  unfolding waited_out_def
proof (elim exE conjE)
  fix errs last
  assume *: "es = concat (map (failed_try b) errs) @ last" "length errs < n"
    "(\<exists>x. last = [(probe b, Responded x)] \<and> r = Inr ()) \<or>
      (\<exists>e e'. last = [(probe b, Failed e)] \<and> Suc (length errs) = n \<and> r = Inl e') \<or>
      (\<exists>e e'. last = [(probe b, Failed e), (Sleep reviveProbe, Failed e')] \<and> r = Inl e')"
  show "\<exists>errs last. failed_try b e @ es = concat (map (failed_try b) errs) @ last \<and> length errs < Suc n \<and>
     ((\<exists>x. last = [(probe b, Responded x)] \<and> r = Inr ()) \<or>
      (\<exists>e e'. last = [(probe b, Failed e)] \<and> Suc (length errs) = Suc n \<and> r = Inl e') \<or>
      (\<exists>e e'. last = [(probe b, Failed e), (Sleep reviveProbe, Failed e')] \<and> r = Inl e'))"
    by (intro exI [of _ "e # errs"] exI [of _ last]) (use * in auto)
qed

lemma waited_out_last:
  "0 < n \<Longrightarrow> waited_out b n [(probe b, Responded x)] (Inr ())"
  "waited_out b (Suc 0) [(probe b, Failed e)] (Inl e')"
  "0 < n \<Longrightarrow> waited_out b n [(probe b, Failed e), (Sleep reviveProbe, Failed e')] (Inl e')"
  unfolding waited_out_def by (rule exI [of _ "[]"], simp)+

lemma probes_pos: "0 < probes n"
  by (simp add: probes_def)

lemma runs_wait_loop:
  "instanceOf lc = None \<Longrightarrow> runs (wait_loop lc inst wait waited) es r \<Longrightarrow>
    waited_out (BaseURL lc) (probes (wait - waited)) es r"
proof (induction lc inst wait waited arbitrary: es rule: wait_loop.induct)
  case (1 lc inst wait waited)
  have Do: "Do lc GET ''portmap'' None = http (BaseURL lc) GET ''portmap'' None"
    using 1(2) by (simp add: trimSlash_id)
  from 1(3) consider (answered) x where "es = [(probe (BaseURL lc), Responded x)]" "r = Inr ()"
    | (timeout) e e' where "waited \<ge> wait" "es = [(probe (BaseURL lc), Failed e)]" "r = Inl e'"
    | (cancelled) e e' where "es = [(probe (BaseURL lc), Failed e), (Sleep reviveProbe, Failed e')]" "r = Inl e'"
    | (again) e es' where "waited < wait" "es = failed_try (BaseURL lc) e @ es'"
        "runs (wait_loop lc inst wait (waited + reviveProbe)) es' r"
    by (subst (asm) wait_loop.simps)
      (auto simp: Do runs_bind runs_http runs_attempt runs_sleep probe_def failed_try_def split: if_splits)
  then show ?case
  proof cases
    case again
    have "waited_out (BaseURL lc) (probes (wait - (waited + reviveProbe))) es' r"
      using again 1(2) by (intro 1(1) [of "Inl e" e]) auto
    then have "waited_out (BaseURL lc) (Suc (probes (wait - (waited + reviveProbe)))) es r"
      unfolding again(2) by (rule waited_out_Cons)
    moreover have "probes (wait - waited) = Suc (probes (wait - (waited + reviveProbe)))"
      using again(1) probes_step [of "wait - waited"] by (simp add: algebra_simps)
    ultimately show ?thesis by simp
  qed (use probes_pos probes_done [of "wait - waited"] in \<open>auto intro: waited_out_last\<close>)
qed

text \<open>
  C34. Waiting for an instance ends. It only asks the instance it was given for its port map, two
  seconds after a try that failed; it returns without an error exactly when the last try was
  answered; it gives up by itself only after having waited for as long as it was told, and never
  waits two seconds longer than that.
\<close>

theorem waitForInstance_ends:
  assumes "runs (waitForInstance env inst wait) es r" "For (Liercd env) inst = Inr lc" "0 \<le> wait"
  shows "\<exists>errs last. es = concat (map (\<lambda>e. [(Http (BaseURL lc) GET ''portmap'' None, Failed e), (Sleep 2000000000, Done)]) errs) @ last \<and>
     int (length errs) * 2000000000 < wait + 2000000000 \<and>
     ((\<exists>x. last = [(Http (BaseURL lc) GET ''portmap'' None, Responded x)] \<and> r = Inr ()) \<or>
      (\<exists>e e'. last = [(Http (BaseURL lc) GET ''portmap'' None, Failed e)] \<and> wait \<le> int (length errs) * 2000000000 \<and> r = Inl e') \<or>
      (\<exists>e e'. last = [(Http (BaseURL lc) GET ''portmap'' None, Failed e), (Sleep 2000000000, Failed e')] \<and> r = Inl e'))"
proof -
  have "waited_out (BaseURL lc) (probes wait) es r"
    using runs_wait_loop [OF For_pinned [OF assms(2)], of inst wait 0 es r] assms(1)
    by (simp add: waitForInstance_def assms(2))
  then obtain errs last where w: "es = concat (map (failed_try (BaseURL lc)) errs) @ last" "length errs < probes wait"
    "(\<exists>x. last = [(probe (BaseURL lc), Responded x)] \<and> r = Inr ()) \<or>
      (\<exists>e e'. last = [(probe (BaseURL lc), Failed e)] \<and> Suc (length errs) = probes wait \<and> r = Inl e') \<or>
      (\<exists>e e'. last = [(probe (BaseURL lc), Failed e), (Sleep reviveProbe, Failed e')] \<and> r = Inl e')"
    unfolding waited_out_def by blast
  have "int (length errs) * 2000000000 < wait + 2000000000"
    "Suc (length errs) = probes wait \<Longrightarrow> wait \<le> int (length errs) * 2000000000"
    using w(2) assms(3) unfolding probes_def reviveProbe_def by linarith+
  with w show ?thesis unfolding failed_try_def [abs_def] probe_def reviveProbe_def
    by (intro exI [of _ errs] exI [of _ last]) auto
qed

theorem waitForInstance_ends_witness:
  "\<exists>es r. runs (waitForInstance (OpenEnv \<lparr>Main = ''m'', Next = ''''\<rparr> None False 0) ''main'' 3000000000) es r \<and>
     length es = 5 \<and> (\<exists>errs last. es = concat (map (\<lambda>e. [(Http (baseURL ''m'') GET ''portmap'' None, Failed e), (Sleep 2000000000, Done)]) errs) @ last \<and>
       int (length errs) * 2000000000 < 5000000000)"
proof -
  let ?env = "OpenEnv \<lparr>Main = ''m'', Next = ''''\<rparr> None False 0"
  let ?lc = "\<lparr>BaseURL = baseURL ''m'', nextURL = '''', instanceOf = None\<rparr>"
  have lc: "For (Liercd ?env) ''main'' = Inr ?lc" by (simp add: OpenEnv_def For_def)
  obtain es r s where e: "exec scripted (waitForInstance ?env ''main'' 3000000000) [] = (es, r, s)" by (metis prod_cases3)
  then have "length es = 5"
    by (simp add: waitForInstance_def lc wait_loop.simps http_def sleep_def attempt_def unit_reply_def reviveProbe_def) auto
  then show ?thesis using scripted.exec_runs [OF e] waitForInstance_ends [OF scripted.exec_runs [OF e] lc] by auto
qed

section \<open>The starts are paced\<close>

text \<open>The creates since the last pause that was slept through; no more than \<open>b\<close> at any time.\<close>

fun next_count :: "int \<Rightarrow> nat \<Rightarrow> event \<Rightarrow> nat" where
  "next_count pause n (Http b m p d, r) = (if m = POST then n + 1 else n)"
| "next_count pause n (Sleep d, r) = (if d = pause \<and> r = Done then 0 else n)"
| "next_count pause n e = n"

fun paced :: "int \<Rightarrow> nat \<Rightarrow> nat \<Rightarrow> event list \<Rightarrow> bool" where
  "paced pause b n [] = True"
| "paced pause b n (e # es) = (next_count pause n e \<le> b \<and> paced pause b (next_count pause n e) es)"

lemma paced_append: "paced pause b n (xs @ ys) \<longleftrightarrow> paced pause b n xs \<and> paced pause b (foldl (next_count pause) n xs) ys"
  by (induction xs arbitrary: n) auto

definition in_pace :: "int \<Rightarrow> nat \<Rightarrow> nat \<Rightarrow> event list \<Rightarrow> bool" where
  "in_pace pause b n h \<longleftrightarrow> paced pause b 0 h \<and> foldl (next_count pause) 0 h \<le> n"

lemma in_pace_mono: "in_pace pause b n h \<Longrightarrow> n \<le> m \<Longrightarrow> in_pace pause b m h"
  by (simp add: in_pace_def)

lemma in_pace_paced: "in_pace pause b n h \<Longrightarrow> paced pause b 0 h"
  by (simp add: in_pace_def)

lemma in_pace_event:
  assumes "in_pace pause b n h" "n \<le> b"
  shows "\<And>s r. in_pace pause b n (h @ [(Print s, r)])" "\<And>r. in_pace pause b n (h @ [(CtxErr, r)])"
    "\<And>a p d r. in_pace pause b n (h @ [(Http a GET p d, r)])"
    "\<And>r. in_pace pause b n (h @ [(Sleep e, r)])" "in_pace pause b 0 (h @ [(Sleep pause, Done)])"
    "\<And>a p d r. Suc n \<le> b \<Longrightarrow> in_pace pause b (Suc n) (h @ [(Http a POST p d, r)])"
  using assms by (auto simp: in_pace_def paced_append)

lemma in_pace_queries: "in_pace pause b n h \<Longrightarrow> n \<le> b \<Longrightarrow> queries es \<Longrightarrow> in_pace pause b n (h @ es)"
proof (induction es arbitrary: h)
  case (Cons e es)
  then obtain q r where "e = (Query q, r)" by (cases e) (auto simp: queries_def elim: is_query.elims)
  then have "in_pace pause b n (h @ [e])" using Cons.prems by (auto simp: in_pace_def paced_append)
  then show ?case using Cons.IH [of "h @ [e]"] Cons.prems by (simp add: queries_def)
qed simp

lemma wp_batch_pause:
  assumes "in_pace pause b (if N = 0 then 0 else Suc ((N - 1) mod b)) h" "0 < b"
  shows "wp (batch_pause (int b) pause N) (\<lambda>h' r. paced pause b 0 h' \<and> (r = Inr () \<longrightarrow> in_pace pause b (N mod b) h')) h"
proof (cases "N > 0 \<and> int N mod int b = 0")
  case True
  let ?n = "Suc ((N - 1) mod b)"
  have n: "in_pace pause b ?n h" "?n \<le> b" using assms True by (simp_all add: Suc_leI)
  note * = in_pace_event(1) [OF n]
  have "N mod b = 0" using True by (simp flip: of_nat_mod)
  then show ?thesis using True in_pace_paced [OF in_pace_event(4) [OF * n(2)]] in_pace_event(5) [OF * n(2)]
      in_pace_paced [OF in_pace_event(5) [OF * n(2)]]
    unfolding batch_pause_def by (simp add: wp_simps)
next
  case False
  have "(if N = 0 then 0 else Suc ((N - 1) mod b)) \<le> N mod b"
  proof (cases N)
    case (Suc M)
    have "int (N mod b) \<noteq> 0" using False Suc unfolding of_nat_mod by simp
    then have "Suc M mod b \<noteq> 0" using Suc by simp
    then show ?thesis using Suc by (simp add: mod_Suc split: if_splits)
  qed simp
  then have "in_pace pause b (N mod b) h" using assms(1) in_pace_mono by blast
  then show ?thesis unfolding batch_pause_def if_not_P [OF False] by (simp add: in_pace_paced)
qed

lemma wp_revive_loop:
  assumes "Liercd env = NewRouted hosts LookupLiercd" "0 < b"
  shows "in_pace pause b (if s + f = 0 then 0 else Suc ((s + f - 1) mod b)) h \<Longrightarrow>
    wp (revive_loop env (int b) pause conns s f) (\<lambda>h' _. paced pause b 0 h') h"
proof (induction conns arbitrary: s f h)
  case Nil
  then show ?case by (simp add: in_pace_paced)
next
  case (Cons c conns)
  obtain i config where c: "c = (i, config)" by (cases c)
  let ?n = "if s + f = 0 then 0 else Suc ((s + f - 1) mod b)"
  have n: "?n \<le> b" using assms(2) by (simp add: Suc_leI)
  have N: "(s + f) mod b < b" using assms(2) by simp
  have IH1: "wp (revive_loop env (int b) pause conns (s + 1) f) (\<lambda>h' _. paced pause b 0 h') h"
    "wp (revive_loop env (int b) pause conns s (f + 1)) (\<lambda>h' _. paced pause b 0 h') h"
    if "in_pace pause b (Suc ((s + f) mod b)) h" for h
    using Cons.IH [of "s + 1" f h] Cons.IH [of s "f + 1" h] that by simp_all
  let ?post = "\<lambda>r. case r of
      Inl err \<Rightarrow> say (line (i @ '': '' @ err_text err)) (revive_loop env (int b) pause conns s (f + 1))
    | Inr res \<Rightarrow>
        if Status res \<noteq> 200
        then say (line (i @ '': '' @ statusLine (Status res))) (revive_loop env (int b) pause conns s (f + 1))
        else say (line (''started '' @ i)) (revive_loop env (int b) pause conns (s + 1) f)"
  have post: "wp (?post r) (\<lambda>h' _. paced pause b 0 h') h" if "in_pace pause b (Suc ((s + f) mod b)) h" for h r
    using in_pace_event(1) [OF that Suc_leI [OF N]] IH1 by (cases r) (auto simp: wp_simps)
  have create: "wp (bind (Do (Liercd env) POST (i @ ''/create'') (Some config)) ?post) (\<lambda>h' _. paced pause b 0 h') h"
    if h: "in_pace pause b ((s + f) mod b) h" for h
    unfolding wp_bind assms(1)
  proof (rule lookup.wp_Do)
    have q: "in_pace pause b ((s + f) mod b) (h @ es)" if "queries es" for es
      using h N that by (intro in_pace_queries) auto
    have sent: "in_pace pause b (Suc ((s + f) mod b)) (h @ es @ [(Http a POST p d, rep)])" if "queries es" for es a p d rep
      using in_pace_event(6) [OF q [OF that]] N by simp
    show "queries es \<Longrightarrow> wp (?post (Inl e)) (\<lambda>h' _. paced pause b 0 h') (h @ es)" for es e
      by (rule post) (rule in_pace_mono [OF q], auto)
    show "queries es \<Longrightarrow> wp (?post (Inl e)) (\<lambda>h' _. paced pause b 0 h') (h @ es @ [(Http a POST p d, Failed e)])"
      "queries es \<Longrightarrow> wp (?post (Inr x)) (\<lambda>h' _. paced pause b 0 h') (h @ es @ [(Http a POST p d, Responded x)])" for es a p d e x
      by (rule post, rule sent, assumption)+
  qed
  have start: "wp (attempt (batch_pause (int b) pause (s + f)) (\<lambda>_. bind (Do (Liercd env) POST (i @ ''/create'') (Some config)) ?post))
      (\<lambda>h' _. paced pause b 0 h') h" if "in_pace pause b ?n h" for h
    unfolding wp_attempt
    by (rule wp_mono [OF wp_batch_pause [OF that assms(2)]]) (use create in \<open>auto split: sum.split\<close>)
  have next_one: "wp (if (case r of Inl _ \<Rightarrow> False | Inr status \<Rightarrow> Status status = 200)
      then revive_loop env (int b) pause conns s f
      else attempt (batch_pause (int b) pause (s + f)) (\<lambda>_. bind (Do (Liercd env) POST (i @ ''/create'') (Some config)) ?post))
      (\<lambda>h' _. paced pause b 0 h') h" if "in_pace pause b ?n h" for h and r :: "goerr + response"
    using Cons.IH [OF that] start [OF that] by simp
  note ctx = in_pace_event(2) [OF Cons.prems n]
  show ?case unfolding c revive_loop.simps wp_attempt wp_ctx_err sum.case wp_bind assms(1) wp.simps
  proof (intro conjI allI impI)
    show "paced pause b 0 (h @ [(CtxErr, Failed e)])" for e by (rule in_pace_paced [OF ctx])
    have q: "in_pace pause b ?n ((h @ [(CtxErr, Done)]) @ es)" if "queries es" for es
      by (rule in_pace_queries [OF ctx n that])
    have asked: "in_pace pause b ?n ((h @ [(CtxErr, Done)]) @ es @ [(Http a GET p d, rep)])" if "queries es" for es a p d rep
      using in_pace_event(3) [OF q [OF that] n] by simp
    show "wp (Do (NewRouted hosts LookupLiercd) GET (i @ ''/status'') None) (\<lambda>h r. wp (if (case r of Inl _ \<Rightarrow> False | Inr status \<Rightarrow> Status status = 200)
      then revive_loop env (int b) pause conns s f
      else attempt (batch_pause (int b) pause (s + f)) (\<lambda>_. bind (Do (NewRouted hosts LookupLiercd) POST (i @ ''/create'') (Some config)) ?post))
      (\<lambda>h' _. paced pause b 0 h') h) (h @ [(CtxErr, Done)])"
      using next_one [OF q, unfolded assms(1)] next_one [OF asked, unfolded assms(1)] by (intro lookup.wp_Do) blast+
  qed
qed

text \<open>What it may do to liercd: create the connections of a list, with their configs.\<close>

definition creates :: "(string \<times> string) list \<Rightarrow> action \<Rightarrow> bool" where
  "creates conns x \<longleftrightarrow> (\<exists>b i config. (i, config) \<in> set conns \<and> x = Http b POST (trimSlash (i @ ''/create'')) (Some config))"

lemma only_Do_routed:
  "(\<And>q. S (Query q)) \<Longrightarrow> (\<And>b. S (Http b m (trimSlash path) body)) \<Longrightarrow> only S (Do (NewRouted hosts LookupLiercd) m path body)"
  by (intro only_Do only_LookupLiercd) auto

lemma only_revive_loop:
  assumes "Liercd env = NewRouted hosts LookupLiercd"
  shows "set conns \<subseteq> set all \<Longrightarrow> only (\<lambda>x. harmless x \<or> creates all x) (revive_loop env batch pause conns s f)"
proof (induction conns arbitrary: s f)
  case (Cons c conns)
  obtain i config where c: "c = (i, config)" by (cases c)
  have IH: "only (\<lambda>x. harmless x \<or> creates all x) (revive_loop env batch pause conns s f)" for s f
    using Cons by simp
  have "creates all (Http b POST (trimSlash (i @ ''/create'')) (Some config))" for b
    using Cons.prems by (auto simp: creates_def c)
  then show ?case unfolding c revive_loop.simps assms batch_pause_def
    by (auto intro!: only_attempt only_bind only_Do_routed IH simp: only_simps split: sum.split)
qed simp

lemma runs_query_all:
  "runs (query_all q scan) es r \<Longrightarrow> (\<exists>e. es = [(Query q, Failed e)] \<and> r = Inl e) \<or> (\<exists>rows. es = [(Query q, Rows rows)] \<and> r = scan_rows scan rows)"
  unfolding query_all_def runs_attempt_Ret runs_query by auto

lemma runs_attempt_query_all:
  assumes "runs (attempt (query_all q scan) k) es r"
  obtains rep where "es = [(Query q, rep)]"
  | rows xs es2 where "es = (Query q, Rows rows) # es2" "scan_rows scan rows = Inr xs" "runs (k xs) es2 r"
  using assms unfolding runs_attempt
proof (elim disjE exE conjE)
  fix e assume "runs (query_all q scan) es (Inl e)"
  then show thesis using that(1) by (auto dest: runs_query_all)
next
  fix es1 a es2 assume "es = es1 @ es2" "runs (query_all q scan) es1 (Inr a)" "runs (k a) es2 r"
  moreover from this(2) obtain rows where "es1 = [(Query q, Rows rows)]" "scan_rows scan rows = Inr a"
    using runs_query_all by fastforce
  ultimately show thesis using that(2) by simp
qed

lemma scan_rows_texts:
  "scan_rows (scan2 scan_string scan_string) rows = Inr conns \<Longrightarrow> (i, config) \<in> set conns \<Longrightarrow> [Text i, Text config] \<in> set rows"
proof (induction rows arbitrary: conns)
  case (Cons row rows)
  have "row = [Text a, Text b]" if "scan2 scan_string scan_string row = Inr (a, b)" for a b
    using that by (elim scan2.elims; simp split: sum.splits; elim scan_string.elims; simp)
  then show ?case using Cons by (auto split: sum.splits)
qed simp

lemma in_pace_harmless: "\<forall>e\<in>set es. harmless (fst e) \<Longrightarrow> in_pace pause b 0 es"
proof (induction es rule: rev_induct)
  case (snoc e es)
  obtain x r where e: "e = (x, r)" by (cases e)
  have "in_pace pause b 0 es" "harmless x" using snoc by (simp_all add: e)
  then show ?case by (cases x) (auto simp: e in_pace_def paced_append)
qed (simp add: in_pace_def)

lemma only_waitForInstance: "only harmless (waitForInstance env inst wait)"
proof -
  have "instanceOf lc = None \<Longrightarrow> only harmless (wait_loop lc inst wait waited)" for lc waited
  proof (induction lc inst wait waited rule: wait_loop.induct)
    case (1 lc inst wait waited)
    then show ?case
      by (subst wait_loop.simps) (auto intro!: only_bind only_attempt simp: only_simps split: sum.split)
  qed
  then show ?thesis unfolding waitForInstance_def using For_pinned by (auto split: sum.split)
qed

text \<open>Every action is harmless or a create of a row that the query \<open>q\<close> had answered by then.\<close>

definition only_listed :: "sql \<Rightarrow> event list \<Rightarrow> bool" where
  "only_listed q es \<longleftrightarrow> (\<forall>xs e ys. es = xs @ e # ys \<longrightarrow> harmless (fst e) \<or>
     (\<exists>rows i config b. (Query q, Rows rows) \<in> set xs \<and> [Text i, Text config] \<in> set rows \<and>
        fst e = Http b POST (trimSlash (i @ ''/create'')) (Some config)))"

lemma only_listed_harmless: "\<forall>e\<in>set es. harmless (fst e) \<Longrightarrow> only_listed q es"
  by (auto simp: only_listed_def)

lemma only_listed_append: "\<forall>e\<in>set xs. harmless (fst e) \<Longrightarrow> only_listed q ys \<Longrightarrow> only_listed q (xs @ ys)"
proof (induction xs)
  case (Cons x xs)
  then have IH: "only_listed q (xs @ ys)" by simp
  show ?case unfolding only_listed_def
  proof (intro allI impI)
    fix as e bs assume "(x # xs) @ ys = as @ e # bs"
    then consider "as = []" "e = x" | as' where "as = x # as'" "xs @ ys = as' @ e # bs" by (cases as) auto
    then show "harmless (fst e) \<or> (\<exists>rows i config b. (Query q, Rows rows) \<in> set as \<and> [Text i, Text config] \<in> set rows \<and>
        fst e = Http b POST (trimSlash (i @ ''/create'')) (Some config))"
    proof cases
      case 2
      then show ?thesis using IH unfolding only_listed_def by fastforce
    qed (use Cons.prems in auto)
  qed
qed simp

lemma only_listed_rows:
  assumes "\<forall>e\<in>set es. harmless (fst e) \<or> creates conns (fst e)"
    "\<And>i config. (i, config) \<in> set conns \<Longrightarrow> [Text i, Text config] \<in> set rows"
  shows "only_listed q ((Query q, Rows rows) # es)"
  unfolding only_listed_def
proof (intro allI impI)
  fix xs e ys assume *: "(Query q, Rows rows) # es = xs @ e # ys"
  show "harmless (fst e) \<or> (\<exists>rows i config b. (Query q, Rows rows) \<in> set xs \<and> [Text i, Text config] \<in> set rows \<and>
        fst e = Http b POST (trimSlash (i @ ''/create'')) (Some config))"
  proof (cases xs)
    case (Cons x xs')
    with * have "(Query q, Rows rows) \<in> set xs" "e \<in> set es" by auto
    then show ?thesis using assms unfolding creates_def by metis
  qed (use * in auto)
qed

lemma revive_listed_listed:
  assumes "Liercd env = NewRouted hosts LookupLiercd" "runs (revive_listed env age inst batch pause) es r"
  shows "only_listed (SelectRevive age inst (stored_instance inst)) es"
proof -
  let ?q = "SelectRevive age inst (stored_instance inst)"
  let ?rest = "\<lambda>conns. attempt (revive_loop env batch pause conns 0 0) (\<lambda>(started, failed).
     say (line (''started '' @ show_nat started @ '', failed '' @ show_nat failed))
       (if failed > 0 then raise (Err (show_nat failed @ '' connection(s) failed to start'')) else return ()))"
  have o: "only (\<lambda>x. harmless x \<or> creates conns x) (?rest conns)" for conns
    by (rule only_attempt [OF _ only_revive_loop [OF assms(1) subset_refl]]) (auto simp: only_simps split: prod.split)
  from assms(2) [unfolded revive_listed_def] show ?thesis
  proof (cases rule: runs_attempt_query_all)
    case (2 rows conns es2)
    then show ?thesis using only_runs [OF o 2(3)] scan_rows_texts [OF 2(2)] by (simp add: only_listed_rows)
  qed (simp add: only_listed_harmless)
qed

lemma revive_listed_paced:
  assumes "Liercd env = NewRouted hosts LookupLiercd" "1 \<le> batch" "in_pace pause (nat batch) 0 h"
  shows "wp (revive_listed env age inst batch pause) (\<lambda>h' _. paced pause (nat batch) 0 h') h"
proof -
  have b: "0 < nat batch" "int (nat batch) = batch" using assms(2) by simp_all
  have loop: "wp (attempt (revive_loop env batch pause conns 0 0) (\<lambda>(started, failed).
     say (line (''started '' @ show_nat started @ '', failed '' @ show_nat failed))
       (if failed > 0 then raise (Err (show_nat failed @ '' connection(s) failed to start'')) else return ())))
     (\<lambda>h' _. paced pause (nat batch) 0 h') h" if "in_pace pause (nat batch) 0 h" for h conns
    unfolding wp_attempt
  proof (rule wp_mono)
    show "wp (revive_loop env batch pause conns 0 0) (\<lambda>h' _. paced pause (nat batch) 0 h') h"
      using wp_revive_loop [OF assms(1) b(1), where s = 0 and f = 0 and conns = conns] that unfolding b(2) by simp
    have "paced pause (nat batch) 0 h \<Longrightarrow> paced pause (nat batch) 0 (h @ [(Print s, Done)])" for h s
      by (induction h arbitrary: rule: rev_induct) (auto simp: paced_append)
    then show "paced pause (nat batch) 0 h \<Longrightarrow> (case a of Inl e \<Rightarrow> paced pause (nat batch) 0 h
      | Inr a \<Rightarrow> wp (case a of (started, failed) \<Rightarrow>
     say (line (''started '' @ show_nat started @ '', failed '' @ show_nat failed))
       (if failed > 0 then raise (Err (show_nat failed @ '' connection(s) failed to start'')) else return ()))
       (\<lambda>h' _. paced pause (nat batch) 0 h') h)" for h and a :: "goerr + nat \<times> nat"
      by (auto simp: wp_simps split: sum.split)
  qed
  have q: "in_pace pause (nat batch) 0 (h @ [(Query q, rep)])" for q rep
    by (rule in_pace_queries [OF assms(3)]) simp_all
  show ?thesis unfolding revive_listed_def
    using loop [OF q] in_pace_paced [OF q] by (auto simp: wp_attempt wp_query_all split: sum.split)
qed

text \<open>
  C35. Whatever the services answer, and also when the command is interrupted: the only thing revive
  does that changes anything is to create, with its saved config, a connection that the database
  had listed before; and it never sends more than \<^verbatim>\<open>--batch\<close> creates without having slept
  through a pause in between.
\<close>

theorem revive_paced:
  assumes "reaches (revive (OpenEnv hosts stdin tty now) age inst batch pause wait args) es p"
  shows "paced pause (nat batch) 0 es \<and>
    (\<forall>xs e ys. es = xs @ e # ys \<longrightarrow> harmless (fst e) \<or>
      (\<exists>d rows i config b. ParseDuration age = Some d \<and> (Query (SelectRevive d inst (stored_instance inst)), Rows rows) \<in> set xs \<and>
         [Text i, Text config] \<in> set rows \<and> fst e = Http b POST (trimSlash (i @ ''/create'')) (Some config)))"
    (is "?I es")
proof (rule interrupted [OF _ _ assms])
  show "?I (xs @ ys) \<Longrightarrow> ?I xs" for xs ys
    by (simp add: paced_append) (metis append.assoc append_Cons)
  let ?env = "OpenEnv hosts stdin tty now"
  have env: "Liercd ?env = NewRouted hosts LookupLiercd" by (simp add: OpenEnv_def)
  fix es r assume "runs (revive ?env age inst batch pause wait args) es r"
  then consider "es = []"
    | (go) d where "ParseDuration age = Some d" "1 \<le> batch"
        "runs (attempt (if wait > 0 then waitForInstance ?env inst wait else return ()) (\<lambda>_. revive_listed ?env d inst batch pause)) es r"
    unfolding revive_def revive_flags_def by (auto split: option.splits if_splits)
  then show "?I es"
  proof cases
    case go
    let ?wait = "if wait > 0 then waitForInstance ?env inst wait else return ()"
    have waits: "\<forall>e\<in>set es. harmless (fst e)" if "runs ?wait es r" for es r
      using only_runs [OF _ that, of harmless] only_waitForInstance by (auto split: if_splits)
    have "?I es" if "paced pause (nat batch) 0 es" "only_listed (SelectRevive d inst (stored_instance inst)) es"
      using that go(1) unfolding only_listed_def by blast
    moreover from go(3) have "paced pause (nat batch) 0 es \<and> only_listed (SelectRevive d inst (stored_instance inst)) es"
      unfolding runs_attempt
    proof (elim disjE exE conjE)
      fix e assume "runs ?wait es (Inl e)"
      then show ?thesis using waits in_pace_paced [OF in_pace_harmless] only_listed_harmless by blast
    next
      fix es1 a es2 assume *: "es = es1 @ es2" "runs ?wait es1 (Inr a)" "runs (revive_listed ?env d inst batch pause) es2 r"
      have "paced pause (nat batch) 0 (es1 @ es2)"
        using revive_listed_paced [OF env go(2) in_pace_harmless [OF waits [OF *(2)]]] *(3) unfolding wp_iff by blast
      then show ?thesis using only_listed_append [OF waits [OF *(2)] revive_listed_listed [OF env *(3)]] *(1) by simp
    qed
    ultimately show ?thesis by blast
  qed (simp)
qed

theorem revive_paced_witness:
  "\<exists>es p. reaches (revive (OpenEnv \<lparr>Main = ''m'', Next = ''''\<rparr> None False 0) ''48h'' '''' 1 5 0 []) es p \<and>
     length (filter (\<lambda>e. case fst e of Http _ m _ _ \<Rightarrow> m = POST | _ \<Rightarrow> False) es) = 2 \<and> paced 5 1 0 es"
proof -
  let ?p = "revive (OpenEnv \<lparr>Main = ''m'', Next = ''''\<rparr> None False 0) ''48h'' '''' 1 5 0 []"
  let ?script = "[Rows [[Text ''a'', Text ''{}''], [Text ''b'', Text ''{}'']],
    Rows [[Null]], Responded \<lparr>Status = 4, Body = ''''\<rparr>, Rows [[Null]], Responded \<lparr>Status = 200, Body = ''''\<rparr>,
    Rows [[Null]], Responded \<lparr>Status = 4, Body = ''''\<rparr>, Rows [[Null]], Responded \<lparr>Status = 200, Body = ''''\<rparr>]"
  have c: "length (filter (\<lambda>e. case fst e of Http _ m _ _ \<Rightarrow> m = POST | _ \<Rightarrow> False) (fst (exec scripted ?p ?script))) = 2"
    by code_simp
  obtain es r s where e: "exec scripted ?p ?script = (es, r, s)" by (metis prod_cases3)
  show ?thesis using c revive_paced [OF runs_reaches [OF scripted.exec_runs [OF e]]] runs_reaches [OF scripted.exec_runs [OF e]]
    by (intro exI [of _ es] exI [of _ "Ret r"]) (simp add: e)
qed

end
