(* ===== verification/Inactive.thy ===== *)
theory Inactive
  imports Revive
begin

text \<open>
  The commands about users who have not logged in for long: the list of them (\<^verbatim>\<open>inactive_users.go\<close>) and
  stopping their connections (\<^verbatim>\<open>stop_inactive.go\<close>). The property says whose connections are stopped,
  for any content of the database.
\<close>

section \<open>inactive-users\<close>

definition verifiedState :: "bool option \<Rightarrow> string" where
  "verifiedState v = (case v of None \<Rightarrow> ''grandfathered'' | Some True \<Rightarrow> ''verified'' | Some False \<Rightarrow> ''unverified'')"

text \<open>A column scanned into a pointer: NULL is nil.\<close>

definition scan_null :: "(cell \<Rightarrow> goerr + 'a) \<Rightarrow> cell \<Rightarrow> goerr + 'a option" where
  "scan_null f c = (if c = Null then Inr None else (case f c of Inl e \<Rightarrow> Inl e | Inr x \<Rightarrow> Inr (Some x)))"

definition inactive_user_line :: "int \<Rightarrow> string \<times> string \<times> string \<times> bool option \<times> int option \<times> int option \<times> int \<Rightarrow> string" where
  "inactive_user_line now x = (case x of (i, username, email, verified, lastLogin, joined, conns) \<Rightarrow>
     (let state = verifiedState verified;
          email = (if state \<noteq> ''verified'' then email @ '' ('' @ state @ '')'' else email)
      in i @ ''  '' @ username @ ''  '' @ email @ ''  last login '' @ when' now lastLogin ''never'' @
         ''  registered '' @ when' now joined ''unknown'' @ ''  '' @ show_int conns @ '' connections''))"

text \<open>Each row is printed before the next is read.\<close>

fun list_inactive :: "int \<Rightarrow> cell list list \<Rightarrow> nat \<Rightarrow> (goerr + nat) prog" where
  "list_inactive now [] n = return n"
| "list_inactive now (row # rows) n =
     (case scan_then scan_string (scan_then scan_string (scan_then scan_string (scan_then (scan_null scan_bool)
         (scan3 (scan_null scan_int) (scan_null scan_int) scan_int)))) row of
        Inl err \<Rightarrow> raise err
      | Inr x \<Rightarrow> say (line (inactive_user_line now x)) (list_inactive now rows (n + 1)))"

definition since_required :: "string \<Rightarrow> string \<Rightarrow> goerr option" where
  "since_required s example = (if s = '''' then Some (UsageError (''--since is required, e.g. --since '' @ example)) else None)"

definition inactiveUsers :: "env \<Rightarrow> string \<Rightarrow> string list \<Rightarrow> (goerr + unit) prog" where
  "inactiveUsers env age args =
     (case since_required age ''90d'' of
        Some err \<Rightarrow> raise err
      | None \<Rightarrow> (case parseSince age of
          None \<Rightarrow> raise (UsageError ''--since needs a duration such as 90d or 48h'')
        | Some d \<Rightarrow>
            if args \<noteq> [] then raise (UsageError ''inactive-users takes no arguments'')
            else (let cutoff = Now env - d in
              attempt (query (SelectInactiveUsers cutoff)) (\<lambda>rows.
              attempt (list_inactive (Now env) rows 0) (\<lambda>n.
              say_err (line (show_nat n @ '' user(s) haven't logged in since '' @ format_time cutoff @ '' UTC ('' @ age @ '')''))
                (return ()))))))"

section \<open>stop-inactive\<close>

definition stopInactiveFloor :: int where
  "stopInactiveFloor = 168 * 3600000000000"

text \<open>The rows: connection, instance, config, user, user name; an empty instance is main.\<close>

type_synonym inactive_conn = "string \<times> string \<times> string \<times> string \<times> string"

definition scan_inactive :: "cell list \<Rightarrow> goerr + inactive_conn" where
  "scan_inactive = scan_then scan_string (scan_then scan_string (scan3 scan_string scan_string scan_string))"

definition instance_or_main :: "string \<Rightarrow> string" where
  "instance_or_main inst = (if inst = '''' then ''main'' else inst)"

text \<open>
  What is sent to liercd, and the loop: how many were stopped (or would be), how many failed, and the
  users they are of.
\<close>

definition stop_request :: "client \<Rightarrow> bool \<Rightarrow> string \<Rightarrow> (goerr + response) prog" where
  "stop_request lc stp i = (if stp then Do lc POST (i @ ''/destroy'') None else Do lc GET (i @ ''/status'') None)"

fun stop_loop :: "env \<Rightarrow> bool \<Rightarrow> inactive_conn list \<Rightarrow> nat \<Rightarrow> nat \<Rightarrow> string list \<Rightarrow> (goerr + nat \<times> nat \<times> string list) prog" where
  "stop_loop env stp [] n failed us = return (n, failed, us)"
| "stop_loop env stp ((i, inst0, config, u, username) # conns) n failed us =
     (let inst = instance_or_main inst0 in
      attempt ctx_err (\<lambda>_. case For (Liercd env) inst of
        Inl err \<Rightarrow> say (line (i @ '': '' @ err_text err)) (stop_loop env stp conns n (failed + 1) us)
      | Inr lc \<Rightarrow> bind (stop_request lc stp i) (\<lambda>r. case r of
          Inl err \<Rightarrow> say (line (i @ '': liercd '' @ inst @ '' isn't reachable: '' @ err_text err))
            (stop_loop env stp conns n (failed + 1) us)
        | Inr res \<Rightarrow>
            if Status res = 200 then
              say (line (i @ ''  '' @ username @ ''  '' @ hostPort config @ ''  '' @ inst))
                (stop_loop env stp conns (n + 1) failed (List.insert u us))
            else if Status res = 404 then stop_loop env stp conns n failed us
            else say (line (i @ '': liercd said '' @ statusLine (Status res)))
              (stop_loop env stp conns n (failed + 1) us))))"

definition stop_report :: "bool \<Rightarrow> nat \<times> nat \<times> string list \<Rightarrow> (goerr + unit) prog" where
  "stop_report stp x = (case x of (n, failed, us) \<Rightarrow>
     (let end = (if failed > 0 then raise (Err (show_nat failed @ '' connection(s) couldn't be checked or stopped'')) else return ());
          count = show_nat n @ '' connection(s) of '' @ show_nat (length us) @ '' inactive user(s)''
      in if stp then say (line (''stopped '' @ count)) end
         else say (line (''would stop '' @ count))
           ((if n > 0 then say (line ''run again with --stop to stop them'') else (\<lambda>p. p)) end)))"

definition stopInactive :: "env \<Rightarrow> string \<Rightarrow> bool \<Rightarrow> string list \<Rightarrow> (goerr + unit) prog" where
  "stopInactive env age stp args =
     (case since_required age ''30d'' of
        Some err \<Rightarrow> raise err
      | None \<Rightarrow> (case parseSince age of
          None \<Rightarrow> raise (UsageError ''--since needs a duration such as 30d or 720h'')
        | Some d \<Rightarrow>
            if d < stopInactiveFloor then raise (UsageError (''--since must be at least 7d: every liercd restart revives users '' @
              ''active in the last 7 days (revive --since 168h)''))
            else if args \<noteq> [] then raise (UsageError ''stop-inactive takes no arguments'')
            else attempt (query_all (SelectInactive (Now env - d)) scan_inactive) (\<lambda>conns.
              attempt (stop_loop env stp conns 0 0 []) (stop_report stp))))"

section \<open>Only connections of inactive users are stopped\<close>

definition stops :: "env \<Rightarrow> inactive_conn list \<Rightarrow> action \<Rightarrow> bool" where
  "stops env conns x \<longleftrightarrow> (\<exists>i inst config u name lc. (i, inst, config, u, name) \<in> set conns \<and>
     For (Liercd env) (instance_or_main inst) = Inr lc \<and> x = Http (BaseURL lc) POST (trimSlash (i @ ''/destroy'')) None)"

lemma only_stop_loop:
  "set conns \<subseteq> set all \<Longrightarrow> only (\<lambda>x. harmless x \<or> stp \<and> stops env all x) (stop_loop env stp conns n f us)"
proof (induction conns arbitrary: n f us)
  case (Cons c conns)
  obtain i inst config u name where c: "c = (i, inst, config, u, name)" by (cases c)
  have IH: "only (\<lambda>x. harmless x \<or> stp \<and> stops env all x) (stop_loop env stp conns n f us)" for n f us
    using Cons by simp
  have "only (\<lambda>x. harmless x \<or> stp \<and> stops env all x) (stop_request lc stp i)"
    if "For (Liercd env) (instance_or_main inst) = Inr lc" for lc
  proof -
    have "stops env all (Http (BaseURL lc) POST (trimSlash (i @ ''/destroy'')) None)"
      unfolding stops_def using that Cons.prems unfolding c by (metis insert_subset list.simps(15))
    then show ?thesis using For_pinned [OF that] by (simp add: stop_request_def only_simps)
  qed
  then show ?case unfolding c stop_loop.simps
    by (auto intro!: only_attempt only_bind IH simp: only_simps Let_def split: sum.split)
qed simp

lemma scan_inactive_row:
  "scan_inactive row = Inr (i, inst, config, u, name) \<Longrightarrow> row = [Text i, Text inst, Text config, Text u, Text name]"
  unfolding scan_inactive_def scan_then_def
  by (auto split: list.splits sum.splits elim!: scan_string.elims scan3.elims scan2.elims)

lemma scan_inactive_rows:
  "scan_rows scan_inactive rows = Inr conns \<Longrightarrow> (i, inst, config, u, name) \<in> set conns \<Longrightarrow>
    [Text i, Text inst, Text config, Text u, Text name] \<in> set rows"
  by (induction rows arbitrary: conns) (auto split: sum.splits dest: scan_inactive_row)
lemma set_map_filter: "set (List.map_filter f xs) = {y. \<exists>x\<in>set xs. f x = Some y}"
  by (induction xs) (auto simp: List.map_filter_simps split: option.split)

lemma owner_of_inactive:
  assumes "(c, u) \<in> set (inactive_connections t cutoff)"
  shows "c \<in> set (connections t) \<and> owner_row t (c_user c) = Some u \<and> (\<forall>l. u_last_login u = Some l \<longrightarrow> l < cutoff)"
  using assms unfolding inactive_connections_def set_sort set_map_filter
  by (auto split: option.splits if_splits)

lemma Now_OpenEnv: "Now (OpenEnv hosts stdin tty now) = now"
  by (simp add: OpenEnv_def)

text \<open>
  C36. Whatever liercd answers: the only thing stop-inactive does that changes anything is, with
  \<^verbatim>\<open>--stop\<close>, to destroy connections on the instance their row names, and if the rows it is given are
  those of a database, every connection it destroys is one of that database whose owner has never
  logged in or last did more than seven days ago.
\<close>

theorem stopInactive_only_inactive:
  assumes "runs (stopInactive (OpenEnv hosts stdin tty now) age stp args) es r"
    "\<And>cutoff rows. (Query (SelectInactive cutoff), Rows rows) \<in> set es \<Longrightarrow> rows = answer (SelectInactive cutoff) t"
  shows "\<forall>e\<in>set es. harmless (fst e) \<or>
    stp \<and> (\<exists>c\<in>set (connections t). \<exists>u. owner_row t (c_user c) = Some u \<and>
      (\<forall>l. u_last_login u = Some l \<longrightarrow> l < now - 604800000000000) \<and>
      fst e = Http (address hosts (instance_of c)) POST (trimSlash (c_id c @ ''/destroy'')) None)"
proof -
  let ?env = "OpenEnv hosts stdin tty now"
  let ?rest = "\<lambda>conns. attempt (stop_loop ?env stp conns 0 0 []) (stop_report stp)"
  have o: "only (\<lambda>x. harmless x \<or> stp \<and> stops ?env conns x) (?rest conns)" for conns
    by (rule only_attempt [OF _ only_stop_loop [OF subset_refl]])
      (auto simp: stop_report_def only_simps Let_def split: prod.split)
  from assms(1) consider "es = []"
    | (go) d where "stopInactiveFloor \<le> d" "runs (attempt (query_all (SelectInactive (now - d)) scan_inactive) ?rest) es r"
    unfolding stopInactive_def Now_OpenEnv by (auto simp: not_less split: option.splits if_splits)
  then show ?thesis
  proof cases
    case go
    from go(2) show ?thesis
    proof (cases rule: runs_attempt_query_all)
      case (2 rows conns es2)
      have rows: "rows = answer (SelectInactive (now - d)) t" using assms(2) 2(1) by auto
      have "\<exists>c\<in>set (connections t). \<exists>u. owner_row t (c_user c) = Some u \<and>
          (\<forall>l. u_last_login u = Some l \<longrightarrow> l < now - 604800000000000) \<and>
          x = Http (address hosts (instance_of c)) POST (trimSlash (c_id c @ ''/destroy'')) None" if "stops ?env conns x" for x
      proof -
        from that obtain i inst config u0 name lc where s: "(i, inst, config, u0, name) \<in> set conns"
          "For (Liercd ?env) (instance_or_main inst) = Inr lc" "x = Http (BaseURL lc) POST (trimSlash (i @ ''/destroy'')) None"
          unfolding stops_def by blast
        have "[Text i, Text inst, Text config, Text u0, Text name] \<in> set (answer (SelectInactive (now - d)) t)"
          using scan_inactive_rows [OF 2(2) s(1)] rows by simp
        then obtain c u where c: "(c, u) \<in> set (inactive_connections t (now - d))" "c_id c = i" "coalesce (c_liercd c) = inst" by auto
        have "BaseURL lc = address hosts (instance_of c)"
          using s(2) c(3) by (auto simp: For_iff OpenEnv_def address_def instance_of_def instance_or_main_def split: if_splits)
        moreover have "l < now - 604800000000000" if "u_last_login u = Some l" for l
          using owner_of_inactive [OF c(1)] that go(1) unfolding stopInactiveFloor_def by force
        ultimately show ?thesis using owner_of_inactive [OF c(1)] s(3) c(2) by blast
      qed
      then show ?thesis using only_runs [OF o 2(3)] 2(1) by fastforce
    qed simp
  qed simp
qed

theorem stopInactive_only_inactive_witness:
  "\<exists>es. runs (stopInactive (OpenEnv \<lparr>Main = ''m'', Next = ''''\<rparr> None False 604800000000009) ''7d'' True []) es (Inr ()) \<and>
     (Http (baseURL ''m'') POST ''c/destroy'' None, Responded \<lparr>Status = 200, Body = ''''\<rparr>) \<in> set es \<and>
     (\<forall>e\<in>set es. harmless (fst e) \<or> fst e = Http (baseURL ''m'') POST ''c/destroy'' None)"
proof -
  let ?t = "\<lparr>users = [\<lparr>u_id = ''u'', u_email = ''b@x'', u_username = ''bob'', u_verified = None, u_last_login = Some 8\<rparr>],
    connections = [\<lparr>c_id = ''c'', c_user = ''u'', c_config = ''{}'', c_liercd = None\<rparr>], logs = [], seens = [], privates = [],
    prefs = [], web_pushes = [], clock = 0\<rparr>"
  let ?p = "stopInactive (OpenEnv \<lparr>Main = ''m'', Next = ''''\<rparr> None False 604800000000009) ''7d'' True []"
  let ?script = "[Rows [[Text ''c'', Text '''', Text ''{}'', Text ''u'', Text ''bob'']], Responded \<lparr>Status = 200, Body = ''''\<rparr>]"
  let ?ok = "\<lambda>e. case e of (Query (SelectInactive n), Rows rows) \<Rightarrow> rows = [[Text ''c'', Text [], Text ''{}'', Text ''u'', Text ''bob'']] \<and> n = 9 | _ \<Rightarrow> True"
  have rows: "answer (SelectInactive 9) ?t = [[Text ''c'', Text [], Text ''{}'', Text ''u'', Text ''bob'']]" by code_simp
  have c: "list_all ?ok (fst (exec scripted ?p ?script)) \<and> fst (snd (exec scripted ?p ?script)) = Inr () \<and>
      (Http (baseURL ''m'') POST ''c/destroy'' None, Responded \<lparr>Status = 200, Body = []\<rparr>) \<in> set (fst (exec scripted ?p ?script))"
    by code_simp
  obtain es r s where e: "exec scripted ?p ?script = (es, r, s)" by (metis prod_cases3)
  have "rows = answer (SelectInactive n) ?t" if "(Query (SelectInactive n), Rows rows) \<in> set es" for n rows
    using that c rows unfolding list_all_iff by (fastforce simp: e)
  from stopInactive_only_inactive [OF scripted.exec_runs [OF e] this]
  have "\<forall>e\<in>set es. harmless (fst e) \<or> fst e = Http (baseURL ''m'') POST ''c/destroy'' None"
    by (auto simp: address_def instance_of_def coalesce_def)
  then show ?thesis using c scripted.exec_runs [OF e] by (intro exI [of _ es]) (simp add: e)
qed

end
