(* ===== verification/Info.thy ===== *)
theory Info
  imports Inactive Replay Delete
begin

text \<open>
  The commands that show users and connections: \<^verbatim>\<open>user_info.go\<close>, \<^verbatim>\<open>connection_info.go\<close> and
  \<^verbatim>\<open>connection_list.go\<close>, with the decoding of liercd's status and the comparison of the running with
  the saved config. The property says that no password is shown. The texts of \<^verbatim>\<open>encoding/json\<close>'s errors
  are a parameter; of members with the same name the last counts.
\<close>

section \<open>Decoding into typed fields\<close>

text \<open>\<open>None\<close> is a type error; a missing member and null are the zero value.\<close>

definition as_string :: "raw \<Rightarrow> string option" where
  "as_string v = (if v = '''' \<or> v = ''null'' then Some ''''
     else (case decode_first v of Some (JString s) \<Rightarrow> Some s | _ \<Rightarrow> None))"

definition as_bool :: "raw \<Rightarrow> bool option" where
  "as_bool v = (if v = '''' \<or> v = ''null'' \<or> v = ''false'' then Some False else if v = ''true'' then Some True else None)"

definition as_int :: "raw \<Rightarrow> int option" where
  "as_int v = (if v = '''' \<or> v = ''null'' then Some 0 else ParseInt v)"

definition as_strings :: "raw \<Rightarrow> string list option" where
  "as_strings v = Option.bind (as_array v) (map_all as_string)"

text \<open>Into a pointer to a struct.\<close>

definition as_pointer :: "((string \<times> raw) list \<Rightarrow> 'a option) \<Rightarrow> raw \<Rightarrow> 'a option option" where
  "as_pointer f v = (if v = '''' \<or> v = ''null'' then Some None else Option.bind (as_object v) (\<lambda>es. map_option Some (f es)))"

section \<open>liercd's status\<close>

record liercdConfig =
  lc_host :: string
  lc_port :: int
  lc_ssl :: bool
  lc_nick :: string
  lc_user :: string
  lc_pass :: string
  lc_sasl :: bool
  lc_alias :: string

text \<open>\<open>ld_status\<close> is whether it is connected, and a message; of the channels only the number is kept.\<close>

record liercdData =
  ld_nick :: string
  ld_registered :: bool
  ld_config :: "liercdConfig option"
  ld_status :: "(bool \<times> string) option"
  ld_isupport :: "string list"
  ld_caps :: "string list"
  ld_channels :: nat

definition decode_config :: "(string \<times> raw) list \<Rightarrow> liercdConfig option" where
  "decode_config es =
     (case (as_string (member es ''Host''), as_int (member es ''Port''), as_bool (member es ''Ssl''), as_string (member es ''Nick''),
            as_string (member es ''User'')) of
        (Some h, Some p, Some s, Some n, Some u) \<Rightarrow>
          (case (as_string (member es ''Pass''), as_bool (member es ''SASL''), as_string (member es ''Alias''),
                 as_strings (member es ''Channels''), as_strings (member es ''Highlight'')) of
             (Some w, Some l, Some a, Some _, Some _) \<Rightarrow> Some
               \<lparr>lc_host = h, lc_port = p, lc_ssl = s, lc_nick = n, lc_user = u, lc_pass = w, lc_sasl = l, lc_alias = a\<rparr>
           | _ \<Rightarrow> None)
      | _ \<Rightarrow> None)"

definition decode_data :: "string \<Rightarrow> liercdData option" where
  "decode_data body = (case Option.bind (unmarshal body) as_object of
     None \<Rightarrow> None
   | Some es \<Rightarrow>
       (case (as_string (member es ''Nick''), as_bool (member es ''Registered''), as_pointer decode_config (member es ''Config''),
              as_pointer (\<lambda>st. case (as_bool (member st ''Connected''), as_string (member st ''Message'')) of
                  (Some c, Some m) \<Rightarrow> Some (c, m) | _ \<Rightarrow> None) (member es ''Status'')) of
          (Some n, Some g, Some cfg, Some st) \<Rightarrow>
            (case (as_strings (member es ''Isupport''), as_strings (member es ''CapsAcked''), as_array (member es ''Channels'')) of
               (Some is, Some cs, Some chs) \<Rightarrow> Some
                 \<lparr>ld_nick = n, ld_registered = g, ld_config = cfg, ld_status = st, ld_isupport = is, ld_caps = cs, ld_channels = length chs\<rparr>
             | _ \<Rightarrow> None)
        | _ \<Rightarrow> None))"

definition connected :: "liercdData \<Rightarrow> bool" where
  "connected d = (case ld_status d of Some (c, _) \<Rightarrow> c | None \<Rightarrow> False)"

definition liercdStatus :: "(string \<Rightarrow> string) \<Rightarrow> env \<Rightarrow> string \<Rightarrow> (liercdData option \<times> string) prog" where
  "liercdStatus json_err env i = bind (Do (Liercd env) GET (i @ ''/status'') None) (\<lambda>r. Ret (case r of
     Inl err \<Rightarrow> (None, ''liercd unreachable: '' @ err_text err)
   | Inr res \<Rightarrow>
       if Status res = 404 then (None, ''not running'')
       else if Status res \<noteq> 200 then (None, ''liercd said '' @ statusLine (Status res))
       else (case decode_data (Body res) of
           None \<Rightarrow> (None, ''running (unreadable status: '' @ json_err (Body res) @ '')'')
         | Some d \<Rightarrow> (Some d, if connected d then ''running, connected'' else ''running, not connected''))))"

text \<open>\<^verbatim>\<open>liercdState\<close> reads less of the status.\<close>

definition liercdState :: "env \<Rightarrow> string \<Rightarrow> string prog" where
  "liercdState env i = bind (Do (Liercd env) GET (i @ ''/status'') None) (\<lambda>r. Ret (case r of
     Inl err \<Rightarrow> ''liercd unreachable''
   | Inr res \<Rightarrow>
       if Status res = 404 then ''not running''
       else if Status res \<noteq> 200 then ''liercd said '' @ statusLine (Status res)
       else (case Option.bind (unmarshal (Body res)) as_object of
           None \<Rightarrow> ''running''
         | Some es \<Rightarrow> (case (as_string (member es ''Nick''),
               Option.bind (as_object (member es ''Status'')) (\<lambda>st. as_bool (member st ''Connected''))) of
             (Some n, Some True) \<Rightarrow> ''connected as '' @ n
           | (Some n, Some False) \<Rightarrow> ''running, not connected''
           | _ \<Rightarrow> ''running''))))"

definition instanceName :: "string \<Rightarrow> (goerr + string) prog" where
  "instanceName i = attempt (LookupLiercd i) (\<lambda>inst. return (instance_or_main inst))"

section \<open>The saved config\<close>

definition format_bool :: "bool \<Rightarrow> string" where
  "format_bool b = (if b then ''true'' else ''false'')"

definition display :: "json \<Rightarrow> string" where
  "display v = (case Display v of None \<Rightarrow> '''' | Some s \<Rightarrow> s)"

definition savedText :: "(string \<times> json) list \<Rightarrow> string \<Rightarrow> string" where
  "savedText es k = (case field es k of JBool b \<Rightarrow> format_bool b | v \<Rightarrow> display v)"

definition savedList :: "(string \<times> json) list \<Rightarrow> string \<Rightarrow> string" where
  "savedList es k =
     (let out = List.map_filter Display (case field es k of JArray items \<Rightarrow> items | _ \<Rightarrow> [])
      in if out = [] then ''none'' else join '', '' out)"

definition hostPortOf :: "(string \<times> json) list \<Rightarrow> string" where
  "hostPortOf es = (let part = (\<lambda>k. case Display (field es k) of None \<Rightarrow> ''?'' | Some s \<Rightarrow> s) in part ''Host'' @ '':'' @ part ''Port'')"

text \<open>The lines \<^verbatim>\<open>printSavedConfig\<close> prints.\<close>

definition saved_lines :: "(string \<times> json) list \<Rightarrow> string list" where
  "saved_lines es =
     [''  server:      '' @ hostPortOf es @ (if field es ''Ssl'' = JBool True then '' (tls)'' else ''''),
      ''  nick:        '' @ savedText es ''Nick'',
      (if savedText es ''User'' \<noteq> '''' then ''  username:    '' @ savedText es ''User'' else ''  username:    (uses nick)''),
      (if savedText es ''Pass'' \<noteq> ''''
       then ''  password:    set, sent with '' @ (if field es ''SASL'' = JBool True then ''SASL'' else ''PASS'')
       else ''  password:    none'')] @
     (if savedText es ''Alias'' \<noteq> '''' then [''  alias:       '' @ savedText es ''Alias''] else []) @
     [''  channels:    '' @ savedList es ''Channels'',
      ''  highlight:   '' @ savedList es ''Highlight'']"

section \<open>The running config\<close>

definition orNone :: "string \<Rightarrow> string" where
  "orNone s = (if s = '''' then ''none'' else s)"

definition diff :: "(string \<times> json) list \<Rightarrow> string \<times> string \<Rightarrow> string list" where
  "diff es x = (case x of (k, running) \<Rightarrow>
     (let s = savedText es k; s = (if (k = ''Ssl'' \<or> k = ''SASL'') \<and> s = '''' then ''false'' else s)
      in if s = running then []
         else if k = ''Pass'' then [''Pass'']
         else [k @ '' (running '' @ orNone running @ '', saved '' @ orNone s @ '')'']))"

definition configDiffs :: "(string \<times> json) list option \<Rightarrow> liercdConfig option \<Rightarrow> string list" where
  "configDiffs saved cfg = (case (saved, cfg) of
     (Some es, Some c) \<Rightarrow> concat (map (diff es)
       [(''Host'', lc_host c), (''Port'', show_int (lc_port c)), (''Ssl'', format_bool (lc_ssl c)), (''Nick'', lc_nick c),
        (''User'', lc_user c), (''Pass'', lc_pass c), (''SASL'', format_bool (lc_sasl c)), (''Alias'', lc_alias c)])
   | _ \<Rightarrow> [])"

definition live_lines :: "liercdData \<Rightarrow> (string \<times> json) list option \<Rightarrow> string list" where
  "live_lines d saved =
     (case ld_status d of Some (_, m) \<Rightarrow> (if m \<noteq> '''' then [''  status:      '' @ m] else []) | None \<Rightarrow> []) @
     (if ld_nick d \<noteq> '''' then [''  nick:        '' @ ld_nick d] else []) @
     [''  registered:  '' @ (if ld_registered d then ''yes'' else ''no'')] @
     map (\<lambda>s. ''  network:     '' @ drop 8 s) (filter (\<lambda>s. has_prefix s ''NETWORK='') (ld_isupport d)) @
     (if ld_caps d \<noteq> [] then [''  caps:        '' @ join '', '' (sort (ld_caps d))] else []) @
     (if configDiffs saved (ld_config d) \<noteq> [] then [''  differs:     '' @ join ''; '' (configDiffs saved (ld_config d))] else []) @
     [''  joined:      '' @ show_nat (ld_channels d) @ '' channels'']"

section \<open>user-info\<close>

text \<open>\<^verbatim>\<open>describeConfig\<close>: \<open>ssl\<close> and \<open>sasl\<close> are the lower-case field names.\<close>

definition describeConfig :: "string \<Rightarrow> string" where
  "describeConfig raw = (case Decode raw of
     Some (JObject es) \<Rightarrow>
       (let flags = (if field es ''Ssl'' = JBool True then [''ssl''] else []) @ (if field es ''SASL'' = JBool True then [''sasl''] else []);
            channels = (case field es ''Channels'' of JArray cs \<Rightarrow> length cs | _ \<Rightarrow> 0)
        in join ''  '' ([hostPort raw] @
             (if display (field es ''Nick'') \<noteq> '''' then [''nick '' @ display (field es ''Nick'')] else []) @
             (if flags \<noteq> [] then [join '' '' flags] else []) @
             (if display (field es ''Alias'') \<noteq> '''' then [''alias '' @ display (field es ''Alias'')] else []) @
             [show_nat channels @ '' channels''] @
             (if display (field es ''Pass'') \<noteq> '''' then [''server password set''] else [])))
   | _ \<Rightarrow> ''config isn't a JSON object'')"

record user_info =
  ui_id :: string
  ui_username :: string
  ui_email :: string
  ui_verified :: "bool option"
  ui_last_login :: "int option"
  ui_registered :: "int option"
  ui_legacy :: "string option"
  ui_hash :: "string option"

definition scan_user_info :: "cell list \<Rightarrow> goerr + user_info" where
  "scan_user_info row =
     (case scan_then scan_string (scan_then scan_string (scan_then scan_string (scan_then (scan_null scan_bool)
         (scan_then (scan_null scan_int) (scan3 (scan_null scan_int) scan_nullable scan_nullable))))) row of
        Inl err \<Rightarrow> Inl err
      | Inr (i, n, e, v, l, g, p, h) \<Rightarrow> Inr
          \<lparr>ui_id = i, ui_username = n, ui_email = e, ui_verified = v, ui_last_login = l, ui_registered = g, ui_legacy = p, ui_hash = h\<rparr>)"

definition password_state :: "user_info \<Rightarrow> string" where
  "password_state u =
     (if ui_hash u \<noteq> None \<and> ui_hash u \<noteq> Some '''' then ''bcrypt''
      else if ui_legacy u \<noteq> None \<and> ui_legacy u \<noteq> Some '''' then ''legacy (not yet moved to bcrypt)''
      else ''none'')"

definition user_lines :: "int \<Rightarrow> user_info \<Rightarrow> string list" where
  "user_lines now u =
     [ui_username u @ '' ('' @ ui_id u @ '')'',
      ''  email:       '' @ ui_email u @ '' ('' @ verifiedState (ui_verified u) @ '')'',
      ''  last login:  '' @ when' now (ui_last_login u) ''never'',
      ''  registered:  '' @ when' now (ui_registered u) ''unknown'',
      ''  password:    '' @ password_state u]"

fun show_conns :: "env \<Rightarrow> (string \<times> string) list \<Rightarrow> (goerr + unit) prog" where
  "show_conns env [] = return ()"
| "show_conns env ((i, config) # cs) = bind (liercdState env i) (\<lambda>state.
     say (line (''    '' @ i @ ''  '' @ describeConfig config @ ''  '' @ state))
       (attempt (instanceName i) (\<lambda>inst. say (line (''      liercd: '' @ inst)) (show_conns env cs))))"

definition show_user :: "env \<Rightarrow> user_info \<Rightarrow> (goerr + unit) prog" where
  "show_user env u = bind (print_all print (map line (user_lines (Now env) u))) (\<lambda>_.
     attempt (Connections (ui_id u)) (\<lambda>conns.
     say (line (''  connections: '' @ show_nat (length conns))) (show_conns env conns)))"

text \<open>The loop over the arguments; a blank line between two. \<open>missing\<close> is how many were not found.\<close>

definition blank_line :: "bool \<Rightarrow> 'a prog \<Rightarrow> 'a prog" where
  "blank_line first p = (if first then p else say (line '''') p)"

fun show_users :: "env \<Rightarrow> bool \<Rightarrow> string list \<Rightarrow> nat \<Rightarrow> (goerr + nat) prog" where
  "show_users env first [] missing = return missing"
| "show_users env first (who # ws) missing = blank_line first
     (bind (query_row (SelectUserInfo who) scan_user_info) (\<lambda>r. case r of
        Inl err \<Rightarrow> if err = ErrNoRows then say (line (who @ '': no such user'')) (show_users env False ws (missing + 1)) else raise err
      | Inr u \<Rightarrow> attempt (show_user env u) (\<lambda>_. show_users env False ws missing)))"

definition userInfo :: "env \<Rightarrow> string list \<Rightarrow> (goerr + unit) prog" where
  "userInfo env args =
     (if args = [] then raise (UsageError ''give a user id, username or email'')
      else attempt (show_users env True args 0) (\<lambda>missing.
        if missing > 0 then raise (Err (show_nat missing @ '' user(s) not found'')) else return ()))"

section \<open>connection-info\<close>

text \<open>The saved half of what is shown of a connection; its parsed config goes to the live half.\<close>

definition saved_config :: "string \<Rightarrow> (string \<times> json) list option" where
  "saved_config config = (case Decode config of Some (JObject es) \<Rightarrow> Some es | _ \<Rightarrow> None)"

definition show_saved :: "unicode \<Rightarrow> env \<Rightarrow> (string \<Rightarrow> string) \<Rightarrow> string \<Rightarrow> string \<times> string \<times> string option \<Rightarrow> (goerr + unit) prog" where
  "show_saved U env getenv i row = (case row of (u, config, username) \<Rightarrow>
     say (line (''  user:        '' @ (case username of None \<Rightarrow> ''no such user'' | Some n \<Rightarrow> n) @ '' ('' @ u @ '')''))
     (attempt (instanceName i) (\<lambda>inst.
      bind (print_all print (map line ([''  liercd:      '' @ inst, ''saved config:''] @
        (case saved_config config of None \<Rightarrow> [] | Some es \<Rightarrow> saved_lines es)))) (\<lambda>_.
      bind (connectionProblem U getenv config True) (\<lambda>why.
      say (line (''  valid:       '' @ (if why = '''' then ''yes'' else ''no: '' @ why))) (return ()))))))"

definition show_live :: "(liercdData option \<times> string) \<Rightarrow> (string \<times> json) list option \<Rightarrow> unit prog" where
  "show_live x params = (case x of (got, state) \<Rightarrow>
     print_all print (map line ([''liercd:'', ''  state:       '' @ state] @
       (case got of None \<Rightarrow> [] | Some d \<Rightarrow> live_lines d params))))"

definition show_connection :: "(string \<Rightarrow> string) \<Rightarrow> unicode \<Rightarrow> env \<Rightarrow> (string \<Rightarrow> string) \<Rightarrow> string \<Rightarrow>
    (string \<times> string \<times> string option) option \<Rightarrow> (goerr + bool) prog" where
  "show_connection json_err U env getenv i saved = bind (liercdStatus json_err env i) (\<lambda>(got, state).
     if saved = None \<and> got = None then say (line (i @ '': no such connection'')) (return False)
     else say (line i)
       (case saved of
          None \<Rightarrow> say (line ''  saved:       no row in the database'') (bind (show_live (got, state) None) (\<lambda>_. return True))
        | Some (u, config, username) \<Rightarrow> attempt (show_saved U env getenv i (u, config, username)) (\<lambda>_.
            bind (show_live (got, state) (saved_config config)) (\<lambda>_. return True))))"

fun show_connections :: "(string \<Rightarrow> string) \<Rightarrow> unicode \<Rightarrow> env \<Rightarrow> (string \<Rightarrow> string) \<Rightarrow> bool \<Rightarrow> string list \<Rightarrow> nat \<Rightarrow> (goerr + nat) prog" where
  "show_connections json_err U env getenv first [] missing = return missing"
| "show_connections json_err U env getenv first (i # is) missing = blank_line first
     (bind (query_row (SelectConnectionOwner i) (scan3 scan_string scan_string scan_nullable)) (\<lambda>r. case r of
        Inl err \<Rightarrow>
          if err \<noteq> ErrNoRows then raise err
          else attempt (show_connection json_err U env getenv i None) (\<lambda>found.
            show_connections json_err U env getenv False is (if found then missing else missing + 1))
      | Inr saved \<Rightarrow> attempt (show_connection json_err U env getenv i (Some saved)) (\<lambda>_.
            show_connections json_err U env getenv False is missing)))"

definition connectionInfo :: "(string \<Rightarrow> string) \<Rightarrow> unicode \<Rightarrow> (string \<Rightarrow> string) \<Rightarrow> env \<Rightarrow> string list \<Rightarrow> (goerr + unit) prog" where
  "connectionInfo json_err U getenv env args =
     (if args = [] then raise (UsageError ''give one or more connection ids'')
      else attempt (show_connections json_err U env getenv True args 0) (\<lambda>missing.
        if missing > 0 then raise (Err (show_nat missing @ '' connection(s) not found'')) else return ()))"

section \<open>connection-list\<close>

fun list_conns :: "env \<Rightarrow> (string \<times> string \<times> string \<times> string \<times> string) list \<Rightarrow> (goerr + unit) prog" where
  "list_conns env [] = return ()"
| "list_conns env ((i, inst, userID, username, config) # cs) = attempt ctx_err (\<lambda>_.
     bind (liercdState env i) (\<lambda>state.
     say (line (i @ ''  '' @ inst @ ''  '' @ (if username = '''' then userID @ '' (no such user)'' else username) @ ''  '' @
         hostPort config @ ''  '' @ state))
       (list_conns env cs)))"

definition connectionList :: "env \<Rightarrow> string \<Rightarrow> string list \<Rightarrow> (goerr + unit) prog" where
  "connectionList env inst args =
     (if args \<noteq> [] then raise (UsageError ''connection-list takes no arguments'')
      else if bad_instance inst then raise (instances_are inst)
      else attempt (query_all (SelectConnectionList inst (stored_instance inst)) scan_inactive) (\<lambda>conns.
        attempt (list_conns env conns) (\<lambda>_.
        say_err (line (show_nat (length conns) @ '' connection(s)'')) (return ()))))"

section \<open>No password is shown\<close>

lemma savedText_other: "k \<noteq> ''Pass'' \<Longrightarrow> (\<And>k. k \<noteq> ''Pass'' \<Longrightarrow> field es k = field es' k) \<Longrightarrow> savedText es k = savedText es' k"
  by (simp add: savedText_def)

lemma savedText_JString: "field es k = JString p \<Longrightarrow> savedText es k = p"
  by (simp add: savedText_def display_def)

definition breaks_line :: "string \<Rightarrow> bool" where
  "breaks_line p \<longleftrightarrow> (\<exists>c\<in>set p. byte c \<in> {0x0D, 0x0A, 0})"

lemma clean_same:
  assumes "\<forall>k. k \<noteq> ''Pass'' \<longrightarrow> field es k = field es' k"
  shows "clean_host U es = clean_host U es'" "clean_port es = clean_port es'" "clean_nick U es = clean_nick U es'"
    "clean_user es = clean_user es'" "clean_channels es = clean_channels es'" "clean_highlight es = clean_highlight es'"
    "clean_alias es = clean_alias es'"
  unfolding clean_host_def clean_port_def clean_nick_def clean_user_def clean_channels_def clean_highlight_def clean_alias_def
  by (simp_all add: spec [OF assms, THEN mp])

lemma clean_pass_JString:
  "field es ''Pass'' = JString p \<Longrightarrow> clean_pass es =
     (if breaks_line p then Inl (Err ''Password can't contain line breaks'') else Inr (if p \<noteq> '''' then Some p else None))"
  by (simp add: clean_pass_def str_def ok_then_def refuse_if_def breaks_line_def)

text \<open>Whether a saved config is valid, and why not, only depends on whether the password has a line break.\<close>

lemma connectionProblem_pass:
  assumes "Decode config = Some (JObject es)" "Decode config' = Some (JObject es')"
    "\<forall>k. k \<noteq> ''Pass'' \<longrightarrow> field es k = field es' k"
    "field es ''Pass'' = JString p" "field es' ''Pass'' = JString p'" "breaks_line p \<longleftrightarrow> breaks_line p'"
  shows "connectionProblem U getenv config ask = connectionProblem U getenv config' ask"
  unfolding connectionProblem_def Clean_def assms(1,2) option.case json.case clean_same [OF assms(3)]
    clean_pass_JString [OF assms(4)] clean_pass_JString [OF assms(5)]
  by (simp add: ok_then_def spec [OF assms(3), THEN mp] assms(6) split: sum.split)

text \<open>
  C37. No password is shown. Take two saved configs that only differ in their passwords, neither
  empty. What user-info shows of them is the same. So is everything that connection-info does and
  shows in its saved half, the question to DNS and the verdict on the \<^verbatim>\<open>valid:\<close> line included, as long as
  both passwords, or neither, have a line break (a carriage return, a line feed or a zero byte, which
  the verdict reports as \<^verbatim>\<open>Password can't contain line breaks\<close>, without the password). And the lines
  about the running config are the same for two running passwords, as long as both equal, or both
  differ from, the saved one.
\<close>

theorem password_not_shown:
  assumes "Decode config = Some (JObject es)" "Decode config' = Some (JObject es')"
    "\<And>k. k \<noteq> ''Pass'' \<Longrightarrow> field es k = field es' k"
    "field es ''Pass'' = JString p" "field es' ''Pass'' = JString p'" "p \<noteq> ''''" "p' \<noteq> ''''"
    "(\<exists>c\<in>set p. byte c \<in> {0x0D, 0x0A, 0}) \<longleftrightarrow> (\<exists>c\<in>set p'. byte c \<in> {0x0D, 0x0A, 0})"
    "ld_config d = Some c" "w = p \<longleftrightarrow> w' = p'"
  shows "describeConfig config = describeConfig config' \<and>
    show_saved U env getenv i (u, config, name) = show_saved U env getenv i (u, config', name) \<and>
    live_lines (d\<lparr>ld_config := Some (c\<lparr>lc_pass := w\<rparr>)\<rparr>) (Some es) = live_lines (d\<lparr>ld_config := Some (c\<lparr>lc_pass := w'\<rparr>)\<rparr>) (Some es')"
proof (intro conjI)
  note same = assms(3)
  note text_same = savedText_other [OF _ same]
  have breaks: "breaks_line p \<longleftrightarrow> breaks_line p'" unfolding breaks_line_def by (rule assms(8))
  show "describeConfig config = describeConfig config'"
    unfolding describeConfig_def hostPort_def assms(1,2) option.case json.case Let_def
    by (simp add: same assms(4-7) display_def)
  have "saved_lines es = saved_lines es'"
    unfolding saved_lines_def hostPortOf_def savedList_def Let_def
    by (simp add: same text_same savedText_JString [OF assms(4)] savedText_JString [OF assms(5)] assms(6,7))
  moreover have "connectionProblem U getenv config True = connectionProblem U getenv config' True"
    by (rule connectionProblem_pass [OF assms(1,2) _ assms(4,5) breaks]) (simp add: same)
  ultimately show "show_saved U env getenv i (u, config, name) = show_saved U env getenv i (u, config', name)"
    by (simp add: show_saved_def saved_config_def assms(1,2))
  have "diff es (k, v) = diff es' (k, v)" if "k \<noteq> ''Pass''" for k v
    using that by (simp add: diff_def text_same)
  moreover have "diff es (''Pass'', w) = diff es' (''Pass'', w')"
    using assms(10) by (auto simp: diff_def savedText_JString [OF assms(4)] savedText_JString [OF assms(5)])
  ultimately have "configDiffs (Some es) (Some (c\<lparr>lc_pass := w\<rparr>)) = configDiffs (Some es') (Some (c\<lparr>lc_pass := w'\<rparr>))"
    by (simp add: configDiffs_def)
  then show "live_lines (d\<lparr>ld_config := Some (c\<lparr>lc_pass := w\<rparr>)\<rparr>) (Some es) = live_lines (d\<lparr>ld_config := Some (c\<lparr>lc_pass := w'\<rparr>)\<rparr>) (Some es')"
    by (simp add: live_lines_def)
qed

definition pass_config :: "string \<Rightarrow> json" where
  "pass_config p = JObject [(''Host'', JString ''irc.example.org''), (''Pass'', JString p)]"

theorem password_not_shown_witness:
  "show_saved plain_unicode (OpenEnv \<lparr>Main = '''', Next = ''''\<rparr> None False 0) (\<lambda>_. '''') ''c'' (''u'', print_json (pass_config ''secret''), None) =
   show_saved plain_unicode (OpenEnv \<lparr>Main = '''', Next = ''''\<rparr> None False 0) (\<lambda>_. '''') ''c'' (''u'', print_json (pass_config ''other''), None)"
proof -
  have d: "Decode (print_json (pass_config ''secret'')) = Some (JObject [(''Host'', JString ''irc.example.org''), (''Pass'', JString ''secret'')])"
    "Decode (print_json (pass_config ''other'')) = Some (JObject [(''Host'', JString ''irc.example.org''), (''Pass'', JString ''other'')])"
    unfolding pass_config_def Decode_def
    by (rule decode_first_print; simp add: max_depth_def valid_ascii byte_simps less_char_def)+
  let ?c = "\<lparr>lc_host = '''', lc_port = 0, lc_ssl = False, lc_nick = '''', lc_user = '''', lc_pass = '''', lc_sasl = False, lc_alias = ''''\<rparr>"
  let ?d = "\<lparr>ld_nick = '''', ld_registered = True, ld_config = Some ?c, ld_status = None, ld_isupport = [], ld_caps = [], ld_channels = 0\<rparr>"
  show ?thesis using password_not_shown [OF d, of "''secret''" "''other''" ?d ?c "''x''" "''y''"]
    by (simp add: field_def byte_simps)
qed

end
