(* ===== verification/Admin.thy ===== *)
theory Admin
  imports Info Codecs
begin

text \<open>
  The commands about open streams and passwords: \<^verbatim>\<open>stats.go\<close> (with the request to the stream server that
  \<^verbatim>\<open>Http.serveStats\<close> answers) and \<^verbatim>\<open>reset.go\<close>. bcrypt, the texts of \<^verbatim>\<open>encoding/json\<close>'s errors and
  \<^verbatim>\<open>strconv.Quote\<close> of a user agent (it needs Unicode's tables) are parameters.
\<close>

section \<open>stats and users\<close>

text \<open>\<^verbatim>\<open>streamStats\<close>, up to the decoding of the body.\<close>

definition streamStats :: "string \<Rightarrow> string \<Rightarrow> string \<Rightarrow> (goerr + string) prog" where
  "streamStats url key u =
     attempt (http_stats (url @ (if u \<noteq> '''' then ''?user='' @ query_escape u else '''')) key) (\<lambda>res.
       if Status res \<noteq> 200
       then raise (Err (''stream server said '' @ statusLine (Status res) @ '': '' @ TrimSpace (Body res)))
       else return (Body res))"

text \<open>Into a map from user ids to counts: in key order, the last of equal keys; an error is \<open>None\<close>.\<close>

definition decode_counts :: "string \<Rightarrow> (string \<times> int) list option" where
  "decode_counts body = Option.bind (Option.bind (unmarshal body) as_object) (\<lambda>es.
     map_option members (map_all (\<lambda>(k, v). map_option (\<lambda>n. (k, n)) (as_int v)) es))"

definition decode_streams :: "string \<Rightarrow> (string option \<times> int) list option" where
  "decode_streams body = Option.bind (Option.bind (unmarshal body) as_array) (map_all (\<lambda>v.
     Option.bind (as_object v) (\<lambda>es.
       let agent = member es ''agent'' in
       case (as_string agent, as_int (member es ''created'')) of
         (Some a, Some c) \<Rightarrow> Some (if agent = '''' \<or> agent = ''null'' then None else Some a, c)
       | _ \<Rightarrow> None)))"

text \<open>\<^verbatim>\<open>usernames\<close>: the last row of an id counts.\<close>

definition usernames :: "string list \<Rightarrow> (goerr + (string \<rightharpoonup> string)) prog" where
  "usernames ids = attempt (query_all (SelectUsernames ids) (scan2 scan_string scan_string)) (\<lambda>rows.
     return (map_of (rev rows)))"

text \<open>Most streams first, then by name, then by id.\<close>

definition by_count :: "(string \<times> int) list \<Rightarrow> (string \<rightharpoonup> string) \<Rightarrow> (string \<times> int) list" where
  "by_count counts names =
     sort_key (\<lambda>(i, n). - n) (sort_key (\<lambda>(i, n). case names i of None \<Rightarrow> ''?'' | Some s \<Rightarrow> s) counts)"

definition count_line :: "(string \<rightharpoonup> string) \<Rightarrow> string \<times> int \<Rightarrow> string" where
  "count_line names x = (case x of (i, n) \<Rightarrow>
     show_int n @ '' '' @ (case names i of None \<Rightarrow> ''?'' | Some s \<Rightarrow> s) @ '' ('' @ i @ '')'')"

definition get_counts :: "(string \<Rightarrow> goerr) \<Rightarrow> string \<Rightarrow> string \<Rightarrow> (goerr + (string \<times> int) list) prog" where
  "get_counts json_err url key = attempt (streamStats url key '''') (\<lambda>body.
     case decode_counts body of None \<Rightarrow> raise (json_err body) | Some counts \<Rightarrow> return counts)"

definition stats :: "(string \<Rightarrow> goerr) \<Rightarrow> string \<Rightarrow> string \<Rightarrow> (goerr + unit) prog" where
  "stats json_err url key = attempt (get_counts json_err url key) (\<lambda>counts.
     attempt (usernames (map fst counts)) (\<lambda>names.
     bind (print_all print (map (\<lambda>x. line (count_line names x)) (by_count counts names))) (\<lambda>_. return ())))"

text \<open>The users to show: those named, or everyone with a stream, by name.\<close>

fun named_users :: "string list \<Rightarrow> (goerr + (string \<times> string) list) prog" where
  "named_users [] = return []"
| "named_users (arg # args) =
     bind (query_row (SelectUserNamed arg) (scan2 scan_string scan_string)) (\<lambda>r. case r of
        Inl err \<Rightarrow> if err = ErrNoRows then raise (Err (''unknown user '' @ arg)) else raise err
      | Inr w \<Rightarrow> attempt (named_users args) (\<lambda>ws. return (w # ws)))"

definition all_users :: "(string \<Rightarrow> goerr) \<Rightarrow> string \<Rightarrow> string \<Rightarrow> (goerr + (string \<times> string) list) prog" where
  "all_users json_err url key = attempt (get_counts json_err url key) (\<lambda>counts.
     attempt (usernames (map fst counts)) (\<lambda>names.
     return (sort_key snd (map (\<lambda>(i, _). (i, case names i of None \<Rightarrow> i | Some n \<Rightarrow> n)) counts))))"

definition stream_age :: "int \<Rightarrow> int \<Rightarrow> string" where
  "stream_age now secs =
     (let d = time_sub now (secs * 1000000000);
          units = (\<lambda>unit. if d < 0 then - units_trunc unit 1 (- d) else units_trunc unit 1 d)
      in if d \<ge> 3600000000000 then show_int (units 3600000000000) @ '' hours'' else show_int (units 60000000000) @ '' minutes'')"

fun show_streams :: "(string \<Rightarrow> goerr) \<Rightarrow> (string \<Rightarrow> string) \<Rightarrow> string \<Rightarrow> string \<Rightarrow> int \<Rightarrow> (string \<times> string) list \<Rightarrow> (goerr + unit) prog" where
  "show_streams json_err quoted url key now [] = return ()"
| "show_streams json_err quoted url key now ((i, name) # ws) = attempt (streamStats url key i) (\<lambda>body.
     case decode_streams body of
       None \<Rightarrow> raise (json_err body)
     | Some ss \<Rightarrow> bind (print_all print (map (\<lambda>(agent, secs). line (name @ '' - ['' @ stream_age now secs @ ''] '' @
            quoted (case agent of None \<Rightarrow> ''-'' | Some a \<Rightarrow> a))) ss)) (\<lambda>_.
         show_streams json_err quoted url key now ws))"

definition lctl_users :: "(string \<Rightarrow> goerr) \<Rightarrow> (string \<Rightarrow> string) \<Rightarrow> string \<Rightarrow> string \<Rightarrow> env \<Rightarrow> string list \<Rightarrow> (goerr + unit) prog" where
  "lctl_users json_err quoted url key env args =
     attempt (if args = [] then all_users json_err url key else named_users args) (\<lambda>ws.
       show_streams json_err quoted url key (Now env) ws)"

section \<open>reset\<close>

text \<open>
  The password: typed at the terminal, or the first line of stdin without its line end. A process
  has a stdin; \<open>None\<close> reads as an empty one.
\<close>

definition first_line :: "string \<Rightarrow> string" where
  "first_line s = rev (dropWhile (\<lambda>c. c = CHR 0x0D \<or> c = CHR 0x0A) (rev (takeWhile (\<lambda>c. c \<noteq> CHR 0x0A) s)))"

definition new_password :: "env \<Rightarrow> (goerr + string) prog" where
  "new_password env =
     attempt (if StdinIsTerminal env then read_password
              else return (case Stdin env of None \<Rightarrow> '''' | Some s \<Rightarrow> first_line s)) (\<lambda>pw.
       if pw = '''' then raise (Err ''password is empty'') else return pw)"

definition reset :: "(string \<Rightarrow> goerr + string) \<Rightarrow> env \<Rightarrow> string list \<Rightarrow> (goerr + unit) prog" where
  "reset bcrypt env args = (case args of
     [email] \<Rightarrow> attempt (new_password env) (\<lambda>pw. case bcrypt pw of
        Inl err \<Rightarrow> raise err
      | Inr hash \<Rightarrow> attempt (exec_sql (UpdatePassword hash email)) (\<lambda>n.
          if n = 0 then raise (Err (''no user with email '' @ email))
          else say (line (''password set for '' @ email)) (return ())))
   | _ \<Rightarrow> raise (UsageError ''give one email address''))"

end
