(* ===== verification/Front.thy ===== *)
theory Front
  imports Http Settings
begin

text \<open>
  How the stream server is set up and what stands before it: \<^verbatim>\<open>config.go\<close> (\<open>Load\<close>), \<^verbatim>\<open>proxy.go\<close> (which
  \<^verbatim>\<open>X-Forwarded-For\<close> is believed, and the access log) and the exit codes of \<^verbatim>\<open>main.go\<close>'s \<open>run\<close>. The
  property says whose forwarded address is believed with the default settings.
\<close>

section \<open>config.Load\<close>

record config =
  cf_liercd :: string
  cf_liercd_next :: string
  cf_db_host :: string
  cf_db_user :: string
  cf_db_pass :: string
  cf_db_name :: string
  cf_secret :: string
  cf_key :: string
  cf_nsq :: string
  cf_listen :: string
  cf_proxies :: "string list"
  cf_max_conns :: int

definition DefaultDBMaxConns :: int where
  "DefaultDBMaxConns = 20"

text \<open>\<^verbatim>\<open>net.JoinHostPort\<close>.\<close>

definition JoinHostPort :: "string \<Rightarrow> string \<Rightarrow> string" where
  "JoinHostPort host port = (if CHR '':'' \<in> set host then ''['' @ host @ '']:'' @ port else host @ '':'' @ port)"

text \<open>\<^verbatim>\<open>strconv.ParseInt(s, 10, 32)\<close>: out of range is an error.\<close>

definition ParseInt32 :: "string \<Rightarrow> int option" where
  "ParseInt32 s = Option.bind (ParseInt s) (\<lambda>n. if - (2 ^ 31) \<le> n \<and> n < 2 ^ 31 then Some n else None)"

definition max_conns :: "string \<Rightarrow> goerr + int" where
  "max_conns s =
     (let bad = Inl (Err (''DB_MAX_CONNS: '' @ quote s @ '' is not a positive integer'')) in
      if s = '''' then Inr DefaultDBMaxConns
      else (case ParseInt32 s of None \<Rightarrow> bad | Some n \<Rightarrow> if n \<le> 0 then bad else Inr n))"

definition Load :: "(string \<Rightarrow> string) \<Rightarrow> goerr + config" where
  "Load getenv =
     (let or = (\<lambda>key default. if getenv key \<noteq> '''' then getenv key else default);
          nsq = or ''NSQD_HOST'' ''127.0.0.1''
      in case max_conns (getenv ''DB_MAX_CONNS'') of
           Inl err \<Rightarrow> Inl err
         | Inr n \<Rightarrow> Inr
             \<lparr>cf_liercd = or ''LIERCD_HOST'' ''127.0.0.1'', cf_liercd_next = or ''LIERCD_NEXT_HOST'' '''',
              cf_db_host = or ''POSTGRES_HOST'' ''127.0.0.1'', cf_db_user = or ''POSTGRES_USER'' '''',
              cf_db_pass = or ''POSTGRES_PASSWORD'' '''', cf_db_name = ''lierc'', cf_secret = or ''API_SECRET'' ''changeme'',
              cf_key = or ''API_KEY'' ''changeme'', cf_nsq = (if SplitHostPort nsq = None then JoinHostPort nsq ''4150'' else nsq),
              cf_listen = or ''LISTEN'' '':5003'',
              cf_proxies = filter (\<lambda>p. p \<noteq> '''') (map TrimSpace (split_on CHR '','' (or ''TRUSTED_PROXIES'' ''127.0.0.1,::1''))),
              cf_max_conns = n\<rparr>)"

section \<open>proxy.Wrap\<close>

text \<open>
  \<^verbatim>\<open>net.ParseIP\<close> (no zones) and \<^verbatim>\<open>net.ParseCIDR\<close>; addresses compare as 16 bytes, IPv4 in its mapped
  form, and a prefix is of one family, where a mapped address is of IPv4.
\<close>

definition ParseIP :: "string \<Rightarrow> addr option" where
  "ParseIP s = (case ParseAddr s of Some a \<Rightarrow> if Zone a = '''' then Some a else None | None \<Rightarrow> None)"

definition ParseCIDR :: "string \<Rightarrow> (addr \<times> nat) option" where
  "ParseCIDR s = (case cut s CHR ''/'' of (a, b, found) \<Rightarrow>
     if \<not> found \<or> b = '''' \<or> \<not> list_all is_digit b then None
     else (case ParseIP a of
         None \<Rightarrow> None
       | Some ip \<Rightarrow> if digits_int b \<le> (if Is6 ip then 128 else 32) then Some (ip, nat (digits_int b)) else None))"

text \<open>
  \<^verbatim>\<open>Contains\<close>: a prefix whose network address is a mapped one (96 bits or more of it) is of IPv4, with
  the last 32 bits of the mask; no other IPv6 prefix contains an IPv4 address.
\<close>

definition net_contains :: "addr \<times> nat \<Rightarrow> addr \<Rightarrow> bool" where
  "net_contains p ip = (case p of (a, b) \<Rightarrow>
     (if Is6 a \<and> \<not> Is6 (Unmap a) \<and> b \<ge> 96 then prefix_contains (Unmap a, b - 96) (Unmap ip)
      else prefix_contains (a, b) (Unmap ip)))"

definition is_trusted :: "string list \<Rightarrow> string \<Rightarrow> bool" where
  "is_trusted trusted host = (case ParseIP host of
     None \<Rightarrow> False
   | Some ip \<Rightarrow> list_ex (\<lambda>t. case ParseCIDR t of
         Some n \<Rightarrow> net_contains n ip
       | None \<Rightarrow> (case ParseIP t of Some a \<Rightarrow> Unmap a = Unmap ip | None \<Rightarrow> False)) trusted)"

text \<open>\<^verbatim>\<open>lastHop\<close>: what follows the last comma or blank of the header's value, if anything.\<close>

definition hop_end :: "char \<Rightarrow> bool" where
  "hop_end c \<longleftrightarrow> c = CHR '','' \<or> byte c \<in> {32, 9, 10, 12, 13}"

definition lastHop :: "string \<Rightarrow> string option" where
  "lastHop s = (let h = rev (takeWhile (\<lambda>c. \<not> hop_end c) (rev s)) in if h = '''' then None else Some h)"

text \<open>The host that is logged, and the \<^verbatim>\<open>RemoteAddr\<close> the handler sees.\<close>

definition client_of :: "string list \<Rightarrow> string \<Rightarrow> string \<Rightarrow> string \<times> string" where
  "client_of trusted peer forwarded =
     (case (case SplitHostPort peer of Some hp \<Rightarrow> hp | None \<Rightarrow> (peer, '''')) of (host, port) \<Rightarrow>
        (if is_trusted trusted host then
           (case lastHop forwarded of None \<Rightarrow> (host, peer) | Some h \<Rightarrow> (h, JoinHostPort h port))
         else (host, peer)))"

text \<open>\<^verbatim>\<open>logWriter\<close>: the status and the bytes that are logged.\<close>

record log_writer =
  lw_status :: nat
  lw_wrote :: bool
  lw_bytes :: nat

definition new_log :: log_writer where
  "new_log = \<lparr>lw_status = 200, lw_wrote = False, lw_bytes = 0\<rparr>"

definition WriteHeader :: "nat \<Rightarrow> log_writer \<Rightarrow> log_writer" where
  "WriteHeader c w = (if \<not> lw_wrote w \<and> c \<ge> 200 then w\<lparr>lw_status := c, lw_wrote := True\<rparr> else w)"

definition Write :: "nat \<Rightarrow> log_writer \<Rightarrow> log_writer" where
  "Write n w = w\<lparr>lw_wrote := True, lw_bytes := lw_bytes w + n\<rparr>"

definition orDash :: "string \<Rightarrow> string" where
  "orDash s = (if s = '''' then ''-'' else s)"

text \<open>The access log's line; \<open>time\<close> is the formatted start time.\<close>

definition log_line :: "string \<Rightarrow> string \<Rightarrow> string \<Rightarrow> string \<Rightarrow> string \<Rightarrow> log_writer \<Rightarrow> string \<Rightarrow> string \<Rightarrow> string" where
  "log_line host time m uri proto w referer ua =
     host @ '' - - ['' @ time @ ''] '' @ dquote @ m @ '' '' @ uri @ '' '' @ proto @ dquote @ '' '' @ show_nat (lw_status w) @ '' '' @
     (if lw_bytes w > 0 then show_nat (lw_bytes w) else ''-'') @ '' '' @ dquote @ orDash referer @ dquote @ '' '' @
     dquote @ orDash ua @ dquote @ [CHR 0x0A]"

section \<open>Which forwarded address is believed\<close>

definition peer_host :: "string \<Rightarrow> string" where
  "peer_host peer = (case SplitHostPort peer of Some (h, _) \<Rightarrow> h | None \<Rightarrow> peer)"

lemma lastHop_Some: "lastHop s = Some h \<Longrightarrow> h \<noteq> '''' \<and> (\<forall>c\<in>set h. \<not> hop_end c) \<and> (\<exists>p. s = p @ h \<and> (p = '''' \<or> hop_end (last p)))"
proof -
  assume l: "lastHop s = Some h"
  let ?t = "takeWhile (\<lambda>c. \<not> hop_end c) (rev s)" and ?d = "dropWhile (\<lambda>c. \<not> hop_end c) (rev s)"
  have h: "h = rev ?t" "h \<noteq> ''''" using l by (auto simp: lastHop_def Let_def split: if_splits)
  have "rev s = ?t @ ?d" by simp
  then have "s = rev ?d @ h" unfolding h(1) by (metis rev_append rev_rev_ident)
  moreover have "rev ?d = '''' \<or> hop_end (last (rev ?d))"
    using hd_dropWhile [of "\<lambda>c. \<not> hop_end c" "rev s"] by (auto simp: last_rev)
  moreover have "\<forall>c\<in>set h. \<not> hop_end c" unfolding h(1) by (auto dest: set_takeWhileD)
  ultimately show ?thesis using h(2) by blast
qed

lemma Load_default_proxies:
  assumes "Load getenv = Inr cfg" "getenv ''TRUSTED_PROXIES'' = ''''"
  shows "cf_proxies cfg = [''127.0.0.1'', ''::1'']"
proof -
  have "cf_proxies cfg = filter (\<lambda>p. p \<noteq> []) (map TrimSpace (split_on CHR '','' ''127.0.0.1,::1''))"
    using assms unfolding Load_def Let_def by (auto split: sum.splits simp del: split_on.simps)
  also have "\<dots> = [''127.0.0.1'', ''::1'']" by (simp add: TrimSpace_plain plain_char_def byte_simps)
  finally show ?thesis .
qed

lemma default_trusted:
  "is_trusted [''127.0.0.1'', ''::1''] host \<longleftrightarrow> (\<exists>a. ParseIP host = Some a \<and> Unmap a \<in> {V4 0x7F000001, V6 1 ''''})"
proof -
  have "ParseCIDR ''127.0.0.1'' = None" "ParseCIDR ''::1'' = None"
    "ParseIP ''127.0.0.1'' = Some (V4 0x7F000001)" "ParseIP ''::1'' = Some (V6 1 [])" by code_simp+
  then show ?thesis by (auto simp: is_trusted_def split: option.splits)
qed

text \<open>
  C38. With the default settings the forwarded address is only believed of a peer on the loopback
  interface: any other request is logged and served under its peer's address, whatever its
  \<^verbatim>\<open>X-Forwarded-For\<close> says; and of a believed header only the last hop counts, which has no
  comma and no blank or line end in it.
\<close>

theorem forwarded_only_from_loopback:
  assumes "Load getenv = Inr cfg" "getenv ''TRUSTED_PROXIES'' = ''''" "client_of (cf_proxies cfg) peer forwarded = (host, addr)"
  shows "(host = peer_host peer \<and> addr = peer) \<or>
    (\<exists>a p. ParseIP (peer_host peer) = Some a \<and> Unmap a \<in> {V4 0x7F000001, V6 1 ''''} \<and>
       host \<noteq> '''' \<and> (\<forall>c\<in>set host. c \<noteq> CHR '','' \<and> c \<noteq> CHR '' '' \<and> c \<noteq> CHR 0x0A \<and> c \<noteq> CHR 0x0D) \<and>
       forwarded = p @ host \<and> (p = '''' \<or> hop_end (last p)))"
proof (cases "is_trusted (cf_proxies cfg) (peer_host peer)")
  case False
  then show ?thesis using assms(3) by (auto simp: client_of_def peer_host_def split: option.splits prod.splits)
next
  case True
  then obtain a where a: "ParseIP (peer_host peer) = Some a" "Unmap a \<in> {V4 0x7F000001, V6 1 []}"
    unfolding Load_default_proxies [OF assms(1,2)] default_trusted by blast
  show ?thesis
  proof (cases "lastHop forwarded")
    case None
    then show ?thesis using True assms(3) by (auto simp: client_of_def peer_host_def split: option.splits prod.splits)
  next
    case (Some h)
    then have "host = h" using True assms(3) by (auto simp: client_of_def peer_host_def split: option.splits prod.splits)
    then have h: "host \<noteq> []" "\<forall>c\<in>set host. \<not> hop_end c" "\<exists>p. forwarded = p @ host \<and> (p = [] \<or> hop_end (last p))"
      using lastHop_Some [OF Some] by simp_all
    have "hop_end (CHR '','')" "hop_end (CHR '' '')" "hop_end (CHR 0x0A)" "hop_end (CHR 0x0D)"
      by (simp_all add: hop_end_def byte_simps)
    then have "\<forall>c\<in>set host. c \<noteq> CHR '','' \<and> c \<noteq> CHR '' '' \<and> c \<noteq> CHR 0x0A \<and> c \<noteq> CHR 0x0D" using h(2) by metis
    then show ?thesis using a h(1,3) by blast
  qed
qed

theorem forwarded_only_from_loopback_witness:
  "\<exists>cfg. Load (\<lambda>_. '''') = Inr cfg \<and> client_of (cf_proxies cfg) ''10.0.0.9:4711'' ''1.2.3.4'' = (''10.0.0.9'', ''10.0.0.9:4711'') \<and>
     client_of (cf_proxies cfg) ''127.0.0.1:4711'' ''6.6.6.6, 1.2.3.4'' = (''1.2.3.4'', ''1.2.3.4:4711'')"
proof -
  obtain cfg where cfg: "Load (\<lambda>_. '''') = Inr cfg" by (simp add: Load_def max_conns_def Let_def)
  note p = Load_default_proxies [OF cfg refl]
  have "client_of [''127.0.0.1'', ''::1''] ''127.0.0.1:4711'' ''6.6.6.6, 1.2.3.4'' = (''1.2.3.4'', ''1.2.3.4:4711'')" by code_simp
  moreover obtain h a where ha: "client_of (cf_proxies cfg) ''10.0.0.9:4711'' ''1.2.3.4'' = (h, a)" by (cases "client_of (cf_proxies cfg) ''10.0.0.9:4711'' ''1.2.3.4''")
  moreover have "peer_host ''10.0.0.9:4711'' = ''10.0.0.9''" "ParseIP ''10.0.0.9'' = Some (V4 0x0A000009)" by code_simp+
  moreover have "h = peer_host ''10.0.0.9:4711'' \<and> a = ''10.0.0.9:4711''"
    using forwarded_only_from_loopback [OF cfg refl ha] calculation(3,4) by auto
  ultimately show ?thesis using cfg p by auto
qed

section \<open>main.go: the stream command\<close>

text \<open>How serving ended: the process was told to stop, NSQ's consumer could not be created, or Serve failed.\<close>

datatype ended = Cancelled | NsqFailed goerr | ServeFailed goerr

text \<open>
  \<^verbatim>\<open>run\<close>: the exit code and what it logs. Opening the database, listening and the outcomes of serving
  and of the shutdown (an error and whether it is the deadline's) are the environment's.
\<close>

definition run :: "string list \<Rightarrow> (string \<Rightarrow> string) \<Rightarrow> (config \<Rightarrow> goerr + unit) \<Rightarrow> (string \<Rightarrow> goerr + string) \<Rightarrow> ended \<Rightarrow>
    (goerr \<times> bool) option \<Rightarrow> nat \<times> string list" where
  "run args getenv db_open listen how shutdown =
     (if length args \<noteq> 1 \<or> hd args \<noteq> ''stream'' then (2, [''usage: lierc-api stream | lierc-api lctl COMMAND''])
      else (case Load getenv of
          Inl err \<Rightarrow> (1, [''config: '' @ err_text err])
        | Inr cfg \<Rightarrow> (case db_open cfg of
            Inl err \<Rightarrow> (1, [''database: '' @ err_text err])
          | Inr _ \<Rightarrow> (case listen (cf_listen cfg) of
              Inl err \<Rightarrow> (1, [''listen: '' @ err_text err])
            | Inr addr \<Rightarrow>
                (let started = ''lierc-api stream listening on '' @ addr;
                     bye = (case shutdown of Some (err, False) \<Rightarrow> [''shutdown: '' @ err_text err] | _ \<Rightarrow> [])
                 in case how of
                      Cancelled \<Rightarrow> (0, started # bye)
                    | NsqFailed err \<Rightarrow> (1, started # (''nsq: '' @ err_text err) # bye)
                    | ServeFailed err \<Rightarrow> (1, [started, ''serve: '' @ err_text err]))))))"

end
