(* ===== verification/Cli.thy ===== *)
theory Cli
  imports Admin Front FixEncoding Move
begin

text \<open>
  The command line of lctl: flags (\<^verbatim>\<open>Parse\<close> of \<^verbatim>\<open>lctl.go\<close> over the library's flag package), the flags
  each command declares, the table of commands (\<^verbatim>\<open>commands.go\<close>), the environment a command gets
  (\<^verbatim>\<open>OpenEnv\<close>) and \<open>Main\<close>. The property says which command lines can change anything at all.
\<close>

section \<open>Package flag\<close>

text \<open>A flag's value, of the type it was declared with; a flag set gives each name its value.\<close>

datatype fval = BoolV bool | IntV int | StringV string | DurationV int

type_synonym flags = "(string \<times> fval) list"

text \<open>\<^verbatim>\<open>strconv.ParseBool\<close>; \<^verbatim>\<open>ParseInt(s, 0, 64)\<close> with its base prefixes and underscores.\<close>

definition ParseBool :: "string \<Rightarrow> bool option" where
  "ParseBool s =
     (if s \<in> {''1'', ''t'', ''T'', ''TRUE'', ''true'', ''True''} then Some True
      else if s \<in> {''0'', ''f'', ''F'', ''FALSE'', ''false'', ''False''} then Some False else None)"

definition digit_value :: "char \<Rightarrow> int option" where
  "digit_value c = (let n = int (byte c) in
     if is_digit c then Some (n - 48) else if 97 \<le> n \<and> n \<le> 122 then Some (n - 87) else if 65 \<le> n \<and> n \<le> 90 then Some (n - 55) else None)"

fun digits_in :: "int \<Rightarrow> int \<Rightarrow> string \<Rightarrow> int option" where
  "digits_in radix n [] = Some n"
| "digits_in radix n (c # s) =
     (if c = CHR ''_'' then digits_in radix n s
      else (case digit_value c of None \<Rightarrow> None | Some d \<Rightarrow> if d \<ge> radix then None else digits_in radix (n * radix + d) s))"

fun underscores_ok :: "bool \<Rightarrow> string \<Rightarrow> bool" where
  "underscores_ok after_digit [] = True"
| "underscores_ok after_digit (c # s) =
     (if c = CHR ''_'' then after_digit \<and> s \<noteq> '''' \<and> underscores_ok False s else underscores_ok True s)"

definition base_of :: "string \<Rightarrow> int \<times> nat" where
  "base_of s =
     (if s = '''' \<or> hd s \<noteq> CHR ''0'' then (10, 0)
      else if length s \<ge> 3 \<and> s ! 1 \<in> set ''bB'' then (2, 2)
      else if length s \<ge> 3 \<and> s ! 1 \<in> set ''oO'' then (8, 2)
      else if length s \<ge> 3 \<and> s ! 1 \<in> set ''xX'' then (16, 2)
      else (8, 1))"

definition ParseInt0 :: "string \<Rightarrow> int option" where
  "ParseInt0 s0 =
     (let neg = (s0 \<noteq> '''' \<and> hd s0 = CHR ''-'');
          s = (if s0 \<noteq> '''' \<and> (hd s0 = CHR ''-'' \<or> hd s0 = CHR ''+'') then tl s0 else s0)
      in if s = '''' then None
         else (case base_of s of (radix, skip) \<Rightarrow>
           if \<not> underscores_ok (skip = 2) (if skip = 2 then drop 2 s else s) then None
           else (case digits_in radix 0 (drop skip s) of
               None \<Rightarrow> None
             | Some n \<Rightarrow> (let v = (if neg then - n else n) in if - (2 ^ 63) \<le> v \<and> v < 2 ^ 63 then Some v else None))))"

text \<open>\<^verbatim>\<open>Value.Set\<close>.\<close>

definition set_value :: "fval \<Rightarrow> string \<Rightarrow> fval option" where
  "set_value v s = (case v of
     BoolV _ \<Rightarrow> map_option BoolV (ParseBool s)
   | IntV _ \<Rightarrow> map_option IntV (ParseInt0 s)
   | StringV _ \<Rightarrow> Some (StringV s)
   | DurationV _ \<Rightarrow> map_option DurationV (ParseDuration s))"

text \<open>What \<^verbatim>\<open>FlagSet.Parse\<close> comes to, and why it can fail.\<close>

datatype flag_error = BadSyntax string | NotDefined string | NeedsArgument string | Invalid string string

datatype parsed = Parsed flags "string list" | Help | Bad flag_error

text \<open>A flag argument's name and, after an equals sign (not the first character), its value.\<close>

definition flag_of :: "string \<Rightarrow> string \<times> string option" where
  "flag_of name = (let n = take 1 name @ takeWhile (\<lambda>c. c \<noteq> CHR ''='') (drop 1 name) in
     (n, if length n < length name then Some (drop (length n + 1) name) else None))"

definition is_flag :: "string \<Rightarrow> bool" where
  "is_flag s \<longleftrightarrow> length s \<ge> 2 \<and> hd s = CHR ''-'' \<and> s \<noteq> ''--''"

definition flag_name :: "string \<Rightarrow> string" where
  "flag_name s = (if s ! 1 = CHR ''-'' then drop 2 s else drop 1 s)"

definition set_flag :: "string \<Rightarrow> fval \<Rightarrow> flags \<Rightarrow> flags" where
  "set_flag n v fl = map (\<lambda>(m, w). if m = n then (m, v) else (m, w)) fl"

function parse_flags :: "flags \<Rightarrow> string list \<Rightarrow> parsed" where
  "parse_flags fl [] = Parsed fl []"
| "parse_flags fl (s # args) =
     (if s = ''--'' then Parsed fl args
      else if \<not> is_flag s then Parsed fl (s # args)
      else if flag_name s = '''' \<or> hd (flag_name s) \<in> {CHR ''-'', CHR ''=''} then Bad (BadSyntax s)
      else (case flag_of (flag_name s) of (name, value) \<Rightarrow>
        (case map_of fl name of
           None \<Rightarrow> if name = ''help'' \<or> name = ''h'' then Help else Bad (NotDefined name)
         | Some (BoolV b) \<Rightarrow>
             (case set_value (BoolV b) (case value of None \<Rightarrow> ''true'' | Some v \<Rightarrow> v) of
                None \<Rightarrow> Bad (Invalid (case value of None \<Rightarrow> ''true'' | Some v \<Rightarrow> v) name)
              | Some w \<Rightarrow> parse_flags (set_flag name w fl) args)
         | Some old \<Rightarrow>
             (case value of
                Some v \<Rightarrow> (case set_value old v of
                  None \<Rightarrow> Bad (Invalid v name) | Some w \<Rightarrow> parse_flags (set_flag name w fl) args)
              | None \<Rightarrow> (case args of
                  [] \<Rightarrow> Bad (NeedsArgument name)
                | v # rest \<Rightarrow> (case set_value old v of
                    None \<Rightarrow> Bad (Invalid v name) | Some w \<Rightarrow> parse_flags (set_flag name w fl) rest))))))"
  by pat_completeness auto
termination by (relation "measure (\<lambda>(fl, args). length args)") auto

declare parse_flags.simps(2) [simp del]

fun bool_flag :: "flags \<Rightarrow> string \<Rightarrow> bool" where
  "bool_flag fl n = (case map_of fl n of Some (BoolV b) \<Rightarrow> b | _ \<Rightarrow> False)"

fun int_flag :: "flags \<Rightarrow> string \<Rightarrow> int" where
  "int_flag fl n = (case map_of fl n of Some (IntV i) \<Rightarrow> i | Some (DurationV i) \<Rightarrow> i | _ \<Rightarrow> 0)"

fun string_flag :: "flags \<Rightarrow> string \<Rightarrow> string" where
  "string_flag fl n = (case map_of fl n of Some (StringV s) \<Rightarrow> s | _ \<Rightarrow> '''')"

section \<open>The process and its environment\<close>

text \<open>
  What the process is given: its environment variables, stdin, terminal and clock; opening the
  database; and the parts that are other packages': Unicode's tables, bcrypt, the texts of
  \<^verbatim>\<open>encoding/json\<close>'s errors, quoting, and what the flag package prints (a command's usage, and the
  report of a bad flag with the usage after it). \<open>sy_fuel\<close> bounds the batches of prune-logs.
\<close>

record system =
  sy_getenv :: "string \<Rightarrow> string"
  sy_stdin :: "string option"
  sy_tty :: bool
  sy_now :: int
  sy_db_open :: "config \<Rightarrow> goerr + unit"
  sy_unicode :: unicode
  sy_bcrypt :: "string \<Rightarrow> goerr + string"
  sy_json_err :: "string \<Rightarrow> goerr"
  sy_quoted :: "string \<Rightarrow> string"
  sy_usage :: "string \<Rightarrow> string"
  sy_flag_text :: "string \<Rightarrow> flag_error \<Rightarrow> string"
  sy_fuel :: nat

text \<open>\<^verbatim>\<open>OSSystem\<close>'s view of stdin, and \<^verbatim>\<open>OpenEnv\<close> (the key and the stats address stay with the settings).\<close>

definition stdin_is_terminal :: "system \<Rightarrow> bool" where
  "stdin_is_terminal sys \<longleftrightarrow> sy_tty sys \<or> sy_getenv sys ''LCTL_STDIN_TTY'' = ''1''"

definition open_env :: "system \<Rightarrow> (goerr + env) prog" where
  "open_env sys = Ret (case Load (sy_getenv sys) of
     Inl err \<Rightarrow> Inl err
   | Inr cfg \<Rightarrow>
       (let name = sy_getenv sys ''POSTGRES_DB'';
            cfg = cfg\<lparr>cf_db_name := (if name \<noteq> '''' then name else cf_db_name cfg), cf_max_conns := 4\<rparr>
        in case sy_db_open sys cfg of
             Inl err \<Rightarrow> Inl err
           | Inr _ \<Rightarrow> Inr (OpenEnv \<lparr>Main = cf_liercd cfg, Next = cf_liercd_next cfg\<rparr> (sy_stdin sys) (stdin_is_terminal sys) (sy_now sys))))"

definition api_key :: "system \<Rightarrow> string" where
  "api_key sys = (case Load (sy_getenv sys) of Inl _ \<Rightarrow> '''' | Inr cfg \<Rightarrow> cf_key cfg)"

definition stats_url :: "system \<Rightarrow> string" where
  "stats_url sys = (if sy_getenv sys ''API_STATS'' = '''' then ''http://127.0.0.1:5003/stats'' else sy_getenv sys ''API_STATS'')"

section \<open>The commands\<close>

text \<open>\<^verbatim>\<open>NewFlags\<close> and \<^verbatim>\<open>Parse\<close>, then the command.\<close>

definition with_flags :: "system \<Rightarrow> string \<Rightarrow> flags \<Rightarrow> (flags \<Rightarrow> string list \<Rightarrow> (goerr + unit) prog) \<Rightarrow> string list \<Rightarrow> (goerr + unit) prog" where
  "with_flags sys name fl k args = (case parse_flags fl args of
     Parsed fl rest \<Rightarrow> k fl rest
   | Help \<Rightarrow> say_err (sy_usage sys name) (raise ErrHelp)
   | Bad err \<Rightarrow> say_err (sy_flag_text sys name err) (raise (UsageError '''')))"

definition settle_flags :: flags where
  "settle_flags = [(''delete'', BoolV False), (''settle'', IntV 5)]"

definition check_flags :: flags where
  "check_flags = [(''delete'', BoolV False), (''delete-unresolved'', BoolV False), (''no-dns'', BoolV False), (''settle'', IntV 5)]"

definition move_all_flags :: flags where
  "move_all_flags = [(''move'', BoolV False), (''dormant'', BoolV False), (''batch'', IntV 5), (''pause'', DurationV 30000000000),
     (''limit'', IntV 0)]"

definition revive_all_flags :: flags where
  "revive_all_flags = [(''since'', StringV ''48h''), (''instance'', StringV ''''), (''batch'', IntV 5), (''pause'', DurationV 30000000000),
     (''wait'', DurationV 0)]"

definition move_flags_of :: "flags \<Rightarrow> move_flags" where
  "move_flags_of fl = \<lparr>m_move = bool_flag fl ''move'', m_dormant = bool_flag fl ''dormant'', m_batch = int_flag fl ''batch'',
     m_pause = int_flag fl ''pause'', m_limit = int_flag fl ''limit''\<rparr>"

text \<open>prune-logs with its fuel; \<open>Delete.pruneLogs_terminates\<close> says how much is enough.\<close>

definition prune_with_fuel :: "nat \<Rightarrow> bool \<Rightarrow> int \<Rightarrow> string list \<Rightarrow> (goerr + unit) prog" where
  "prune_with_fuel fuel del batch args =
     bind (pruneLogs fuel del batch args) (\<lambda>r. Ret (case r of None \<Rightarrow> Inl (Err ''out of fuel'') | Some x \<Rightarrow> x))"

definition subcommand :: "string \<Rightarrow> string \<Rightarrow> (env \<Rightarrow> string list \<Rightarrow> (goerr + unit) prog) \<Rightarrow> command" where
  "subcommand name summary p = \<lparr>Name = name, Summary = summary, Run = p\<rparr>"

definition Commands :: "system \<Rightarrow> command list" where
  "Commands sys =
    [subcommand ''user-info'' ''Show a user: email, last login, password storage, connections''
       (\<lambda>env. with_flags sys ''user-info'' [] (\<lambda>fl args. userInfo env args)),
     subcommand ''inactive-users'' ''List users who haven't logged in within --since (e.g. 90d)''
       (\<lambda>env. with_flags sys ''inactive-users'' [(''since'', StringV '''')] (\<lambda>fl args. inactiveUsers env (string_flag fl ''since'') args)),
     subcommand ''stop-inactive'' ''Stop the running liercd connections of users who haven't logged in within --since; dry run unless --stop''
       (\<lambda>env. with_flags sys ''stop-inactive'' [(''since'', StringV ''''), (''stop'', BoolV False)]
          (\<lambda>fl args. stopInactive env (string_flag fl ''since'') (bool_flag fl ''stop'') args)),
     subcommand ''connection-info'' ''Show a connection: owner, saved config, validity, and its live state in liercd''
       (\<lambda>env. with_flags sys ''connection-info'' []
          (\<lambda>fl args. connectionInfo (\<lambda>b. err_text (sy_json_err sys b)) (sy_unicode sys) (sy_getenv sys) env args)),
     subcommand ''connection-list'' ''List connections, one line each: id, instance, owner, host:port, live state; --instance main|next filters''
       (\<lambda>env. with_flags sys ''connection-list'' [(''instance'', StringV '''')]
          (\<lambda>fl args. connectionList env (string_flag fl ''instance'') args)),
     subcommand ''fix-config-encoding'' ''Repair saved configs whose non-ASCII text the Perl API stored encoded twice; dry run unless --fix''
       (\<lambda>env. with_flags sys ''fix-config-encoding'' [(''fix'', BoolV False)] (\<lambda>fl args. fixConfigEncoding (bool_flag fl ''fix'') args)),
     subcommand ''check-connections'' ''Check saved connections against the connection rules; --delete removes invalid ones''
       (\<lambda>env. with_flags sys ''check-connections'' check_flags (\<lambda>fl args.
          checkConnections (sy_unicode sys) (sy_getenv sys) env (bool_flag fl ''delete'') (bool_flag fl ''delete-unresolved'')
            (bool_flag fl ''no-dns'') (int_flag fl ''settle'') args)),
     subcommand ''delete-users'' ''Delete users and all their data; dry run unless --delete''
       (\<lambda>env. with_flags sys ''delete-users'' settle_flags (\<lambda>fl args. deleteUsers env (bool_flag fl ''delete'') (int_flag fl ''settle'') args)),
     subcommand ''delete-connections'' ''Delete connections and their data, keeping the users; dry run unless --delete''
       (\<lambda>env. with_flags sys ''delete-connections'' settle_flags
          (\<lambda>fl args. deleteConnections env (bool_flag fl ''delete'') (int_flag fl ''settle'') args)),
     subcommand ''reset'' ''Set a user's password (prompted, or one line on stdin)''
       (\<lambda>env. with_flags sys ''reset'' [] (\<lambda>fl args. reset (sy_bcrypt sys) env args)),
     subcommand ''reconnect'' ''Restart connections in liercd from their saved configs''
       (\<lambda>env. with_flags sys ''reconnect'' [] (\<lambda>fl args. reconnect env args)),
     subcommand ''move-connection'' ''Move a connection to another liercd instance (main or next)''
       (\<lambda>env. with_flags sys ''move-connection'' [] (\<lambda>fl args. moveConnection env args)),
     subcommand ''move-connections'' ''Move every connection on one liercd instance to the other, in paced batches; dry run unless --move''
       (\<lambda>env. with_flags sys ''move-connections'' move_all_flags (\<lambda>fl args. moveConnections env (move_flags_of fl) args)),
     subcommand ''revive'' ''Start saved connections liercd isn't running, for recently active users''
       (\<lambda>env. with_flags sys ''revive'' revive_all_flags (\<lambda>fl args. revive env (string_flag fl ''since'') (string_flag fl ''instance'')
          (int_flag fl ''batch'') (int_flag fl ''pause'') (int_flag fl ''wait'') args)),
     subcommand ''stats'' ''Open event streams per user''
       (\<lambda>env. with_flags sys ''stats'' [] (\<lambda>fl args. stats (sy_json_err sys) (stats_url sys) (api_key sys))),
     subcommand ''users'' ''Open event streams for users (default all)''
       (\<lambda>env. with_flags sys ''users'' [] (\<lambda>fl args. lctl_users (sy_json_err sys) (sy_quoted sys) (stats_url sys) (api_key sys) env args)),
     subcommand ''prune-seen'' ''Count or delete seen rows for deleted connections or not updated in a month''
       (\<lambda>env. with_flags sys ''prune-seen'' [(''delete'', BoolV False)] (\<lambda>fl args. pruneSeen (bool_flag fl ''delete'') args)),
     subcommand ''prune-logs'' ''Count or delete log rows for deleted connections''
       (\<lambda>env. with_flags sys ''prune-logs'' [(''delete'', BoolV False), (''batch'', IntV 10000)]
          (\<lambda>fl args. prune_with_fuel (sy_fuel sys) (bool_flag fl ''delete'') (int_flag fl ''batch'') args))]"

definition lctl_main :: "system \<Rightarrow> string list \<Rightarrow> nat prog" where
  "lctl_main sys args = mainWith args (Commands sys) (open_env sys)"

section \<open>Which command lines can change anything\<close>

text \<open>An argument that gives a flag; the flags that turn a dry run into a real one.\<close>

definition gives_flag :: "string \<Rightarrow> string \<Rightarrow> bool" where
  "gives_flag n a \<longleftrightarrow> is_flag a \<and> fst (flag_of (flag_name a)) = n"

lemma map_of_set_flag: "map_of (set_flag n v fl) m = (if m = n then map_option (\<lambda>_. v) (map_of fl m) else map_of fl m)"
  unfolding set_flag_def by (induction fl) auto

lemma parse_flags_default:
  "parse_flags fl args = Parsed fl' rest \<Longrightarrow> \<forall>a\<in>set args. \<not> gives_flag n a \<Longrightarrow> map_of fl' n = map_of fl n"
proof (induction fl args arbitrary: fl' rest rule: parse_flags.induct)
  case (2 fl s args)
  note parsed = 2(8) and absent = 2(9)
  show ?case
  proof (cases "s = ''--'' \<or> \<not> is_flag s")
    case True
    then show ?thesis using parsed unfolding parse_flags.simps(2) by (auto split: if_splits)
  next
    case False
    obtain name val where nv: "flag_of (flag_name s) = (name, val)" by (cases "flag_of (flag_name s)")
    have name: "name \<noteq> n" using absent False nv by (auto simp: gives_flag_def)
    have rest: "\<forall>a\<in>set args. \<not> gives_flag n a" using absent by simp
    have rest2: "\<forall>a\<in>set (tl args). \<not> gives_flag n a" using rest by (cases args) auto
    let ?bool = "case val of None \<Rightarrow> ''true'' | Some v \<Rightarrow> v"
    have go: "\<not> (flag_name s = '''' \<or> hd (flag_name s) \<in> {CHR ''-'', CHR ''=''})"
      using parsed False unfolding parse_flags.simps(2) by (auto split: if_splits)
    have flag: "s \<noteq> ''--''" "\<not> \<not> is_flag s" using False by auto
    note IH = flag go nv [symmetric]
    have same: "map_of fl' n = map_of fl n" if "map_of fl' n = map_of (set_flag name w fl) n" for w
      using that name by (simp add: map_of_set_flag)
    have run: "parse_flags fl (s # args) = (case map_of fl name of
           None \<Rightarrow> if name = ''help'' \<or> name = ''h'' then Help else Bad (NotDefined name)
         | Some (BoolV b) \<Rightarrow>
             (case set_value (BoolV b) ?bool of None \<Rightarrow> Bad (Invalid ?bool name) | Some w \<Rightarrow> parse_flags (set_flag name w fl) args)
         | Some old \<Rightarrow>
             (case val of
                Some v \<Rightarrow> (case set_value old v of
                  None \<Rightarrow> Bad (Invalid v name) | Some w \<Rightarrow> parse_flags (set_flag name w fl) args)
              | None \<Rightarrow> (case args of
                  [] \<Rightarrow> Bad (NeedsArgument name)
                | v # rest \<Rightarrow> (case set_value old v of
                    None \<Rightarrow> Bad (Invalid v name) | Some w \<Rightarrow> parse_flags (set_flag name w fl) rest))))"
      using False go nv unfolding parse_flags.simps(2) by simp
    obtain old where old: "map_of fl name = Some old" using parsed run by (cases "map_of fl name") (auto split: if_splits)
    show ?thesis
    proof (cases old)
      case (BoolV b)
      then show ?thesis using parsed run old same 2(1) [OF IH old _ _ _ rest] by (auto split: option.splits)
    next
      case (IntV i)
      then show ?thesis using parsed run old same 2(2) [OF IH old _ _ _ _ _ rest2] 2(3) [OF IH old _ _ _ _ rest]
        by (auto split: option.splits list.splits)
    next
      case (StringV i)
      then show ?thesis using parsed run old same 2(4) [OF IH old _ _ _ _ _ rest2] 2(5) [OF IH old _ _ _ _ rest]
        by (auto split: option.splits list.splits)
    next
      case (DurationV i)
      then show ?thesis using parsed run old same 2(6) [OF IH old _ _ _ _ _ rest2] 2(7) [OF IH old _ _ _ _ rest]
        by (auto split: option.splits list.splits)
    qed
  qed
qed simp

lemma bool_flag_default:
  assumes "parse_flags fl args = Parsed fl' rest" "\<forall>a\<in>set args. \<not> gives_flag n a" "map_of fl n = Some (BoolV False)"
  shows "\<not> bool_flag fl' n"
  using parse_flags_default [OF assms(1,2)] assms(3) by simp

lemma only_with_flags:
  assumes "\<And>fl' rest. parse_flags fl args = Parsed fl' rest \<Longrightarrow> only harmless (k fl' rest)"
  shows "only harmless (with_flags sys name fl k args)"
  using assms unfolding with_flags_def by (auto simp: only_simps split: parsed.split)

section \<open>The commands that only look\<close>

lemma only_Connections [only_simps]: "S (Query (SelectConnections u)) \<Longrightarrow> only S (Connections u)"
  by (simp add: Connections_def only_simps)

lemma only_print_all [only_simps]: "(\<And>s. only S (p s)) \<Longrightarrow> only S (print_all p ls)"
  by (induction ls) (auto simp: only_simps)

lemma only_status: "Liercd env = NewRouted hosts LookupLiercd \<Longrightarrow> only harmless (liercdState env i)"
  "Liercd env = NewRouted hosts LookupLiercd \<Longrightarrow> only harmless (liercdStatus json_err env i)"
  unfolding liercdState_def liercdStatus_def by (auto intro!: only_bind simp: only_simps)

lemma only_instanceName [only_simps]: "only harmless (instanceName i)"
  unfolding instanceName_def by (rule only_attempt) (simp_all add: only_simps)

lemma only_userInfo: "Liercd env = NewRouted hosts LookupLiercd \<Longrightarrow> only harmless (userInfo env args)"
proof -
  assume env: "Liercd env = NewRouted hosts LookupLiercd"
  have "only harmless (show_conns env cs)" for cs
    by (induction cs) (auto intro!: only_bind only_attempt only_status(1) [OF env] simp: only_simps split: sum.split)
  then have "only harmless (show_user env u)" for u
    unfolding show_user_def by (auto intro!: only_bind only_attempt simp: only_simps)
  then have "only harmless (show_users env first ws missing)" for first ws missing
    by (induction ws arbitrary: first missing)
      (auto intro!: only_bind only_attempt simp: only_simps blank_line_def split: sum.split)
  then show ?thesis unfolding userInfo_def by (auto intro!: only_attempt simp: only_simps)
qed

lemma only_connectionInfo: "Liercd env = NewRouted hosts LookupLiercd \<Longrightarrow> only harmless (connectionInfo json_err U getenv env args)"
proof -
  assume env: "Liercd env = NewRouted hosts LookupLiercd"
  have "only harmless (show_saved U env getenv i row)" for i row
    unfolding show_saved_def by (auto intro!: only_bind only_attempt connectionProblem_only simp: only_simps split: prod.split sum.split)
  then have "only harmless (show_connection json_err U env getenv i saved)" for i saved
    unfolding show_connection_def show_live_def
    by (auto intro!: only_bind only_attempt only_status(2) [OF env] simp: only_simps split: prod.split option.split)
  then have "only harmless (show_connections json_err U env getenv first is missing)" for first "is" missing
    by (induction "is" arbitrary: first missing)
      (auto intro!: only_bind only_attempt simp: only_simps blank_line_def split: sum.split)
  then show ?thesis unfolding connectionInfo_def by (auto intro!: only_attempt simp: only_simps)
qed

lemma only_connectionList: "Liercd env = NewRouted hosts LookupLiercd \<Longrightarrow> only harmless (connectionList env inst args)"
proof -
  assume env: "Liercd env = NewRouted hosts LookupLiercd"
  have "only harmless (list_conns env cs)" for cs
    by (induction cs) (auto intro!: only_bind only_attempt only_status(1) [OF env] simp: only_simps split: sum.split)
  then show ?thesis unfolding connectionList_def by (auto intro!: only_attempt simp: only_simps)
qed

lemma only_inactiveUsers: "only harmless (inactiveUsers env age args)"
proof -
  have "only harmless (list_inactive now rows n)" for now rows n
    by (induction rows arbitrary: n) (auto simp: only_simps split: sum.split)
  then show ?thesis unfolding inactiveUsers_def
    by (auto intro!: only_attempt simp: only_simps Let_def split: option.split)
qed

lemma only_streamStats [only_simps]: "only harmless (streamStats url key u)"
  unfolding streamStats_def by (auto intro!: only_attempt simp: only_simps)

lemma only_usernames [only_simps]: "only harmless (usernames ids)"
  unfolding usernames_def by (auto intro!: only_attempt simp: only_simps)

lemma only_get_counts [only_simps]: "only harmless (get_counts json_err url key)"
  unfolding get_counts_def by (auto intro!: only_attempt simp: only_simps split: option.split)

lemma only_stats: "only harmless (stats json_err url key)"
  unfolding stats_def by (auto intro!: only_attempt only_bind simp: only_simps)

lemma only_users: "only harmless (lctl_users json_err quoted url key env args)"
proof -
  have "only harmless (named_users args)" for args
    by (induction args) (auto intro!: only_attempt only_bind simp: only_simps split: sum.split)
  moreover have "only harmless (show_streams json_err quoted url key now ws)" for now ws
    by (induction ws) (auto intro!: only_attempt only_bind simp: only_simps split: option.split)
  ultimately show ?thesis unfolding lctl_users_def all_users_def by (auto intro!: only_attempt simp: only_simps)
qed

section \<open>The dry runs\<close>

lemma only_stop_dry: "only harmless (stopInactive env age False args)"
  unfolding stopInactive_def stop_report_def
  by (auto intro!: only_attempt only_mono [OF only_stop_loop [OF subset_refl]] simp: only_simps Let_def split: option.split prod.split)

lemma only_fix_dry: "only harmless (fixConfigEncoding False args)"
proof -
  have "only harmless (fix_one False c)" for c
    unfolding fix_one_def by (auto intro!: only_bind only_attempt simp: only_simps Let_def split: option.split json.split prod.split)
  then have "only harmless (fix_all False cs a b d)" for cs a b d
    by (induction cs arbitrary: a b d) (auto intro!: only_attempt simp: only_simps split: sum.split outcome.split)
  then show ?thesis unfolding fixConfigEncoding_def by (auto intro!: only_attempt simp: only_simps)
qed

lemma only_move_dry:
  assumes "\<not> m_move fl"
  shows "only harmless (moveConnections env fl args)"
proof -
  have "only harmless (dormant_loop lc inst cs d n)" if "instanceOf lc = None" for lc inst cs d n
    using that by (induction cs arbitrary: d n) (auto intro!: only_bind simp: only_simps split: sum.split)
  then have "only harmless (dormantOn env inst cs)" for inst cs
    unfolding dormantOn_def using For_pinned by (auto split: sum.split)
  moreover have "only harmless p \<Longrightarrow> only harmless (say_all ls p)" for ls and p :: "(goerr + unit) prog"
    by (induction ls) (auto simp: only_simps)
  ultimately show ?thesis using assms unfolding moveConnections_def move_selected_def connectionsOn_def
    by (auto intro!: only_attempt simp: only_simps Let_def split: list.split)
qed

lemma only_prune_dry: "only harmless (pruneSeen False args)" "only harmless (prune_with_fuel fuel False batch args)"
  unfolding pruneSeen_def prune_with_fuel_def pruneLogs_def
  by (auto intro!: only_attempt only_bind simp: only_simps split: sum.split)


section \<open>The table and Main\<close>

text \<open>
  The dry runs with the flags that make them real, and the command lines that ask for a change: a
  command that always makes one, or a dry run's flag given.
\<close>

definition dry_flags :: "(string \<times> string) set" where
  "dry_flags = {(''check-connections'', ''delete''), (''delete-users'', ''delete''), (''delete-connections'', ''delete''),
     (''prune-seen'', ''delete''), (''prune-logs'', ''delete''), (''stop-inactive'', ''stop''),
     (''fix-config-encoding'', ''fix''), (''move-connections'', ''move'')}"

definition asks :: "string list \<Rightarrow> bool" where
  "asks args \<longleftrightarrow> args \<noteq> [] \<and>
     (hd args \<in> {''reset'', ''reconnect'', ''move-connection'', ''revive''} \<or>
      (\<exists>flag a. (hd args, flag) \<in> dry_flags \<and> a \<in> set (tl args) \<and> gives_flag flag a))"

lemma only_dry_command:
  assumes "\<not> asks (name # args)" "(name, n) \<in> dry_flags" "map_of fl n = Some (BoolV False)"
    "\<And>fl' rest. \<not> bool_flag fl' n \<Longrightarrow> only harmless (k fl' rest)"
  shows "only harmless (with_flags sys name fl k args)"
proof (rule only_with_flags)
  fix fl' rest assume "parse_flags fl args = Parsed fl' rest"
  moreover have "\<forall>a\<in>set args. \<not> gives_flag n a" using assms(1,2) unfolding asks_def by auto
  ultimately show "only harmless (k fl' rest)" using bool_flag_default assms(3,4) by blast
qed

lemmas looks_only = only_userInfo only_connectionInfo only_connectionList

lemmas lists_only = only_inactiveUsers only_stats only_users

lemmas dry_only = dry_run_only only_stop_dry only_fix_dry only_move_dry only_prune_dry

lemma only_command:
  assumes env: "Liercd env = NewRouted hosts LookupLiercd"
    and "c \<in> set (Commands sys)" "\<not> asks (Name c # args)"
  shows "only harmless (Run c env args)"
proof -
  have "list_all (\<lambda>c. \<not> asks (Name c # args) \<longrightarrow> only harmless (Run c env args)) (Commands sys)"
    unfolding Commands_def subcommand_def list.pred_inject command.simps
    by (intro conjI impI TrueI;
      ((rule only_with_flags, rule looks_only [OF env] | rule only_with_flags, rule lists_only) | (simp add: asks_def; fail) |
       (rule only_dry_command, assumption, simp add: dry_flags_def,
        simp add: settle_flags_def check_flags_def move_all_flags_def,
        simp add: dry_only move_flags_of_def del: bool_flag.simps)))
  then show ?thesis using assms(2,3) by (simp add: list_all_iff)
qed

lemma open_env_routed:
  assumes "open_env sys = Ret (Inr env)"
  shows "\<exists>hosts. Liercd env = NewRouted hosts LookupLiercd"
  using assms unfolding open_env_def by (auto simp: Let_def OpenEnv_def split: sum.splits)

lemma lctl_main_only:
  assumes "\<not> asks args"
  shows "only harmless (lctl_main sys args)"
proof -
  obtain r where r: "open_env sys = Ret r" unfolding open_env_def by blast
  have run: "only harmless (Run c env (tl args))" if "c \<in> set (Commands sys)" "Name c = hd args" "args \<noteq> []" "r = Inr env" for c env
    using only_command [OF _ that(1)] open_env_routed r that assms by (metis list.collapse)
  have in_table: "last xs \<in> set (Commands sys) \<and> Name (last xs) = hd args"
    if "filter (\<lambda>c. Name c = hd args) (Commands sys) = xs" "xs \<noteq> []" for xs
    using last_in_set [OF that(2)] that(1) by auto
  show ?thesis using run in_table unfolding lctl_main_def mainWith_def r
    by (auto intro!: only_bind simp: only_simps Let_def split: list.split sum.split goerr.split)
qed


text \<open>
  C25. lctl sends nothing that changes anything (no statement or transaction, no request to liercd
  but a GET) unless the command line asks for it: by one of the four commands that always change
  something, or by the flag that makes a dry run real among the arguments (in any of the forms the
  flag package takes, \<^verbatim>\<open>-delete\<close>, \<^verbatim>\<open>--delete\<close>, \<^verbatim>\<open>--delete=true\<close>). This holds of
  every command of the table, whatever the environment, the arguments and the answers are, and also
  when lctl is stopped between any two of its actions.
\<close>

theorem lctl_changes_only_when_asked:
  assumes "reaches (lctl_main sys args) es q" "e \<in> set es" "\<not> harmless (fst e)"
  shows "asks args"
proof (rule ccontr)
  assume "\<not> asks args"
  then have "only harmless (lctl_main sys args)" by (rule lctl_main_only)
  then have "runs (lctl_main sys args) es c \<Longrightarrow> \<forall>e\<in>set es. harmless (fst e)" for es c by (rule only_runs)
  then have "\<forall>e\<in>set es. harmless (fst e)"
    by (rule interrupted [where I = "\<lambda>es. \<forall>e\<in>set es. harmless (fst e)", OF _ _ assms(1)]) auto
  then show False using assms(2,3) by blast
qed

definition sample_system :: system where
  "sample_system = \<lparr>sy_getenv = (\<lambda>_. ''''), sy_stdin = None, sy_tty = True, sy_now = 0, sy_db_open = (\<lambda>_. Inr ()),
     sy_unicode = plain_unicode, sy_bcrypt = (\<lambda>s. Inr s), sy_json_err = (\<lambda>_. Err ''''), sy_quoted = (\<lambda>s. s),
     sy_usage = (\<lambda>_. ''''), sy_flag_text = (\<lambda>_ _. ''''), sy_fuel = 1\<rparr>"

lemma lctl_changes_only_when_asked_witness:
  "\<exists>es. reaches (lctl_main sample_system [''prune-seen'', ''--delete'']) es (Ret 0) \<and>
     (Exec DeleteStaleSeen, Affected 1) \<in> set es \<and> asks [''prune-seen'', ''--delete'']"
proof -
  obtain env where env: "open_env sample_system = Ret (Inr env)"
    by (simp add: open_env_def sample_system_def Load_def max_conns_def Let_def)
  have flags: "parse_flags [(''delete'', BoolV False)] [''--delete''] = Parsed [(''delete'', BoolV True)] []" by code_simp
  let ?es = "[(Exec DeleteStaleSeen, Affected 1), (Print (line (''deleted '' @ show_nat 1 @ '' seen row(s)'')), Done)]"
  have "reaches (lctl_main sample_system [''prune-seen'', ''--delete'']) ?es (Ret 0)"
    unfolding lctl_main_def mainWith_def env
    by (simp add: Commands_def subcommand_def Let_def with_flags_def flags pruneSeen_def exec_sql_def say_def print_def attempt_def
        reaches_Act reaches_refl)
  with lctl_changes_only_when_asked [OF this, of "(Exec DeleteStaleSeen, Affected 1)"] show ?thesis by auto
qed

end
