(* ===== verification/Spec2Isabelle.thy ===== *)
theory Spec2Isabelle
  imports Ids Storable Session Liercd World Lctl Move Registry Settings Effects Delete FixEncoding Raw Perl Replay Http Duration Revive Inactive Info Admin Front Cli
begin

text \<open>
  A model of the Go half of lierc-api and what it keeps to.

  The program. lierc is an IRC client on the web. The daemon liercd, of which there are up to two
  instances (main and next), holds the IRC connections; Postgres holds the users, the saved configs
  of their connections and the log; NSQ carries every message liercd logs. The Go program is one
  binary: \<^verbatim>\<open>lierc-api stream\<close> serves each logged-in user a stream of server-sent events, and
  \<^verbatim>\<open>lierc-api lctl\<close> holds the admin commands. A stream's request goes through \<^verbatim>\<open>proxy.Wrap\<close>, is
  identified by the Perl API's signed cookie (\<^verbatim>\<open>session\<close>, \<^verbatim>\<open>storable\<close>), is given a replay of the state
  of its user's connections (asked of liercd, which recreates those that it lost), is registered,
  and then gets every message \<^verbatim>\<open>Deliver\<close> finds to be its user's; when it ends its channel lists and the
  login time are saved. The admin commands query and change the database and ask liercd to create
  and destroy connections, on the instance each connection's column names.

  How it is modelled. A pure function of the code is a HOL function. Code that talks to the world is
  a tree of actions (\<^verbatim>\<open>Interaction\<close>): a value to return, or a request, statement, look-up or line of
  output with a continuation for each reply, so that every error branch is there. Of such a program
  one can state what it does whatever is answered (\<open>runs\<close>), when it is interrupted (\<open>reaches\<close>), in a
  world whose services work (\<open>result\<close>, \<open>serve\<close> of \<^verbatim>\<open>World\<close>), or amid other programs (\<open>runs_amid\<close>, where
  the others read a column and create what they read in separate steps, however late).
  A statement of SQL is a constructor of \<open>sql\<close> with its arguments; what the database answers it is
  \<open>answer\<close> of \<^verbatim>\<open>Database\<close>. Strings are Go's, lists of bytes. Errors are the left of a sum, a Go panic a
  value of its own. Words are used where the code's width matters, \<open>wrap64\<close> where an \<open>int\<close> may wrap.

  The theories, from the bottom up, with the files of src/internal they model:

  \<^item> \<^verbatim>\<open>Prelude\<close>, \<^verbatim>\<open>Utf8\<close>, \<^verbatim>\<open>Codecs\<close>, \<^verbatim>\<open>Hmac\<close>, \<^verbatim>\<open>Json\<close>, \<^verbatim>\<open>Raw\<close>: what is used of Go's library: strings,
    formatting, UTF-8, hexadecimal, base64, percent encoding, HMAC-SHA-1, JSON as values and as raw
    text. Their lemmas are the round trips; a value that is printed is read as itself.
  \<^item> \<^verbatim>\<open>Ids\<close> (ids), \<^verbatim>\<open>Storable\<close> (storable), \<^verbatim>\<open>Session\<close> (session and the cookie writer of testenv): ids are
    unique, short and of the alphabet; the decoder never indexes out of range and accepts exactly
    the frozen hashes; a cookie logs in exactly the user that was signed into it.
  \<^item> \<^verbatim>\<open>Interaction\<close>, \<^verbatim>\<open>Database\<close> (db), \<^verbatim>\<open>Liercd\<close> (liercd), \<^verbatim>\<open>World\<close> (testenv/fakeliercd.go): programs, the
    tables and the methods of \<^verbatim>\<open>DB\<close>, the routing client and \<open>FindOrRecreate\<close>, and the services as code.
    The locale \<open>instance_lookup\<close> is what the client relies on of a look-up, \<open>liercd_instance\<close> what the
    commands rely on of a liercd, \<open>services\<close> what running a program relies on of its services; each is
    interpreted on the model's own definitions.
  \<^item> \<^verbatim>\<open>Registry\<close> (stream/server.go, stream/writer.go): the registry of streams and every interleaving
    of handlers, pings, messages and shutdown as a step relation, with its invariant: each user's
    streams get all of that user's messages in order or are dropped, and no others.
  \<^item> \<^verbatim>\<open>Perl\<close>, \<^verbatim>\<open>Replay\<close>, \<^verbatim>\<open>Http\<close> (stream/replay.go, server.go, stats.go, the ends of writer.go): Perl's view
    of raw values, the replayed events, the saving of channel lists, requests and answers.
  \<^item> \<^verbatim>\<open>Connconfig\<close>, \<^verbatim>\<open>Settings\<close> (connconfig): the cleaning of a connection's settings and the check of its
    host; the bounds of what is let through, and the holes in the rules.
  \<^item> \<^verbatim>\<open>Lctl\<close>, \<^verbatim>\<open>Move\<close>, \<^verbatim>\<open>Effects\<close>, \<^verbatim>\<open>Delete\<close>, \<^verbatim>\<open>FixEncoding\<close>, \<^verbatim>\<open>Duration\<close>, \<^verbatim>\<open>Revive\<close>, \<^verbatim>\<open>Inactive\<close>, \<^verbatim>\<open>Info\<close>,
    \<^verbatim>\<open>Admin\<close> (lctl): what the commands share, then the commands. The properties say in which order
    a move and a deletion change things, what is left when they are interrupted, whose connections
    are touched, and that no password is shown.
  \<^item> \<^verbatim>\<open>Front\<close> (config, proxy, cmd/lierc-api/main.go), \<^verbatim>\<open>Cli\<close> (lctl/lctl.go, lctl/commands.go): settings,
    forwarded addresses, exit codes; the flags, the table of commands, and which command lines
    change anything.

  Bounds and fuel. The JSON parsers take fuel and are called with twice the length of their text and
  more, or with its length for raw values; more changes nothing (\<open>parse_fuel\<close>). Values nest to Go's
  10000. \<open>pruneLogs\<close> has no bound in the code: its fuel is the number of batches, it returns \<open>None\<close>
  when they do not suffice, and one more than the log's rows do (\<open>pruneLogs_terminates\<close>); in \<open>Cli\<close>
  the fuel is a field of the system. Every other loop is a total function; \<open>wait_loop\<close> ends by its
  measure, the time left to wait. Times are nanoseconds since 1970 and not bounded where the code's
  are of \<open>time.Time\<close>; durations are bounded to 64 bits where they are read.

  Parameters. Unicode's classes and the folding and normalising of x/text (the record \<open>unicode\<close>), bcrypt, the
  texts of \<^verbatim>\<open>encoding/json\<close>'s errors, the quoting of a user agent, the texts the flag package prints, the
  environment's variables, and the random bytes of an id.

  Not modelled. The retry loop around the NSQ consumer (stream/nsq.go) and the starting of Postgres
  and nsqd for tests (testenv/postgres.go, testenv/nsqd.go): they only call third-party packages.
  \<^verbatim>\<open>db.Open\<close> and the pool (db/pool.go): a URL for pgx, and a type around its errors. In \<^verbatim>\<open>main.go\<close> the
  goroutines, signals and the HTTP server, of which \<open>run\<close> takes the outcomes. The log lines of the
  stream server. The texts of the commands' usages.
\<close>

end
